(* ===== verification/Prelude.thy ===== *)
theory Prelude
  imports Main "HOL-Library.Word" "HOL-Library.Sublist" "HOL-Library.AList"
begin

text \<open>
  Shared vocabulary of the TurboNet development.

  \<^item> the machine types of the C++ sources (fixed-width words, byte vectors, time points);
  \<^item> the outcome of a Boost.Asio operation as the handlers see it (the error code), and the
    read operations a socket can have outstanding;
  \<^item> vectors as lists: \<open>resize\<close>, the \<open>memcpy\<close> into a vector, the bytes of a string;
  \<^item> finite maps as association lists, unordered (\<open>std::unordered_map\<close>) and ordered
    (\<open>std::map\<close>), behind one interface, the locale \<open>finite_map\<close>;
  \<^item> runs of an event-driven component, with the invariant rule stated once in the locale
    \<open>machine\<close> and the simulation rule in the locale \<open>simulation\<close>, reused by the components.
\<close>

unbundle bit_operations_syntax

named_theorems codec_simps \<open>normal forms of encoders and decoders\<close>
named_theorems handler_defs \<open>definitions of the completion handlers\<close>

section \<open>Machine types\<close>

type_synonym u8 = "8 word"
type_synonym u16 = "16 word"
type_synonym u32 = "32 word"
type_synonym bytes = "u8 list"

text \<open>
  Time points of \<open>std::chrono::steady_clock\<close> and durations, in nanoseconds.
\<close>

type_synonym time = int

definition milliseconds :: "int \<Rightarrow> time" where
  "milliseconds n = n * 1000000"

definition hours :: "int \<Rightarrow> time" where
  "hours n = n * 3600000000000"

text \<open>
  The \<open>boost::system::error_code\<close> a completion handler receives: \<open>None\<close> is success. The
  sources only ever ask whether there is an error and whether it is
  \<open>boost::asio::error::operation_aborted\<close>.
\<close>

datatype errc = operation_aborted | other_error nat

type_synonym error_code = "errc option"

text \<open>
  The read a connection has outstanding: the fixed-size header or a body of the given length.
\<close>

datatype read_op = RdHeader | RdBody nat

section \<open>Byte vectors and strings\<close>

definition string_of :: "bytes \<Rightarrow> string" where
  "string_of bs = map (\<lambda>b. char_of (unat b)) bs"

definition bytes_of :: "string \<Rightarrow> bytes" where
  "bytes_of s = map (\<lambda>c. of_nat (of_char c)) s"

text \<open>\<open>std::vector::resize\<close>: cut, or grow with zero bytes.\<close>

definition resize :: "nat \<Rightarrow> bytes \<Rightarrow> bytes" where
  "resize n v = take n v @ replicate (n - length v) 0"

text \<open>
  \<open>memcpy(v.data() + off, src, n)\<close>, and equally the bytes a read operation has stored at the
  front of its buffer: the bytes of \<open>src\<close> replace those of \<open>v\<close> from \<open>off\<close> on.
\<close>

definition memcpy :: "bytes \<Rightarrow> nat \<Rightarrow> bytes \<Rightarrow> bytes" where
  "memcpy v off src = take off v @ src @ drop (off + length src) v"

lemma unat_of_nat_of_char [simp]: "unat (of_nat (of_char c) :: u8) = of_char c"
  using nat_of_char_less_256 [of c] by (simp add: unat_of_nat)

lemma of_nat_unat_mod_256 [simp]: "of_nat (unat b mod 256) = (b :: u8)"
proof -
  have "unat b < 2 ^ 8" using unsigned_less [of b, where ?'a = nat] by simp
  then show ?thesis by simp
qed

lemma string_of_bytes_of [simp]: "string_of (bytes_of s) = s"
  by (induction s) (simp_all add: string_of_def bytes_of_def)

lemma bytes_of_string_of [simp]: "bytes_of (string_of b) = b"
  by (induction b) (simp_all add: string_of_def bytes_of_def)

lemma length_bytes_of [simp]: "length (bytes_of s) = length s"
  by (simp add: bytes_of_def)

lemma length_resize [simp]: "length (resize n v) = n"
  by (simp add: resize_def)

lemma length_memcpy [simp]:
  "off + length src \<le> length v \<Longrightarrow> length (memcpy v off src) = length v"
  by (simp add: memcpy_def)

lemma memcpy_full [simp]: "length src = length v \<Longrightarrow> memcpy v 0 src = src"
  by (simp add: memcpy_def)

lemma memcpy_append [simp]:
  "length a = off \<Longrightarrow> length b = length src \<Longrightarrow> memcpy (a @ b @ c) off src = a @ src @ c"
  by (simp add: memcpy_def)

lemma take_drop_length_append [simp]:
  "n = length xs \<Longrightarrow> take n (xs @ ys) = xs" "n = length xs \<Longrightarrow> drop n (xs @ ys) = ys"
  by simp_all

lemma concat_eq_Nil_iff: "[] \<notin> set xss \<Longrightarrow> concat xss = [] \<longleftrightarrow> xss = []"
  by (cases xss) auto

lemma subseq_set: "subseq xs ys \<Longrightarrow> set xs \<subseteq> set ys"
  by (induction rule: list_emb.induct) auto

lemma subseq_appendD1:
  assumes "subseq (xs @ ys) zs"
  shows "subseq xs zs"
proof -
  have "subseq xs (xs @ ys)"
    by (rule subseq_rev_drop_many) simp
  then show ?thesis
    using assms by (rule subseq_order.order_trans)
qed

lemma map_filter_append [simp]: "List.map_filter f (xs @ ys) = List.map_filter f xs @ List.map_filter f ys"
  by (simp add: List.map_filter_def)

section \<open>Finite maps\<close>

lemma restrict_upd_None: "(m(k := None)) |` (- A) = m |` (- insert k A)"
  by (rule ext) (simp add: restrict_map_def)

text \<open>
  What the containers promise their clients: a lookup after an insertion or a removal. The
  clients' lemma is the bulk removal of a list of keys, which every timeout sweep of the
  sources performs.
\<close>

locale finite_map =
  fixes put :: "'k \<Rightarrow> 'v \<Rightarrow> 'm \<Rightarrow> 'm"
    and del :: "'k \<Rightarrow> 'm \<Rightarrow> 'm"
    and look :: "'m \<Rightarrow> 'k \<Rightarrow> 'v option"
    and inv :: "'m \<Rightarrow> bool"
  assumes look_put: "inv m \<Longrightarrow> look (put k v m) = (look m)(k \<mapsto> v)"
    and look_del: "inv m \<Longrightarrow> look (del k m) = (look m)(k := None)"
    and inv_put: "inv m \<Longrightarrow> inv (put k v m)"
    and inv_del: "inv m \<Longrightarrow> inv (del k m)"
begin

lemma inv_fold_del: "inv m \<Longrightarrow> inv (fold del ks m)"
  by (induction ks arbitrary: m) (simp_all add: inv_del)

lemma look_fold_del: "inv m \<Longrightarrow> look (fold del ks m) = look m |` (- set ks)"
proof (induction ks arbitrary: m)
  case Nil
  show ?case by (simp add: restrict_map_def)
next
  case (Cons k ks)
  then show ?case
    by (simp only: fold_simps inv_del look_del restrict_upd_None list.set)
qed

lemma put_then_del: "inv m \<Longrightarrow> look m k = None \<Longrightarrow> look (del k (put k v m)) = look m"
  by (auto simp: look_put look_del inv_put)

end

text \<open>\<open>std::unordered_map\<close>: an association list with distinct keys, in no particular order.\<close>

type_synonym ('k, 'v) umap = "('k \<times> 'v) list"

definition umap_inv :: "('k, 'v) umap \<Rightarrow> bool" where
  "umap_inv m \<longleftrightarrow> distinct (map fst m)"

interpretation umap: finite_map AList.update AList.delete map_of umap_inv
  by unfold_locales
    (simp_all add: umap_inv_def update_conv' delete_conv' distinct_update distinct_delete)

text \<open>\<open>emplace\<close> inserts only when the key is absent.\<close>

definition emplace :: "'k \<Rightarrow> 'v \<Rightarrow> ('k, 'v) umap \<Rightarrow> ('k, 'v) umap" where
  "emplace k v m = (case map_of m k of None \<Rightarrow> m @ [(k, v)] | Some _ \<Rightarrow> m)"

lemma map_of_emplace: "map_of (emplace k v m) = (case map_of m k of None \<Rightarrow> (map_of m)(k \<mapsto> v) | Some _ \<Rightarrow> map_of m)"
  by (auto simp: emplace_def map_add_def split: option.splits)

lemma umap_inv_emplace: "umap_inv m \<Longrightarrow> umap_inv (emplace k v m)"
  by (auto simp: umap_inv_def emplace_def map_of_eq_None_iff split: option.splits)

text \<open>\<open>std::map\<close>: an association list in ascending order of its keys.\<close>

type_synonym ('k, 'v) omap = "('k \<times> 'v) list"

fun omap_put :: "'k::linorder \<Rightarrow> 'v \<Rightarrow> ('k, 'v) omap \<Rightarrow> ('k, 'v) omap" where
  "omap_put k v [] = [(k, v)]"
| "omap_put k v ((k', v') # m) =
     (if k < k' then (k, v) # (k', v') # m
      else if k = k' then (k, v) # m
      else (k', v') # omap_put k v m)"

definition omap_inv :: "('k::linorder, 'v) omap \<Rightarrow> bool" where
  "omap_inv m \<longleftrightarrow> sorted_wrt (<) (map fst m)"

lemma set_omap_put: "fst ` set (omap_put k v m) = insert k (fst ` set m)"
  by (induction k v m rule: omap_put.induct) auto

lemma omap_inv_put: "omap_inv m \<Longrightarrow> omap_inv (omap_put k v m)"
proof (induction k v m rule: omap_put.induct)
  case (2 k v k' v' m)
  have keys: "fst ` set (omap_put k v m) = insert k (fst ` set m)"
    by (rule set_omap_put)
  have later: "\<And>a b. (a, b) \<in> set m \<Longrightarrow> k' < a"
    using "2.prems" by (force simp: omap_inv_def)
  show ?case
    using 2 keys by (fastforce simp: omap_inv_def dest: later)
qed (simp add: omap_inv_def)

lemma omap_inv_delete: "omap_inv m \<Longrightarrow> omap_inv (AList.delete k m)"
  unfolding omap_inv_def AList.delete_eq
  by (induction m) (auto simp: sorted_wrt_map)

lemma omap_inv_distinct: "omap_inv m \<Longrightarrow> distinct (map fst m)"
  unfolding omap_inv_def using strict_sorted_iff by blast

lemma map_of_omap_put: "map_of (omap_put k v m) = (map_of m)(k \<mapsto> v)"
  by (induction k v m rule: omap_put.induct) (auto simp: fun_eq_iff)

interpretation omap: finite_map omap_put AList.delete map_of omap_inv
  by unfold_locales
    (simp_all add: map_of_omap_put omap_inv_put omap_inv_delete delete_conv')

section \<open>Handlers as sequences of statements\<close>

text \<open>
  A handler changes the state and has effects, in order. Its body is a list of statements:
  \<open>modify\<close> an assignment, \<open>emit\<close> a call into the environment, \<open>if_do\<close> an \<open>if\<close> without
  \<open>else\<close>, \<open>seqs\<close> a block.
\<close>

type_synonym ('s, 'o) proc = "'s \<Rightarrow> 's \<times> 'o list"

fun seqs :: "('s, 'o) proc list \<Rightarrow> ('s, 'o) proc" where
  "seqs [] s = (s, [])"
| "seqs (f # fs) s = (let (s', o1) = f s; (s'', o2) = seqs fs s' in (s'', o1 @ o2))"

definition skip :: "('s, 'o) proc" where
  "skip s = (s, [])"

definition emit :: "'o \<Rightarrow> ('s, 'o) proc" where
  "emit x s = (s, [x])"

definition modify :: "('s \<Rightarrow> 's) \<Rightarrow> ('s, 'o) proc" where
  "modify f s = (f s, [])"

definition if_do :: "bool \<Rightarrow> ('s, 'o) proc \<Rightarrow> ('s, 'o) proc" where
  "if_do b f s = (if b then f s else (s, []))"

lemma fst_seqs_Cons [simp]: "fst (seqs (f # fs) s) = fst (seqs fs (fst (f s)))"
  by (simp add: Let_def split: prod.splits)

lemma snd_seqs_Cons [simp]: "snd (seqs (f # fs) s) = snd (f s) @ snd (seqs fs (fst (f s)))"
  by (simp add: Let_def split: prod.splits)

declare seqs.simps(2) [simp del]

lemma statement_simps [simp]:
  "fst (skip s) = s" "snd (skip s) = []"
  "fst (emit x s) = s" "snd (emit x s) = [x]"
  "fst (modify f s) = f s" "snd (modify f s) = []"
  "if_do True p s = p s" "if_do False p s = (s, [])"
  "fst (if_do b p s) = (if b then fst (p s) else s)"
  "snd (if_do b p s) = (if b then snd (p s) else [])"
  by (simp_all add: skip_def emit_def modify_def if_do_def)

lemma seqs_emits [simp]:
  "fst (seqs (map (\<lambda>b. emit (f b)) bs) c) = c" "snd (seqs (map (\<lambda>b. emit (f b)) bs) c) = map f bs"
  by (induction bs) simp_all

lemma seqs_keeps:
  "(\<And>p s. p \<in> set ps \<Longrightarrow> P s \<Longrightarrow> P (fst (p s))) \<Longrightarrow> P s \<Longrightarrow> P (fst (seqs ps s))"
  by (induction ps arbitrary: s) simp_all

section \<open>Runs of event-driven components\<close>

text \<open>
  A component reacts to events: a step maps a state and an event to the next state and the
  effects of the handler, in the order in which the handler has them. A run concatenates the
  effects.
\<close>

fun run :: "('s \<Rightarrow> 'e \<Rightarrow> 's \<times> 'o list) \<Rightarrow> 's \<Rightarrow> 'e list \<Rightarrow> 's \<times> 'o list" where
  "run step s [] = (s, [])"
| "run step s (e # es) =
     (let (s', o1) = step s e; (s'', o2) = run step s' es in (s'', o1 @ o2))"

text \<open>Whether the environment may deliver each event in the state in which it is delivered.\<close>

fun allowed :: "('s \<Rightarrow> 'e \<Rightarrow> bool) \<Rightarrow> ('s \<Rightarrow> 'e \<Rightarrow> 's \<times> 'o list) \<Rightarrow> 's \<Rightarrow> 'e list \<Rightarrow> bool" where
  "allowed ok step s [] = True"
| "allowed ok step s (e # es) = (ok s e \<and> allowed ok step (fst (step s e)) es)"

lemma run_append:
  "run step s (es @ fs) =
     (let (s', o1) = run step s es; (s'', o2) = run step s' fs in (s'', o1 @ o2))"
  by (induction es arbitrary: s) (simp_all add: Let_def split: prod.splits)

lemma fst_run_Cons [simp]: "fst (run step s (e # es)) = fst (run step (fst (step s e)) es)"
  by (simp add: Let_def split: prod.splits)

lemma snd_run_Cons [simp]:
  "snd (run step s (e # es)) = snd (step s e) @ snd (run step (fst (step s e)) es)"
  by (simp add: Let_def split: prod.splits)

declare run.simps(2) [simp del]

lemma run_single: "run step s [e] = step s e"
  by (simp add: prod_eq_iff)

lemma allowed_append:
  "allowed ok step s (es @ fs) \<longleftrightarrow> allowed ok step s es \<and> allowed ok step (fst (run step s es)) fs"
  by (induction es arbitrary: s) simp_all

lemma allowed_conj:
  "allowed (\<lambda>s e. ok s e \<and> ok' s e) step s es \<longleftrightarrow> allowed ok step s es \<and> allowed ok' step s es"
  by (induction es arbitrary: s) auto

lemma allowed_events:
  "allowed (\<lambda>s e. ok s e \<and> P e) step s es \<longleftrightarrow> allowed ok step s es \<and> list_all P es"
  by (induction es arbitrary: s) auto

text \<open>How often effects of a kind occur in a run.\<close>

definition occurs :: "('o \<Rightarrow> bool) \<Rightarrow> 'o list \<Rightarrow> nat" where
  "occurs P os = length (filter P os)"

lemma occurs_simps [simp]:
  "occurs P [] = 0" "occurs P (x # xs) = (if P x then 1 else 0) + occurs P xs"
  "occurs P (xs @ ys) = occurs P xs + occurs P ys"
  by (simp_all add: occurs_def)

text \<open>
  The invariant rule, in two strengths. A \<open>traced_machine\<close> has an invariant that relates the
  state to the effects so far; what every allowed step keeps holds after every allowed run. A
  \<open>machine\<close> has an invariant of the state alone and is a traced machine.
\<close>

locale traced_machine =
  fixes step :: "'s \<Rightarrow> 'e \<Rightarrow> 's \<times> 'o list"
    and ok :: "'s \<Rightarrow> 'e \<Rightarrow> bool"
    and tinv :: "'s \<Rightarrow> 'o list \<Rightarrow> bool"
  assumes step_tinv:
    "tinv s os \<Longrightarrow> ok s e \<Longrightarrow> tinv (fst (step s e)) (os @ snd (step s e))"
begin

lemma run_tinv:
  "tinv s os \<Longrightarrow> allowed ok step s es \<Longrightarrow> tinv (fst (run step s es)) (os @ snd (run step s es))"
proof (induction es arbitrary: s os)
  case (Cons e es)
  then show ?case using step_tinv [of s os e] by (auto dest: Cons.IH)
qed simp

end

locale machine =
  fixes step :: "'s \<Rightarrow> 'e \<Rightarrow> 's \<times> 'o list"
    and ok :: "'s \<Rightarrow> 'e \<Rightarrow> bool"
    and inv :: "'s \<Rightarrow> bool"
  assumes step_inv: "inv s \<Longrightarrow> ok s e \<Longrightarrow> inv (fst (step s e))"

sublocale machine \<subseteq> traced: traced_machine step ok "\<lambda>s os. inv s"
  by unfold_locales (rule step_inv)

context machine
begin

lemma run_inv: "inv s \<Longrightarrow> allowed ok step s es \<Longrightarrow> inv (fst (run step s es))"
  by (rule traced.run_tinv)

lemma run_outputs:
  assumes out: "\<And>s e x. inv s \<Longrightarrow> ok s e \<Longrightarrow> x \<in> set (snd (step s e)) \<Longrightarrow> P x"
  shows "inv s \<Longrightarrow> allowed ok step s es \<Longrightarrow> x \<in> set (snd (run step s es)) \<Longrightarrow> P x"
proof (induction es arbitrary: s)
  case (Cons e es)
  then show ?case using out [of s e x] by (auto intro: step_inv)
qed simp

end

text \<open>
  A simulation: a component against a specification that reacts to the same events. What every
  step has in common with the specification, every run has: related states, and the same
  visible effects in the same order.
\<close>

locale simulation =
  fixes step :: "'s \<Rightarrow> 'e \<Rightarrow> 's \<times> 'o list"
    and spec :: "'a \<Rightarrow> 'e \<Rightarrow> 'a \<times> 'v list"
    and rel :: "'s \<Rightarrow> 'a \<Rightarrow> bool"
    and ok :: "'a \<Rightarrow> 'e \<Rightarrow> bool"
    and vis :: "'o \<Rightarrow> 'v option"
  assumes sim_step: "rel s a \<Longrightarrow> ok a e \<Longrightarrow>
    rel (fst (step s e)) (fst (spec a e)) \<and> List.map_filter vis (snd (step s e)) = snd (spec a e)"
begin

lemma run_sim:
  "rel s a \<Longrightarrow> allowed ok spec a es \<Longrightarrow>
     rel (fst (run step s es)) (fst (run spec a es)) \<and>
     List.map_filter vis (snd (run step s es)) = snd (run spec a es)"
proof (induction es arbitrary: s a)
  case (Cons e es)
  then have "rel (fst (step s e)) (fst (spec a e)) \<and> List.map_filter vis (snd (step s e)) = snd (spec a e)"
    by (intro sim_step) simp_all
  with Cons show ?case by (auto simp: List.map_filter_def)
qed (simp add: List.map_filter_def)

end

end
