(* ===== verification/ByteOrder.thy ===== *)
theory ByteOrder
  imports Prelude
begin

text \<open>
  Byte order. The sources move 32-bit integers between host variables and byte buffers with
  \<open>memcpy\<close> (or a \<open>reinterpret_cast\<close> of the buffer) and \<open>htonl\<close>/\<open>ntohl\<close>. The host's byte order
  is a parameter \<open>h\<close> of every definition that does so, and the lemmas of this theory show that
  the composition is the big-endian wire format on every host.
\<close>

section \<open>Definitions\<close>

datatype endian = LittleEndian | BigEndian

definition le_bytes :: "u32 \<Rightarrow> bytes" where
  "le_bytes w = [ucast w, ucast (drop_bit 8 w), ucast (drop_bit 16 w), ucast (drop_bit 24 w)]"

definition le_val :: "bytes \<Rightarrow> u32" where
  "le_val bs = foldr (\<lambda>b acc. ucast b OR push_bit 8 acc) bs 0"

definition be_bytes :: "u32 \<Rightarrow> bytes" where
  "be_bytes w = rev (le_bytes w)"

definition be_val :: "bytes \<Rightarrow> u32" where
  "be_val bs = le_val (rev bs)"

text \<open>The object representation of a \<open>uint32_t\<close>, and the value of four bytes read as one.\<close>

fun mem_u32 :: "endian \<Rightarrow> u32 \<Rightarrow> bytes" where
  "mem_u32 LittleEndian w = le_bytes w"
| "mem_u32 BigEndian w = be_bytes w"

fun u32_mem :: "endian \<Rightarrow> bytes \<Rightarrow> u32" where
  "u32_mem LittleEndian bs = le_val bs"
| "u32_mem BigEndian bs = be_val bs"

definition bswap32 :: "u32 \<Rightarrow> u32" where
  "bswap32 w = le_val (rev (le_bytes w))"

fun htonl :: "endian \<Rightarrow> u32 \<Rightarrow> u32" where
  "htonl LittleEndian w = bswap32 w"
| "htonl BigEndian w = w"

fun ntohl :: "endian \<Rightarrow> u32 \<Rightarrow> u32" where
  "ntohl LittleEndian w = bswap32 w"
| "ntohl BigEndian w = w"

section \<open>Round trips\<close>

lemma length_le_bytes [simp]: "length (le_bytes w) = 4"
  by (simp add: le_bytes_def)

lemma length_be_bytes [simp]: "length (be_bytes w) = 4"
  by (simp add: be_bytes_def)

lemma length_mem_u32 [simp]: "length (mem_u32 h w) = 4"
  by (cases h) simp_all

lemma le_val_le_bytes [simp]: "le_val (le_bytes w) = w"
  unfolding le_val_def le_bytes_def
proof (rule bit_word_eqI)
  fix n assume "n < LENGTH(32)"
  then consider "n < 8" | "8 \<le> n" "n < 16" | "16 \<le> n" "n < 24" | "24 \<le> n" "n < 32" by force
  then show "bit (foldr (\<lambda>b acc. ucast b OR push_bit 8 acc)
      [ucast w :: u8, ucast (drop_bit 8 w), ucast (drop_bit 16 w), ucast (drop_bit 24 w)] (0 :: u32)) n
      = bit w n"
    by cases (auto simp: bit_simps)
qed

lemma le_bytes_le_val:
  assumes "length bs = 4"
  shows "le_bytes (le_val bs) = bs"
proof -
  from assms obtain a b c d where bs: "bs = [a, b, c, d]"
    by (auto simp: numeral_eq_Suc length_Suc_conv)
  have "le_bytes (le_val [a, b, c, d]) = [a, b, c, d]"
    unfolding le_bytes_def le_val_def list.inject
    by (intro conjI refl bit_word_eqI)
      (auto simp: bit_simps simp del: push_bit_of_1 dest: bit_imp_le_length)
  then show ?thesis by (simp add: bs)
qed

lemma be_val_be_bytes [simp]: "be_val (be_bytes w) = w"
  by (simp add: be_val_def be_bytes_def)

lemma be_bytes_be_val: "length bs = 4 \<Longrightarrow> be_bytes (be_val bs) = bs"
  by (simp add: be_val_def be_bytes_def le_bytes_le_val)

lemma u32_mem_mem_u32 [simp]: "u32_mem h (mem_u32 h w) = w"
  by (cases h) simp_all

lemma le_bytes_inject [simp]: "le_bytes v = le_bytes w \<longleftrightarrow> v = w"
  by (metis le_val_le_bytes)

lemma be_bytes_inject [simp]: "be_bytes v = be_bytes w \<longleftrightarrow> v = w"
  by (metis be_val_be_bytes)

section \<open>Independence of the host\<close>

lemma le_bytes_bswap32: "le_bytes (bswap32 w) = be_bytes w"
  by (simp add: bswap32_def be_bytes_def le_bytes_le_val)

lemma mem_htonl [simp, codec_simps]: "mem_u32 h (htonl h w) = be_bytes w"
  by (cases h) (simp_all add: le_bytes_bswap32)

lemma bswap32_le_val: "length bs = 4 \<Longrightarrow> bswap32 (le_val bs) = be_val bs"
  by (simp add: bswap32_def be_val_def le_bytes_le_val)

lemma ntohl_mem [simp, codec_simps]: "length bs = 4 \<Longrightarrow> ntohl h (u32_mem h bs) = be_val bs"
  by (cases h) (simp_all add: bswap32_le_val)

lemma ntohl_htonl [simp]: "ntohl h (htonl h w) = w"
proof -
  have "bswap32 (bswap32 w) = w"
    by (simp add: bswap32_def le_bytes_le_val)
  then show ?thesis by (cases h) simp_all
qed

end
