(* ===== verification/Framing.thy ===== *)
theory Framing
  imports Prelude
begin

text \<open>
  Framing of a byte stream. Every protocol of the repository sends length-prefixed packets over
  TCP. The locale \<open>framing\<close> states what a packet codec promises the stream above it; its lemmas
  give, once for all codecs, that a stream of packets is cut back into the same packets, that
  the bytes of a packet that is not complete yet are kept, and that two packet sequences with
  the same bytes are equal.
\<close>

section \<open>Cutting a stream\<close>

text \<open>
  \<open>unframe dec bs\<close> decodes packets from the front of \<open>bs\<close> as long as there are any, and returns
  them with the bytes left over. A decoder that consumes nothing stops the loop.
\<close>

function unframe :: "(bytes \<Rightarrow> ('f \<times> bytes) option) \<Rightarrow> bytes \<Rightarrow> 'f list \<times> bytes" where
  "unframe dec bs =
     (case dec bs of
        None \<Rightarrow> ([], bs)
      | Some (f, rest) \<Rightarrow>
          if length rest < length bs
          then (let (fs, left) = unframe dec rest in (f # fs, left))
          else ([], bs))"
  by pat_completeness auto
termination
  by (relation "measure (\<lambda>(dec, bs). length bs)") auto

declare unframe.simps [simp del]

definition wire :: "('f \<Rightarrow> bytes) \<Rightarrow> 'f list \<Rightarrow> bytes" where
  "wire enc fs = concat (map enc fs)"

lemma wire_simps [simp]:
  "wire enc [] = []" "wire enc (f # fs) = enc f @ wire enc fs"
  "wire enc (fs @ gs) = wire enc fs @ wire enc gs"
  by (simp_all add: wire_def)

section \<open>The contract of a packet codec\<close>

locale framing =
  fixes enc :: "'f \<Rightarrow> bytes"
    and dec :: "bytes \<Rightarrow> ('f \<times> bytes) option"
    and wf :: "'f \<Rightarrow> bool"
  assumes dec_enc: "wf f \<Longrightarrow> dec (enc f @ rest) = Some (f, rest)"
    and enc_nonempty: "enc f \<noteq> []"
    and dec_partial: "wf f \<Longrightarrow> strict_prefix p (enc f) \<Longrightarrow> dec p = None"
begin

lemma unframe_enc: "wf f \<Longrightarrow> unframe dec (enc f @ rest) = (let (fs, left) = unframe dec rest in (f # fs, left))"
  using enc_nonempty by (subst unframe.simps) (simp add: dec_enc)

lemma unframe_partial: "wf f \<Longrightarrow> strict_prefix p (enc f) \<Longrightarrow> unframe dec p = ([], p)"
  by (subst unframe.simps) (simp add: dec_partial)

lemma unframe_wire_append:
  "list_all wf fs \<Longrightarrow> unframe dec (wire enc fs @ rest) = (let (gs, left) = unframe dec rest in (fs @ gs, left))"
proof (induction fs)
  case Nil
  show ?case by (simp add: case_prod_beta)
next
  case (Cons f fs)
  then show ?case by (simp add: unframe_enc case_prod_beta Let_def)
qed

lemma unframe_wire_partial:
  "list_all wf fs \<Longrightarrow> wf f \<Longrightarrow> strict_prefix p (enc f) \<Longrightarrow> unframe dec (wire enc fs @ p) = (fs, p)"
  by (simp add: unframe_wire_append unframe_partial)

lemma unframe_wire_nonempty:
  assumes "list_all wf fs" and "fs \<noteq> []"
  shows "unframe dec (wire enc fs) = (fs, [])"
proof -
  have "strict_prefix [] (enc (hd fs))"
    using enc_nonempty [of "hd fs"] by (auto simp: strict_prefix_def)
  moreover have "wf (hd fs)"
    using assms by (cases fs) simp_all
  ultimately show ?thesis
    using unframe_wire_partial [OF assms(1), of "hd fs" "[]"] by simp
qed

text \<open>The first bytes of a stream of packets parse into its first packets.\<close>

lemma unframe_prefix:
  "list_all wf fs \<Longrightarrow> prefix bs (wire enc fs) \<Longrightarrow> \<exists>n p. unframe dec bs = (take n fs, p) \<and> bs = wire enc (take n fs) @ p"
proof (induction fs arbitrary: bs)
  case Nil
  then show ?case by (simp add: unframe.simps split: option.split)
next
  case (Cons f fs)
  from Cons.prems(2) consider "strict_prefix bs (enc f)" | bs' where "bs = enc f @ bs'" "prefix bs' (wire enc fs)"
    by (cases "bs = enc f") (fastforce simp: prefix_append strict_prefix_def)+
  then show ?case
  proof cases
    case 1
    with Cons.prems(1) have "unframe dec bs = ([], bs)" by (auto intro: unframe_partial)
    then show ?thesis by (intro exI [of _ 0] exI [of _ bs]) simp
  next
    case 2
    with Cons obtain n p where "unframe dec bs' = (take n fs, p)" "bs' = wire enc (take n fs) @ p" by force
    with 2 Cons.prems(1) show ?thesis
      by (intro exI [of _ "Suc n"] exI [of _ p]) (simp add: unframe_enc)
  qed
qed

lemma enc_inject: "wf f \<Longrightarrow> wf g \<Longrightarrow> enc f @ r = enc g @ s \<Longrightarrow> f = g \<and> r = s"
  by (metis dec_enc option.inject prod.inject)

lemma wire_inject:
  "list_all wf fs \<Longrightarrow> list_all wf gs \<Longrightarrow> wire enc fs = wire enc gs \<Longrightarrow> fs = gs"
proof (induction fs arbitrary: gs)
  case Nil
  then show ?case using enc_nonempty by (cases gs) simp_all
next
  case (Cons f fs)
  then obtain g gs' where gs: "gs = g # gs'"
    using enc_nonempty by (cases gs) simp_all
  with Cons.prems have "f = g \<and> wire enc fs = wire enc gs'"
    using enc_inject [of f g] by simp
  with Cons gs show ?case by simp
qed

end

end
