(* ===== verification/TurboFrame.thy ===== *)
theory TurboFrame
  imports ByteOrder Framing
begin

text \<open>
  The TurboNet packet: four bytes of total length, one byte of packet id, one of status, four of
  sequence number, then the body, integers in network byte order.

  The first section translates how the library builds packets (\<open>TurboNetClient::sendPacket\<close>, the
  \<open>respond\<close> callback and the bind response of \<open>TurboNetServer::Session\<close>) and reads header fields.
  The second states the format itself, \<open>encode_frame\<close> and \<open>decode_frame\<close>, and the lemmas connect
  the two: every builder produces the format on every host, and the format is a packet codec in
  the sense of the locale \<open>framing\<close>.
\<close>

section \<open>Packets as the code builds and reads them\<close>

definition toBigEndian :: "endian \<Rightarrow> u32 \<Rightarrow> u32" where
  "toBigEndian h v = htonl h v"

definition fromBigEndian :: "endian \<Rightarrow> bytes \<Rightarrow> u32" where
  "fromBigEndian h b = ntohl h (u32_mem h (take 4 b))"

text \<open>
  The packet of \<open>TurboNetClient::sendPacket\<close>: a vector of \<open>10 + len\<close> zero bytes, filled field by
  field. \<open>totalLen\<close> is a \<open>uint32_t\<close>, the length of the vector is not.
\<close>

definition sendPacket_pkt :: "endian \<Rightarrow> u8 \<Rightarrow> u8 \<Rightarrow> u32 \<Rightarrow> bytes \<Rightarrow> bytes" where
  "sendPacket_pkt h packetId status seq data =
     (let len = length data;
          pkt = replicate (10 + len) 0;
          totalLen = 10 + (of_nat len :: u32);
          beLen = toBigEndian h totalLen;
          pkt = memcpy pkt 0 (mem_u32 h beLen);
          pkt = pkt[4 := packetId];
          pkt = pkt[5 := status];
          beSeq = toBigEndian h seq;
          pkt = memcpy pkt 6 (mem_u32 h beSeq)
      in memcpy pkt 10 data)"

text \<open>The message of the \<open>respond\<close> callback of \<open>Session::onReadBody\<close>.\<close>

definition respond_msg :: "endian \<Rightarrow> u8 \<Rightarrow> u8 \<Rightarrow> u32 \<Rightarrow> bytes \<Rightarrow> bytes" where
  "respond_msg h rpId rpStatus rpSeq rpBody =
     (let tot = (of_nat (10 + length rpBody) :: u32);
          msg = replicate (10 + length rpBody) 0;
          be = htonl h tot;
          msg = memcpy msg 0 (mem_u32 h be);
          msg = msg[4 := rpId];
          msg = msg[5 := rpStatus];
          seqbe = htonl h rpSeq;
          msg = memcpy msg 6 (mem_u32 h seqbe)
      in memcpy msg 10 rpBody)"

text \<open>
  The bind response of \<open>Session::onReadBody\<close>: packet id \<open>0x81\<close>, status 0, the sequence number of
  the request taken from the header buffer, and the fixed server id.
\<close>

definition server_id :: string where
  "server_id = ''test_server''"

definition bind_resp :: "endian \<Rightarrow> bytes \<Rightarrow> bytes" where
  "bind_resp h headerBuf =
     (let id = server_id;
          resp = replicate (10 + length id) 0;
          be = htonl h (of_nat (10 + length id));
          resp = memcpy resp 0 (mem_u32 h be);
          resp = resp[4 := 0x81];
          resp = resp[5 := 0x00];
          seq = ntohl h (u32_mem h (take 4 (drop 6 headerBuf)));
          beSeq = htonl h seq;
          resp = memcpy resp 6 (mem_u32 h beSeq)
      in memcpy resp 10 (bytes_of id))"

text \<open>The header fields as \<open>Session::onReadHeader\<close> and \<open>onReadBody\<close> read them.\<close>

definition hdr_total :: "endian \<Rightarrow> bytes \<Rightarrow> u32" where
  "hdr_total h buf = ntohl h (u32_mem h (take 4 buf))"

definition hdr_seq :: "endian \<Rightarrow> bytes \<Rightarrow> u32" where
  "hdr_seq h buf = ntohl h (u32_mem h (take 4 (drop 6 buf)))"

section \<open>The format\<close>

record frame =
  f_pid :: u8
  f_status :: u8
  f_seq :: u32
  f_body :: bytes

lemma frame_eta [simp]: "\<lparr>f_pid = f_pid f, f_status = f_status f, f_seq = f_seq f, f_body = f_body f\<rparr> = f"
  by (cases f) simp

definition frame_header :: "u32 \<Rightarrow> u8 \<Rightarrow> u8 \<Rightarrow> u32 \<Rightarrow> bytes" where
  "frame_header tot pid st sq = be_bytes tot @ [pid, st] @ be_bytes sq"

definition encode_frame :: "frame \<Rightarrow> bytes" where
  "encode_frame f =
     frame_header (of_nat (10 + length (f_body f))) (f_pid f) (f_status f) (f_seq f) @ f_body f"

text \<open>A frame whose total length fits the 32-bit length field.\<close>

definition wf_frame :: "frame \<Rightarrow> bool" where
  "wf_frame f \<longleftrightarrow> 10 + length (f_body f) < 2 ^ 32"

definition decode_frame :: "bytes \<Rightarrow> (frame \<times> bytes) option" where
  "decode_frame bs =
     (if length bs < 10 then None
      else let n = unat (be_val (take 4 bs)) in
        if n < 10 \<or> length bs < n then None
        else Some (\<lparr>f_pid = bs ! 4, f_status = bs ! 5, f_seq = be_val (take 4 (drop 6 bs)),
                    f_body = take (n - 10) (drop 10 bs)\<rparr>, drop n bs))"

section \<open>Builders and readers agree with the format\<close>

lemma length_frame_header [simp]: "length (frame_header t p s q) = 10"
  by (simp add: frame_header_def)

lemma frame_header_fields [simp, codec_simps]:
  "take 4 (frame_header t p s q @ r) = be_bytes t"
  "(frame_header t p s q @ r) ! 4 = p"
  "(frame_header t p s q @ r) ! 5 = s"
  "take 4 (drop 6 (frame_header t p s q @ r)) = be_bytes q"
  "take 4 (frame_header t p s q) = be_bytes t"
  "frame_header t p s q ! 4 = p"
  "frame_header t p s q ! 5 = s"
  "take 4 (drop 6 (frame_header t p s q)) = be_bytes q"
  by (simp_all add: frame_header_def nth_append)

text \<open>
  Filling a zeroed vector field by field, as all three builders do, gives header and body.
\<close>

lemma fill_packet:
  assumes "length l = 4" and "length q = 4"
  shows "memcpy (memcpy ((memcpy (replicate (10 + length d) 0) 0 l)[4 := p, 5 := s]) 6 q) 10 d
         = l @ [p, s] @ q @ d"
proof -
  let ?z = "replicate :: nat \<Rightarrow> u8 \<Rightarrow> bytes"
  have zeros: "?z (10 + length d) 0 = ?z 4 0 @ [0, 0] @ ?z 4 0 @ ?z (length d) 0"
    by (simp add: replicate_add numeral_eq_Suc)
  have "memcpy (?z (10 + length d) 0) 0 l = l @ [0, 0] @ ?z 4 0 @ ?z (length d) 0"
    unfolding zeros using assms(1) by (simp add: memcpy_def)
  then have "(memcpy (?z (10 + length d) 0) 0 l)[4 := p, 5 := s]
      = (l @ [p, s]) @ ?z 4 0 @ ?z (length d) 0"
    using assms(1) by (simp add: list_update_append)
  then have "memcpy ((memcpy (?z (10 + length d) 0) 0 l)[4 := p, 5 := s]) 6 q
      = (l @ [p, s] @ q) @ ?z (length d) 0 @ []"
    using assms by (subst \<open>_ = (l @ [p, s]) @ _\<close>, subst memcpy_append) simp_all
  then show ?thesis
    using assms by (subst \<open>_ = (l @ [p, s] @ q) @ _\<close>, subst memcpy_append) simp_all
qed

lemma sendPacket_pkt_frame [codec_simps]:
  "sendPacket_pkt h p s q d = encode_frame \<lparr>f_pid = p, f_status = s, f_seq = q, f_body = d\<rparr>"
  by (simp add: sendPacket_pkt_def toBigEndian_def Let_def fill_packet
      encode_frame_def frame_header_def)

lemma respond_msg_frame [codec_simps]:
  "respond_msg h p s q d = encode_frame \<lparr>f_pid = p, f_status = s, f_seq = q, f_body = d\<rparr>"
  by (simp add: respond_msg_def Let_def fill_packet encode_frame_def frame_header_def)

lemma bind_resp_frame [codec_simps]:
  "length buf = 10 \<Longrightarrow> bind_resp h buf =
     encode_frame \<lparr>f_pid = 0x81, f_status = 0, f_seq = hdr_seq h buf, f_body = bytes_of server_id\<rparr>"
  using fill_packet [of _ _ "bytes_of server_id"]
  by (simp add: bind_resp_def Let_def encode_frame_def frame_header_def hdr_seq_def)

lemma hdr_frame [simp, codec_simps]:
  "hdr_total h (frame_header t p s q) = t" "hdr_seq h (frame_header t p s q) = q"
  "fromBigEndian h (frame_header t p s q) = t"
  "fromBigEndian h (drop 6 (frame_header t p s q)) = q"
  by (simp_all add: hdr_total_def hdr_seq_def fromBigEndian_def)

lemma length_encode_frame [simp]: "length (encode_frame f) = 10 + length (f_body f)"
  by (simp add: encode_frame_def)

lemma wf_frame_total:
  assumes "wf_frame f"
  shows "unat (10 + of_nat (length (f_body f)) :: u32) = 10 + length (f_body f)"
proof -
  have "unat (of_nat (10 + length (f_body f)) :: u32) = 10 + length (f_body f)"
    using assms by (simp only: wf_frame_def unat_of_nat) simp
  then show ?thesis by simp
qed

lemma wf_frame_body:
  "wf_frame f \<Longrightarrow> unat (of_nat (10 + length (f_body f)) - 10 :: u32) = length (f_body f)"
  by (simp add: wf_frame_def unat_of_nat)

section \<open>The format is a packet codec\<close>

lemma decode_encode_frame: "wf_frame f \<Longrightarrow> decode_frame (encode_frame f @ rest) = Some (f, rest)"
  by (simp add: decode_frame_def encode_frame_def wf_frame_total Let_def)

lemma decode_frame_partial:
  assumes "wf_frame f" and "strict_prefix p (encode_frame f)"
  shows "decode_frame p = None"
proof (cases "length p < 10")
  case True
  then show ?thesis by (simp add: decode_frame_def)
next
  case False
  from assms(2) obtain r where r: "encode_frame f = p @ r" and short: "length p < length (encode_frame f)"
    by (auto simp: strict_prefix_def prefix_def)
  have "take 4 p = take 4 (encode_frame f)"
    using False by (simp add: r)
  also have "\<dots> = be_bytes (of_nat (10 + length (f_body f)))"
    by (simp add: encode_frame_def)
  finally have "unat (be_val (take 4 p)) = length (encode_frame f)"
    using wf_frame_total [OF assms(1)] by simp
  with short show ?thesis by (simp add: decode_frame_def Let_def)
qed

interpretation turbo: framing encode_frame decode_frame wf_frame
proof unfold_locales
  show "encode_frame f \<noteq> []" for f
    using length_encode_frame [of f] by fastforce
qed (simp_all add: decode_encode_frame decode_frame_partial)

section \<open>Header and body\<close>

text \<open>A packet as receivers read it: ten bytes of header, then a body of the length the header tells.\<close>

definition header_of :: "frame \<Rightarrow> bytes" where
  "header_of f = frame_header (of_nat (10 + length (f_body f))) (f_pid f) (f_status f) (f_seq f)"

lemma encode_frame_header: "encode_frame f = header_of f @ f_body f"
  by (simp add: encode_frame_def header_of_def)

lemma length_header_of [simp]: "length (header_of f) = 10"
  by (simp add: header_of_def)

lemma header_of_eqD:
  assumes "header_of f = header_of g" and "wf_frame f" and "wf_frame g"
  shows "f_pid f = f_pid g" "f_status f = f_status g" "f_seq f = f_seq g" "length (f_body f) = length (f_body g)"
proof -
  show "f_pid f = f_pid g" "f_status f = f_status g"
    using arg_cong [OF assms(1), of "\<lambda>b. b ! 4"] arg_cong [OF assms(1), of "\<lambda>b. b ! 5"]
    by (simp_all add: header_of_def del: of_nat_add)
  show "f_seq f = f_seq g"
    using arg_cong [OF assms(1), of "hdr_seq LittleEndian"] by (simp add: header_of_def del: of_nat_add)
  have "of_nat (10 + length (f_body f)) = (of_nat (10 + length (f_body g)) :: u32)"
    using arg_cong [OF assms(1), of "hdr_total LittleEndian"] by (simp add: header_of_def del: of_nat_add)
  from arg_cong [OF this, of "\<lambda>w. unat (w - 10)"] show "length (f_body f) = length (f_body g)"
    using assms(2,3) by (simp only: wf_frame_body)
qed

lemma prefix_10_header:
  "length d = 10 \<Longrightarrow> prefix d (encode_frame f @ rest) \<Longrightarrow> d = header_of f"
  by (auto simp: encode_frame_header prefix_def dest: arg_cong [where f = "take 10"])

lemma prefix_short_header:
  "length d \<le> 10 \<Longrightarrow> prefix d (encode_frame f @ rest) \<Longrightarrow> prefix d (encode_frame f)"
  by (auto simp: prefix_append)

lemma prefix_header_body:
  assumes "prefix (header_of f @ d) (encode_frame f @ rest)" and "length d \<le> length (f_body f)"
  shows "prefix d (f_body f)"
  using assms by (auto simp: encode_frame_header prefix_append)

end
