(* ===== verification/ResponseTimers.thy ===== *)
theory ResponseTimers
  imports Prelude "HOL-Library.Multiset"
begin

text \<open>
  Response timeouts of \<open>TurboNetClient\<close>: the map \<open>responseMap_\<close> from the sequence numbers of
  unanswered requests to their deadlines and the priority queue \<open>responseQueue_\<close> that finds the
  next deadline. \<open>rt_insert\<close> is the critical section of \<open>startResponseTimer\<close>, \<open>rt_cancel\<close> is
  \<open>cancelResponseTimer\<close>, \<open>rt_sweep\<close> the loop of \<open>checkAndFireResponseTimers\<close>.

  The queue is used through the locale \<open>min_queue\<close>, the documented contract of
  \<open>std::priority_queue\<close> with \<open>std::greater\<close>.
\<close>

section \<open>The queue\<close>

datatype response_entry = ResponseEntry (re_sequence: u32) (re_expiry: time)

text \<open>\<open>operator>\<close> compares deadlines only.\<close>

instantiation response_entry :: preorder
begin

definition less_eq_response_entry :: "response_entry \<Rightarrow> response_entry \<Rightarrow> bool" where
  "less_eq_response_entry a b \<longleftrightarrow> re_expiry a \<le> re_expiry b"

definition less_response_entry :: "response_entry \<Rightarrow> response_entry \<Rightarrow> bool" where
  "less_response_entry a b \<longleftrightarrow> re_expiry a < re_expiry b"

instance
  by standard (auto simp: less_eq_response_entry_def less_response_entry_def)

end

locale min_queue =
  fixes push :: "response_entry \<Rightarrow> 'q \<Rightarrow> 'q"
    and top :: "'q \<Rightarrow> response_entry option"
    and pop :: "'q \<Rightarrow> 'q"
    and entries :: "'q \<Rightarrow> response_entry multiset"
    and inv :: "'q \<Rightarrow> bool"
  assumes entries_push: "inv q \<Longrightarrow> entries (push e q) = add_mset e (entries q)"
    and top_None: "inv q \<Longrightarrow> top q = None \<longleftrightarrow> entries q = {#}"
    and top_in: "inv q \<Longrightarrow> top q = Some e \<Longrightarrow> e \<in># entries q"
    and top_least: "inv q \<Longrightarrow> top q = Some e \<Longrightarrow> x \<in># entries q \<Longrightarrow> e \<le> x"
    and entries_pop: "inv q \<Longrightarrow> top q = Some e \<Longrightarrow> entries (pop q) = entries q - {#e#}"
    and inv_push: "inv q \<Longrightarrow> inv (push e q)"
    and inv_pop: "inv q \<Longrightarrow> inv (pop q)"
begin

text \<open>If the earliest deadline is not due, no deadline is.\<close>

lemma none_due:
  assumes "inv q" and "\<And>e. top q = Some e \<Longrightarrow> now < re_expiry e" and "x \<in># entries q"
  shows "now < re_expiry x"
proof (cases "top q")
  case None
  with assms show ?thesis by (simp add: top_None)
next
  case (Some e)
  then have "e \<le> x" using assms top_least by blast
  with assms(2) [OF Some] show ?thesis by (simp add: less_eq_response_entry_def)
qed

end

text \<open>The queue as the list of its entries in order of their deadlines.\<close>

type_synonym pqueue = "response_entry list"

definition pq_push :: "response_entry \<Rightarrow> pqueue \<Rightarrow> pqueue" where
  "pq_push e q = insort_key re_expiry e q"

fun pq_top :: "pqueue \<Rightarrow> response_entry option" where
  "pq_top [] = None"
| "pq_top (e # q) = Some e"

fun pq_pop :: "pqueue \<Rightarrow> pqueue" where
  "pq_pop [] = []"
| "pq_pop (e # q) = q"

definition pq_inv :: "pqueue \<Rightarrow> bool" where
  "pq_inv q \<longleftrightarrow> sorted (map re_expiry q)"

interpretation pq: min_queue pq_push pq_top pq_pop mset pq_inv
proof unfold_locales
  fix q e x
  show "mset (pq_push e q) = add_mset e (mset q)"
    by (simp add: pq_push_def)
  show "pq_top q = None \<longleftrightarrow> mset q = {#}"
    by (cases q) simp_all
  show "pq_top q = Some e \<Longrightarrow> e \<in># mset q"
    by (cases q) simp_all
  show "pq_inv q \<Longrightarrow> pq_top q = Some e \<Longrightarrow> x \<in># mset q \<Longrightarrow> e \<le> x"
    by (cases q) (auto simp: pq_inv_def less_eq_response_entry_def)
  show "pq_top q = Some e \<Longrightarrow> mset (pq_pop q) = mset q - {#e#}"
    by (cases q) simp_all
  show "pq_inv q \<Longrightarrow> pq_inv (pq_push e q)"
    by (simp add: pq_inv_def pq_push_def sorted_insort_key)
  show "pq_inv q \<Longrightarrow> pq_inv (pq_pop q)"
    by (cases q) (simp_all add: pq_inv_def)
qed

section \<open>The table of unanswered requests\<close>

record rt_table =
  rt_queue :: pqueue
  rt_map :: "(u32, time) umap"

definition rt_empty :: rt_table where
  "rt_empty = \<lparr>rt_queue = [], rt_map = []\<rparr>"

definition rt_insert :: "u32 \<Rightarrow> time \<Rightarrow> rt_table \<Rightarrow> rt_table" where
  "rt_insert sequence expiry t =
     t\<lparr>rt_map := AList.update sequence expiry (rt_map t),
       rt_queue := pq_push (ResponseEntry sequence expiry) (rt_queue t)\<rparr>"

definition rt_cancel :: "u32 \<Rightarrow> rt_table \<Rightarrow> rt_table" where
  "rt_cancel sequence t = t\<lparr>rt_map := AList.delete sequence (rt_map t)\<rparr>"

text \<open>
  The loop: while the earliest entry is due, pop it; if the map still has its sequence number,
  erase it there and record it as expired.
\<close>

function rt_loop :: "time \<Rightarrow> pqueue \<Rightarrow> (u32, time) umap \<Rightarrow> u32 list \<Rightarrow> pqueue \<times> (u32, time) umap \<times> u32 list" where
  "rt_loop now q m expired =
     (case pq_top q of
        None \<Rightarrow> (q, m, expired)
      | Some e \<Rightarrow>
          if re_expiry e \<le> now
          then let s = re_sequence e in
               rt_loop now (pq_pop q) (AList.delete s m)
                 (if map_of m s \<noteq> None then expired @ [s] else expired)
          else (q, m, expired))"
  by pat_completeness auto
termination
proof (relation "measure (\<lambda>(now, q, m, expired). length q)")
  fix now q m expired e s
  assume "pq_top q = Some e"
  then show "((now, pq_pop q, AList.delete s m,
      if map_of m s \<noteq> None then expired @ [s] else expired), now, q, m, expired)
      \<in> measure (\<lambda>(now, q, m, expired). length q)"
    by (cases q) simp_all
qed simp

declare rt_loop.simps [simp del]

definition rt_sweep :: "time \<Rightarrow> rt_table \<Rightarrow> rt_table \<times> u32 list" where
  "rt_sweep now t =
     (let (q, m, expired) = rt_loop now (rt_queue t) (rt_map t) []
      in (t\<lparr>rt_queue := q, rt_map := m\<rparr>, expired))"

text \<open>
  The invariant: the containers are well formed and every unanswered request is still queued
  under its deadline, so that a sweep at or after the deadline finds it.
\<close>

definition rt_inv :: "rt_table \<Rightarrow> bool" where
  "rt_inv t \<longleftrightarrow> pq_inv (rt_queue t) \<and> umap_inv (rt_map t) \<and>
     (\<forall>s d. map_of (rt_map t) s = Some d \<longrightarrow> ResponseEntry s d \<in> set (rt_queue t))"

text \<open>No sequence number is queued twice: it has not been reused while its entry was queued.\<close>

definition rt_fresh :: "rt_table \<Rightarrow> bool" where
  "rt_fresh t \<longleftrightarrow> distinct (map re_sequence (rt_queue t))"

section \<open>What the operations do\<close>

lemma map_of_rt_insert [simp]: "map_of (rt_map (rt_insert s d t)) = (map_of (rt_map t))(s \<mapsto> d)"
  by (simp add: rt_insert_def update_conv')

lemma set_rt_queue_insert [simp]:
  "set (rt_queue (rt_insert s d t)) = insert (ResponseEntry s d) (set (rt_queue t))"
  by (simp add: rt_insert_def pq_push_def set_insort_key)

lemma rt_inv_empty: "rt_inv rt_empty"
  by (simp add: rt_inv_def rt_empty_def pq_inv_def umap_inv_def)

lemma rt_inv_insert: "rt_inv t \<Longrightarrow> rt_inv (rt_insert s d t)"
  using pq.inv_push [of "rt_queue t" "ResponseEntry s d"]
  by (auto simp: rt_inv_def umap.inv_put rt_insert_def pq_push_def set_insort_key update_conv')

lemma rt_inv_cancel: "rt_inv t \<Longrightarrow> rt_inv (rt_cancel s t)"
  by (auto simp: rt_inv_def rt_cancel_def umap.inv_del delete_conv' split: if_splits)

lemma rt_cancel_insert:
  "rt_inv t \<Longrightarrow> map_of (rt_map t) s = None \<Longrightarrow>
     map_of (rt_map (rt_cancel s (rt_insert s d t))) = map_of (rt_map t)"
  by (auto simp: rt_cancel_def delete_conv' fun_upd_idem)

text \<open>On the sorted list, the loop pops exactly the due entries.\<close>

fun rt_fire :: "response_entry list \<Rightarrow> (u32, time) umap \<Rightarrow> (u32, time) umap \<times> u32 list" where
  "rt_fire [] m = (m, [])"
| "rt_fire (e # es) m =
     (let s = re_sequence e; (m', ss) = rt_fire es (AList.delete s m)
      in (m', if map_of m s \<noteq> None then s # ss else ss))"

lemma rt_loop_fire:
  "rt_loop now q m ex =
     (dropWhile (\<lambda>e. re_expiry e \<le> now) q,
      fst (rt_fire (takeWhile (\<lambda>e. re_expiry e \<le> now) q) m),
      ex @ snd (rt_fire (takeWhile (\<lambda>e. re_expiry e \<le> now) q) m))"
proof (induction q arbitrary: m ex)
  case Nil
  show ?case by (subst rt_loop.simps) simp
next
  case (Cons e q)
  show ?case by (subst rt_loop.simps) (simp add: Cons.IH Let_def case_prod_beta)
qed

lemma rt_fire_map: "map_of (fst (rt_fire es m)) = map_of m |` (- re_sequence ` set es)"
proof (induction es arbitrary: m)
  case Nil
  show ?case by (simp add: restrict_map_def)
next
  case (Cons e es)
  have "fst (rt_fire (e # es) m) = fst (rt_fire es (AList.delete (re_sequence e) m))"
    by (simp add: Let_def case_prod_beta)
  then show ?case
    by (simp only: Cons.IH delete_conv' restrict_upd_None list.set image_insert)
qed

lemma rt_fire_umap_inv: "umap_inv m \<Longrightarrow> umap_inv (fst (rt_fire es m))"
  by (induction es arbitrary: m) (simp_all add: Let_def case_prod_beta umap.inv_del)

lemma set_rt_fire: "set (snd (rt_fire es m)) = re_sequence ` set es \<inter> dom (map_of m)"
  by (induction es arbitrary: m) (auto simp: Let_def case_prod_beta delete_conv' split: if_splits)

lemma distinct_rt_fire: "distinct (snd (rt_fire es m))"
  by (induction es arbitrary: m) (auto simp: Let_def case_prod_beta set_rt_fire delete_conv')

text \<open>The entries due at \<open>now\<close>.\<close>

definition rt_due :: "time \<Rightarrow> rt_table \<Rightarrow> response_entry set" where
  "rt_due now t = {e \<in> set (rt_queue t). re_expiry e \<le> now}"

lemma set_takeWhile_due:
  "pq_inv q \<Longrightarrow> set (takeWhile (\<lambda>e. re_expiry e \<le> now) q) = {e \<in> set q. re_expiry e \<le> now}"
  by (induction q) (auto simp: pq_inv_def)

lemma set_dropWhile_due:
  "pq_inv q \<Longrightarrow> set (dropWhile (\<lambda>e. re_expiry e \<le> now) q) = {e \<in> set q. now < re_expiry e}"
  by (induction q) (auto simp: pq_inv_def)

lemma rt_sweep_eq:
  "rt_sweep now t =
     (let due = takeWhile (\<lambda>e. re_expiry e \<le> now) (rt_queue t) in
      (t\<lparr>rt_queue := dropWhile (\<lambda>e. re_expiry e \<le> now) (rt_queue t),
         rt_map := fst (rt_fire due (rt_map t))\<rparr>, snd (rt_fire due (rt_map t))))"
  by (simp add: rt_sweep_def rt_loop_fire Let_def case_prod_beta)

lemma rt_sweep_fields:
  assumes "rt_inv t"
  shows rt_sweep_map: "map_of (rt_map (fst (rt_sweep now t))) = map_of (rt_map t) |` (- re_sequence ` rt_due now t)"
    and rt_sweep_queue: "set (rt_queue (fst (rt_sweep now t))) = {e \<in> set (rt_queue t). now < re_expiry e}"
    and rt_sweep_expired: "set (snd (rt_sweep now t)) = re_sequence ` rt_due now t \<inter> dom (map_of (rt_map t))"
    and rt_sweep_distinct: "distinct (snd (rt_sweep now t))"
  using assms
  by (simp_all add: rt_sweep_eq rt_inv_def rt_due_def Let_def rt_fire_map set_takeWhile_due
      set_dropWhile_due set_rt_fire distinct_rt_fire)

lemma pq_inv_dropWhile: "pq_inv q \<Longrightarrow> pq_inv (dropWhile P q)"
  by (induction q) (simp_all add: pq_inv_def)

lemma rt_inv_sweep:
  assumes "rt_inv t"
  shows "rt_inv (fst (rt_sweep now t))"
proof -
  have "pq_inv (rt_queue (fst (rt_sweep now t)))" "umap_inv (rt_map (fst (rt_sweep now t)))"
    using assms by (simp_all add: rt_sweep_eq rt_inv_def Let_def pq_inv_dropWhile rt_fire_umap_inv)
  moreover have "ResponseEntry s d \<in> set (rt_queue (fst (rt_sweep now t)))"
    if "map_of (rt_map (fst (rt_sweep now t))) s = Some d" for s d
  proof -
    from that assms have "map_of (rt_map t) s = Some d" and "s \<notin> re_sequence ` rt_due now t"
      by (auto simp: rt_sweep_map restrict_map_def split: if_splits)
    with assms show ?thesis
      by (force simp: rt_sweep_queue rt_inv_def rt_due_def)
  qed
  ultimately show ?thesis by (simp add: rt_inv_def)
qed

text \<open>
  With no sequence number queued twice, the due entries are exactly the requests whose deadline
  has passed, together with entries of requests that were cancelled.
\<close>

lemma rt_due_fresh:
  assumes "rt_inv t" and "rt_fresh t" and "map_of (rt_map t) s = Some d"
  shows "s \<in> re_sequence ` rt_due now t \<longleftrightarrow> d \<le> now"
proof
  assume "s \<in> re_sequence ` rt_due now t"
  then obtain e where e: "e \<in> set (rt_queue t)" "re_expiry e \<le> now" "re_sequence e = s"
    by (auto simp: rt_due_def)
  have "ResponseEntry s d \<in> set (rt_queue t)"
    using assms by (simp add: rt_inv_def)
  with e assms(2) have "e = ResponseEntry s d"
    unfolding rt_fresh_def distinct_map by (metis inj_onD response_entry.sel(1))
  with e show "d \<le> now" by simp
next
  assume "d \<le> now"
  with assms(1,3) show "s \<in> re_sequence ` rt_due now t"
    by (force simp: rt_inv_def rt_due_def)
qed

lemma rt_fresh_sweep: "rt_fresh t \<Longrightarrow> rt_fresh (fst (rt_sweep now t))"
proof -
  assume "rt_fresh t"
  moreover have "distinct (map f (dropWhile P xs))" if "distinct (map f xs)" for f :: "response_entry \<Rightarrow> u32" and P xs
    using that by (induction xs) auto
  ultimately show ?thesis by (simp add: rt_fresh_def rt_sweep_eq Let_def)
qed

lemma rt_fresh_insert:
  "rt_fresh t \<Longrightarrow> s \<notin> re_sequence ` set (rt_queue t) \<Longrightarrow> rt_fresh (rt_insert s d t)"
  unfolding rt_fresh_def rt_insert_def pq_push_def
  by (force simp: distinct_map distinct_insort set_insort_key inj_on_def)

lemma rt_fresh_cancel [simp]: "rt_fresh (rt_cancel s t) = rt_fresh t"
  by (simp add: rt_fresh_def rt_cancel_def)

end
