(* ===== verification/Reader.thy ===== *)
theory Reader
  imports Framing
begin

text \<open>
  Receivers. A receiver asks for a number of bytes at a time (a header, then a body) and reacts
  when they have arrived. \<open>feed k\<close> runs up to \<open>k\<close> read completions against a byte stream, each
  taking exactly the bytes asked for; it stops early when the receiver asks for nothing or the
  stream is too short.

  The locale \<open>framed_reader\<close> is the simulation between a receiver and a specification that
  consumes whole packets: if a receiver that is idle (between two packets) handles one packet as
  the specification does and is idle again, then it handles every sequence of packets as the
  specification does, and leaves the bytes after them alone.
\<close>

fun feed :: "('s \<Rightarrow> nat option) \<Rightarrow> ('s \<Rightarrow> bytes \<Rightarrow> 's \<times> 'o list) \<Rightarrow> nat \<Rightarrow> 's \<Rightarrow> bytes \<Rightarrow> 's \<times> 'o list \<times> bytes" where
  "feed want deliver 0 s bs = (s, [], bs)"
| "feed want deliver (Suc k) s bs =
     (case want s of
        None \<Rightarrow> (s, [], bs)
      | Some n \<Rightarrow>
          if length bs < n then (s, [], bs)
          else let (s1, o1) = deliver s (take n bs);
                   (s2, o2, left) = feed want deliver k s1 (drop n bs)
               in (s2, o1 @ o2, left))"

lemma feed_add:
  "feed want deliver (m + k) s bs =
     (let (s1, o1, l1) = feed want deliver m s bs;
          (s2, o2, l2) = feed want deliver k s1 l1
      in (s2, o1 @ o2, l2))"
proof (induction m arbitrary: s bs)
  case 0
  show ?case by (simp add: case_prod_beta)
next
  case (Suc m)
  have stuck: "feed want deliver k s bs = (s, [], bs)"
    if "want s = None \<or> (\<exists>n. want s = Some n \<and> length bs < n)" for k
    using that by (cases k) auto
  show ?case
  proof (cases "want s")
    case None
    with stuck [of k] show ?thesis by simp
  next
    case (Some n)
    show ?thesis
    proof (cases "length bs < n")
      case True
      with Some stuck [of k] show ?thesis by simp
    next
      case False
      with Some show ?thesis by (simp add: Suc.IH case_prod_beta Let_def)
    qed
  qed
qed

locale framed_reader =
  fixes want :: "'s \<Rightarrow> nat option"
    and deliver :: "'s \<Rightarrow> bytes \<Rightarrow> 's \<times> 'o list"
    and enc :: "'f \<Rightarrow> bytes"
    and wf :: "'f \<Rightarrow> bool"
    and cost :: "'f \<Rightarrow> nat"
    and idle :: "'s \<Rightarrow> bool"
    and abs :: "'s \<Rightarrow> 'a"
    and vis :: "'o \<Rightarrow> 'v option"
    and spec :: "'a \<Rightarrow> 'f \<Rightarrow> 'a \<times> 'v list"
  assumes one_frame:
    "idle s \<Longrightarrow> wf f \<Longrightarrow> \<exists>s' os. feed want deliver (cost f) s (enc f @ rest) = (s', os, rest)
       \<and> idle s' \<and> (abs s', List.map_filter vis os) = spec (abs s) f"
begin

lemma many_frames:
  "idle s \<Longrightarrow> list_all wf fs \<Longrightarrow>
     \<exists>s' os. feed want deliver (sum_list (map cost fs)) s (wire enc fs @ rest) = (s', os, rest)
       \<and> idle s' \<and> (abs s', List.map_filter vis os) = run spec (abs s) fs"
proof (induction fs arbitrary: s)
  case Nil
  then show ?case by simp
next
  case (Cons f fs)
  then obtain s1 o1 where
    1: "feed want deliver (cost f) s (enc f @ wire enc fs @ rest) = (s1, o1, wire enc fs @ rest)"
      "idle s1" "(abs s1, List.map_filter vis o1) = spec (abs s) f"
    using one_frame [of s f "wire enc fs @ rest"] by auto
  from Cons 1(2) obtain s2 o2 where
    2: "feed want deliver (sum_list (map cost fs)) s1 (wire enc fs @ rest) = (s2, o2, rest)"
      "idle s2" "(abs s2, List.map_filter vis o2) = run spec (abs s1) fs"
    by (auto dest: Cons.IH)
  have "run spec (abs s) (f # fs) = (abs s2, List.map_filter vis (o1 @ o2))"
    unfolding run.simps(2) 1(3) [symmetric] by (simp add: 2(3) [symmetric] List.map_filter_def)
  with 1 2 show ?case by (simp add: feed_add)
qed

end

section \<open>Receivers among other events\<close>

text \<open>
  \<open>feed\<close> delivers reads one after the other. In a program their completions come among other
  events: timers, writes, calls of the user, other connections. \<open>got e\<close> is what a completion
  \<open>e\<close> has transferred, nothing for other events, and \<open>received es\<close> the bytes of a run.
\<close>

definition received :: "('e \<Rightarrow> bytes) \<Rightarrow> 'e list \<Rightarrow> bytes" where
  "received got es = concat (map got es)"

lemma received_simps [simp]:
  "received got [] = []" "received got (e # es) = got e @ received got es"
  "received got (es @ es') = received got es @ received got es'"
  by (simp_all add: received_def)

text \<open>
  Some of the other events are of interest to the specification too: a request that is sent, a timer
  that fires. They come as \<open>Inr\<close>, packets as \<open>Inl\<close>, and a run of the specification is over some
  interleaving of the packets and of these events, each in their order.

  What a receiver has done of the packets \<open>fs\<close> when it has got the bytes \<open>bs\<close> and seen the
  events \<open>xs\<close>: it has handled the events and the first \<open>n\<close> packets as the specification does, and it has
  no other bytes but these packets' and perhaps some of the next packet, none of it while it waits
  \<open>between\<close> packets.
\<close>

definition handled_among :: "('f \<Rightarrow> bytes) \<Rightarrow> ('a \<Rightarrow> 'f + 'x \<Rightarrow> 'a \<times> 'v list) \<Rightarrow> 'a \<Rightarrow> 'f list \<Rightarrow> 'x list
    \<Rightarrow> bytes \<Rightarrow> bool \<Rightarrow> 'a \<times> 'v list \<Rightarrow> nat \<Rightarrow> bool" where
  "handled_among enc spec a fs xs bs between r n \<longleftrightarrow> n \<le> length fs \<and> prefix (wire enc (take n fs)) bs
     \<and> prefix bs (wire enc (take (Suc n) fs)) \<and> (between \<longrightarrow> bs = wire enc (take n fs))
     \<and> (\<exists>zs \<in> shuffles (map Inl (take n fs)) (map Inr xs). r = run spec a zs)"

lemma run_prepend:
  "run step s es = (s', os) \<Longrightarrow> run step s (es @ es') = (fst (run step s' es'), os @ snd (run step s' es'))"
  by (simp add: run_append case_prod_beta)

lemma append_in_shuffles_right: "zs \<in> shuffles xs ys \<Longrightarrow> us @ zs \<in> shuffles xs (us @ ys)"
  by (induction us) (simp_all add: Cons_in_shuffles_rightI)

lemma among_events:
  assumes "handled_among enc spec a' fs xs bs between r n" and "(a', vs) = run spec a (map Inr us)"
  shows "handled_among enc spec a fs (us @ xs) bs between (fst r, vs @ snd r) n"
proof -
  from assms(1) obtain zs where zs: "zs \<in> shuffles (map Inl (take n fs)) (map Inr xs)" "r = run spec a' zs"
    by (auto simp: handled_among_def)
  then have "map Inr us @ zs \<in> shuffles (map Inl (take n fs)) (map Inr (us @ xs))"
    "run spec a (map Inr us @ zs) = (fst r, vs @ snd r)"
    using run_prepend [OF assms(2) [symmetric], of zs] by (simp_all add: append_in_shuffles_right)
  with assms(1) show ?thesis
    by (auto simp: handled_among_def intro!: bexI [of _ "map Inr us @ zs"] simp del: map_append)
qed

lemma among_packet:
  assumes "handled_among enc spec a' fs xs bs between r n" and "(a', vs) = spec a (Inl f)"
  shows "handled_among enc spec a (f # fs) xs (enc f @ bs) between (fst r, vs @ snd r) (Suc n)"
proof -
  from assms(1) obtain zs where zs: "zs \<in> shuffles (map Inl (take n fs)) (map Inr xs)" "r = run spec a' zs"
    by (auto simp: handled_among_def)
  then have "Inl f # zs \<in> shuffles (map Inl (take (Suc n) (f # fs))) (map Inr xs)"
    by (simp add: Cons_in_shuffles_leftI)
  moreover have "run spec a (Inl f # zs) = (fst r, vs @ snd r)"
    using zs(2) assms(2) [symmetric] by (simp add: prod_eq_iff)
  ultimately show ?thesis using assms(1)
    by (auto simp: handled_among_def intro!: bexI [of _ "Inl f # zs"])
qed

text \<open>The state of the specification after a run, and the visible effects of the run.\<close>

definition outcome :: "('s \<Rightarrow> 'e \<Rightarrow> 's \<times> 'o list) \<Rightarrow> ('s \<Rightarrow> 'a) \<Rightarrow> ('o \<Rightarrow> 'v option) \<Rightarrow> 's \<Rightarrow> 'e list \<Rightarrow> 'a \<times> 'v list" where
  "outcome step view vis s es = (view (fst (run step s es)), List.map_filter vis (snd (run step s es)))"

lemma outcome_simps [simp]:
  "outcome step view vis s [] = (view s, [])"
  "outcome step view vis s (e # es) = (fst (outcome step view vis (fst (step s e)) es),
     List.map_filter vis (snd (step s e)) @ snd (outcome step view vis (fst (step s e)) es))"
  by (simp_all add: outcome_def List.map_filter_def)

text \<open>
  The contract of such a receiver. \<open>rd s p\<close> says that it is reading and has the bytes \<open>p\<close> of the
  current packet, \<open>stopped s\<close> that it does not read any more, \<open>other e\<close> what an event is for the
  specification. An event either leaves the receiver within the packet, with no effects but those
  the specification gives the event, or completes the packet, which it then handles as the specification
  does.
\<close>

locale event_reader =
  fixes step :: "'s \<Rightarrow> 'e \<Rightarrow> 's \<times> 'o list"
    and ok :: "'s \<Rightarrow> 'e \<Rightarrow> bool"
    and got :: "'e \<Rightarrow> bytes"
    and other :: "'e \<Rightarrow> 'x list"
    and enc :: "'f \<Rightarrow> bytes"
    and wf :: "'f \<Rightarrow> bool"
    and rd :: "'s \<Rightarrow> bytes \<Rightarrow> bool"
    and stopped :: "'s \<Rightarrow> bool"
    and abs :: "'s \<Rightarrow> 'a"
    and vis :: "'o \<Rightarrow> 'v option"
    and spec :: "'a \<Rightarrow> 'f + 'x \<Rightarrow> 'a \<times> 'v list"
  assumes rd_event: "rd s p \<Longrightarrow> ok s e \<Longrightarrow> wf f \<Longrightarrow> prefix p (enc f) \<Longrightarrow> prefix (p @ got e) (enc f @ rest) \<Longrightarrow>
      prefix (p @ got e) (enc f) \<and> (rd (fst (step s e)) (p @ got e) \<or> stopped (fst (step s e)))
        \<and> (abs (fst (step s e)), List.map_filter vis (snd (step s e))) = run spec (abs s) (map Inr (other e))
      \<or> p @ got e = enc f \<and> other e = [] \<and> (rd (fst (step s e)) [] \<or> stopped (fst (step s e)))
        \<and> (abs (fst (step s e)), List.map_filter vis (snd (step s e))) = spec (abs s) (Inl f)"
    and a_packet: "\<exists>f. wf f \<and> enc f \<noteq> []"
    and stopped_event: "stopped s \<Longrightarrow> ok s e \<Longrightarrow> got e = [] \<and> stopped (fst (step s e))
      \<and> (abs (fst (step s e)), List.map_filter vis (snd (step s e))) = run spec (abs s) (map Inr (other e))"
    and reading_not_stopped: "rd s p \<Longrightarrow> \<not> stopped s"
    and reading_unique: "rd s p \<Longrightarrow> rd s q \<Longrightarrow> p = q"
begin

lemma among_stopped:
  "stopped s \<Longrightarrow> allowed ok step s es \<Longrightarrow> prefix p (wire enc (take 1 fs)) \<Longrightarrow>
     handled_among enc spec (abs s) fs (concat (map other es)) (p @ received got es) (rd (fst (run step s es)) []) (outcome step abs vis s es) 0"
proof (induction es arbitrary: s)
  case Nil
  then show ?case using reading_not_stopped by (auto simp: handled_among_def)
next
  case (Cons e es)
  from stopped_event [of s e] Cons.prems have e: "got e = []" "stopped (fst (step s e))"
    "(abs (fst (step s e)), List.map_filter vis (snd (step s e))) = run spec (abs s) (map Inr (other e))" by auto
  with among_events [OF Cons.IH e(3)] Cons.prems show ?case by simp
qed

lemma event_within_none:
  assumes "rd s []" and "ok s e" and "got e = []"
  shows "(rd (fst (step s e)) [] \<or> stopped (fst (step s e)))
    \<and> (abs (fst (step s e)), List.map_filter vis (snd (step s e))) = run spec (abs s) (map Inr (other e))"
proof -
  obtain f where "wf f" "enc f \<noteq> []" using a_packet by blast
  with rd_event [OF assms(1,2), of f] assms(3) show ?thesis by auto
qed

theorem run_among:
  "rd s p \<Longrightarrow> allowed ok step s es \<Longrightarrow> list_all wf fs \<Longrightarrow> prefix p (wire enc (take 1 fs)) \<Longrightarrow>
     prefix (p @ received got es) (wire enc fs) \<Longrightarrow>
     \<exists>n. handled_among enc spec (abs s) fs (concat (map other es)) (p @ received got es) (rd (fst (run step s es)) []) (outcome step abs vis s es) n"
proof (induction es arbitrary: s p fs)
  case Nil
  then have "rd s [] \<longrightarrow> p = []" using reading_unique by blast
  with Nil show ?case by (intro exI [of _ 0]) (simp add: handled_among_def)
next
  case (Cons e es)
  let ?s = "fst (step s e)" and ?o = "List.map_filter vis (snd (step s e))"
  have ok: "ok s e" "allowed ok step ?s es" using Cons.prems(2) by simp_all
  have within: ?case
    if "prefix (p @ got e) (wire enc (take 1 fs))" "rd ?s (p @ got e) \<or> stopped ?s"
      "(abs ?s, ?o) = run spec (abs s) (map Inr (other e))"
  proof -
    from that(1,2) Cons.IH [of ?s "p @ got e" fs] among_stopped [of ?s es "p @ got e" fs] ok(2) Cons.prems(3,5)
    obtain n where "handled_among enc spec (abs ?s) fs (concat (map other es)) ((p @ got e) @ received got es)
        (rd (fst (run step ?s es)) []) (outcome step abs vis ?s es) n" by auto
    from among_events [OF this that(3)] show ?thesis by auto
  qed
  show ?case
  proof (cases fs)
    case Nil
    with Cons.prems have none: "p = []" "got e = []" by auto
    with event_within_none [of s e] Cons.prems(1) ok(1) show ?thesis by (intro within) auto
  next
    case (Cons f fs')
    with Cons.prems have wf: "wf f" "list_all wf fs'" and p: "prefix p (enc f)"
      and all: "prefix (p @ got e @ received got es) (enc f @ wire enc fs')" by auto
    have "prefix (p @ got e) (enc f @ wire enc fs')"
      using all by (metis append.assoc append_prefixD)
    from rd_event [OF Cons.prems(1) ok(1) wf(1) p this] consider
      (part) "prefix (p @ got e) (enc f)" "rd ?s (p @ got e) \<or> stopped ?s"
        "(abs ?s, ?o) = run spec (abs s) (map Inr (other e))"
      | (packet) "p @ got e = enc f" "other e = []" "rd ?s [] \<or> stopped ?s" "(abs ?s, ?o) = spec (abs s) (Inl f)"
      by blast
    then show ?thesis
    proof cases
      case packet
      have "prefix (received got es) (wire enc fs')"
        using all packet(1) by (metis append.assoc same_prefix_prefix)
      with packet(3) Cons.IH [of ?s "[]" fs'] among_stopped [of ?s es "[]" fs'] ok(2) wf(2)
      obtain n where "handled_among enc spec (abs ?s) fs' (concat (map other es)) (received got es)
          (rd (fst (run step ?s es)) []) (outcome step abs vis ?s es) n" by auto
      from among_packet [OF this packet(4)] packet(1) [symmetric] packet(2) show ?thesis by (auto simp: Cons)
    qed (use within Cons in auto)
  qed
qed

end

text \<open>
  A receiver of which the specification only knows packets: it has handled the first \<open>n\<close> of them, as
  it has got all of their bytes.
\<close>

definition handled :: "('f \<Rightarrow> bytes) \<Rightarrow> ('a \<Rightarrow> 'f \<Rightarrow> 'a \<times> 'v list) \<Rightarrow> 'a \<Rightarrow> 'f list \<Rightarrow> bytes \<Rightarrow> bool
    \<Rightarrow> 'a \<times> 'v list \<Rightarrow> nat \<Rightarrow> bool" where
  "handled enc spec a fs bs between r n \<longleftrightarrow> n \<le> length fs \<and> prefix (wire enc (take n fs)) bs
     \<and> prefix bs (wire enc (take (Suc n) fs)) \<and> (between \<longrightarrow> bs = wire enc (take n fs))
     \<and> r = run spec a (take n fs)"

definition packets_only :: "('a \<Rightarrow> 'f \<Rightarrow> 'a \<times> 'v list) \<Rightarrow> 'a \<Rightarrow> 'f + unit \<Rightarrow> 'a \<times> 'v list" where
  "packets_only spec a z = (case z of Inl f \<Rightarrow> spec a f | Inr _ \<Rightarrow> (a, []))"

lemma run_packets_only: "run (packets_only spec) a (map Inl fs) = run spec a fs"
  by (induction fs arbitrary: a) (simp_all add: packets_only_def prod_eq_iff)

lemma handled_among_packets:
  "handled_among enc (packets_only spec) a fs [] bs between r n \<longleftrightarrow> handled enc spec a fs bs between r n"
  by (simp add: handled_among_def handled_def run_packets_only)

lemma concat_nothing: "concat (map (\<lambda>_. []) es) = []"
  by (induction es) simp_all

locale interleaved_reader =
  fixes step :: "'s \<Rightarrow> 'e \<Rightarrow> 's \<times> 'o list"
    and ok :: "'s \<Rightarrow> 'e \<Rightarrow> bool"
    and got :: "'e \<Rightarrow> bytes"
    and enc :: "'f \<Rightarrow> bytes"
    and wf :: "'f \<Rightarrow> bool"
    and rd :: "'s \<Rightarrow> bytes \<Rightarrow> bool"
    and stopped :: "'s \<Rightarrow> bool"
    and abs :: "'s \<Rightarrow> 'a"
    and vis :: "'o \<Rightarrow> 'v option"
    and spec :: "'a \<Rightarrow> 'f \<Rightarrow> 'a \<times> 'v list"
  assumes rd_step: "rd s p \<Longrightarrow> ok s e \<Longrightarrow> wf f \<Longrightarrow> prefix p (enc f) \<Longrightarrow> prefix (p @ got e) (enc f @ rest) \<Longrightarrow>
      prefix (p @ got e) (enc f) \<and> (rd (fst (step s e)) (p @ got e) \<or> stopped (fst (step s e)))
        \<and> abs (fst (step s e)) = abs s \<and> List.map_filter vis (snd (step s e)) = []
      \<or> p @ got e = enc f \<and> (rd (fst (step s e)) [] \<or> stopped (fst (step s e)))
        \<and> (abs (fst (step s e)), List.map_filter vis (snd (step s e))) = spec (abs s) f"
    and some_packet: "\<exists>f. wf f \<and> enc f \<noteq> []"
    and stopped_step: "stopped s \<Longrightarrow> ok s e \<Longrightarrow>
      got e = [] \<and> stopped (fst (step s e)) \<and> abs (fst (step s e)) = abs s
        \<and> List.map_filter vis (snd (step s e)) = []"
    and rd_not_stopped: "rd s p \<Longrightarrow> \<not> stopped s"
    and rd_unique: "rd s p \<Longrightarrow> rd s q \<Longrightarrow> p = q"

sublocale interleaved_reader \<subseteq> among: event_reader step ok got "\<lambda>_. []" enc wf rd stopped abs vis "packets_only spec"
proof unfold_locales
  fix s p e f rest
  assume "rd s p" "ok s e" "wf f" "prefix p (enc f)" "prefix (p @ got e) (enc f @ rest)"
  from rd_step [OF this] show "prefix (p @ got e) (enc f) \<and> (rd (fst (step s e)) (p @ got e) \<or> stopped (fst (step s e)))
        \<and> (abs (fst (step s e)), List.map_filter vis (snd (step s e))) = run (packets_only spec) (abs s) (map Inr [])
      \<or> p @ got e = enc f \<and> [] = [] \<and> (rd (fst (step s e)) [] \<or> stopped (fst (step s e)))
        \<and> (abs (fst (step s e)), List.map_filter vis (snd (step s e))) = packets_only spec (abs s) (Inl f)"
    by (simp add: packets_only_def)
next
  show "rd s p \<Longrightarrow> rd s q \<Longrightarrow> p = q" for s p q by (rule rd_unique)
qed (use some_packet stopped_step rd_not_stopped in auto)

context interleaved_reader
begin

theorem run_handled:
  "rd s p \<Longrightarrow> allowed ok step s es \<Longrightarrow> list_all wf fs \<Longrightarrow> prefix p (wire enc (take 1 fs)) \<Longrightarrow>
     prefix (p @ received got es) (wire enc fs) \<Longrightarrow>
     \<exists>n. handled enc spec (abs s) fs (p @ received got es) (rd (fst (run step s es)) [])
       (abs (fst (run step s es)), List.map_filter vis (snd (run step s es))) n"
  using among.run_among [of s p es fs] by (simp add: handled_among_packets outcome_def concat_nothing)

end

section \<open>Reads that fail\<close>

text \<open>
  A connection on which a read has failed delivers nothing more: every later read fails too and
  transfers nothing. \<open>result e\<close> is the outcome of the read that completes with \<open>e\<close>. Marking the
  state with whether a read has failed turns this condition on a run into one on steps.
\<close>

definition got_of :: "('e \<Rightarrow> (error_code \<times> bytes) option) \<Rightarrow> 'e \<Rightarrow> bytes" where
  "got_of result e = (case result e of None \<Rightarrow> [] | Some (ec, d) \<Rightarrow> d)"

definition failed_read :: "('e \<Rightarrow> (error_code \<times> bytes) option) \<Rightarrow> 'e \<Rightarrow> bool" where
  "failed_read result e = (case result e of None \<Rightarrow> False | Some (ec, d) \<Rightarrow> ec \<noteq> None)"

definition dead_read :: "('e \<Rightarrow> (error_code \<times> bytes) option) \<Rightarrow> 'e \<Rightarrow> bool" where
  "dead_read result e = (case result e of None \<Rightarrow> True | Some (ec, d) \<Rightarrow> ec \<noteq> None \<and> d = [])"

fun fails_for_good :: "('e \<Rightarrow> (error_code \<times> bytes) option) \<Rightarrow> 'e list \<Rightarrow> bool" where
  "fails_for_good result [] = True"
| "fails_for_good result (e # es) =
     (if failed_read result e then list_all (dead_read result) es else fails_for_good result es)"

fun marked :: "('e \<Rightarrow> bool) \<Rightarrow> ('s \<Rightarrow> 'e \<Rightarrow> 's \<times> 'o list) \<Rightarrow> 's \<times> bool \<Rightarrow> 'e \<Rightarrow> ('s \<times> bool) \<times> 'o list" where
  "marked mark step (s, b) e = ((fst (step s e), b \<or> mark e), snd (step s e))"

fun marked_ok :: "('e \<Rightarrow> bool) \<Rightarrow> ('s \<Rightarrow> 'e \<Rightarrow> bool) \<Rightarrow> 's \<times> bool \<Rightarrow> 'e \<Rightarrow> bool" where
  "marked_ok dead ok (s, b) e \<longleftrightarrow> ok s e \<and> (b \<longrightarrow> dead e)"

lemma run_marked:
  "run (marked mark step) (s, b) es = ((fst (run step s es), b \<or> list_ex mark es), snd (run step s es))"
  by (induction es arbitrary: s b) (simp_all add: prod_eq_iff)

lemma allowed_marked_True:
  "allowed (marked_ok dead ok) (marked mark step) (s, True) es \<longleftrightarrow> allowed ok step s es \<and> list_all dead es"
  by (induction es arbitrary: s) auto

lemma allowed_marked:
  "allowed (marked_ok (dead_read result) ok) (marked (failed_read result) step) (s, False) es
     \<longleftrightarrow> allowed ok step s es \<and> fails_for_good result es"
  by (induction es arbitrary: s) (auto simp: allowed_marked_True)

end
