(* ===== verification/TurboClient.thy ===== *)
theory TurboClient
  imports TurboFrame ResponseTimers Reader
begin

text \<open>
  \<open>TurboNetClient\<close> (\<open>turbonet_client.h\<close>, \<open>turbonet_client.cpp\<close>).

  The state is the record \<open>client\<close>: the members of the class, with the work Boost.Asio holds for
  it (the read and the write outstanding on the socket, the closures posted to the strand and
  not run yet) and the bytes the socket has accepted. A method is a \<open>proc\<close>; what it asks of the
  environment (timers, socket, user callbacks) are its effects, in order. A completion of the
  environment is a \<open>client_event\<close> with its outcome, \<open>Client_step\<close> runs the handler for it, and
  \<open>Client_ok\<close> says which completions Boost.Asio may deliver in a state.

  A user callback is given by the calls it makes back into the client. It may read the clock,
  so a request it sends carries its own time. The close callback is only recorded.
\<close>

section \<open>State, effects and events\<close>

datatype api_call =
    ApiSendPacket u8 u8 u32 bytes
  | ApiSendRequest bytes time
  | ApiClose

datatype timer_id = ConnectTimer | ReadTimer | WriteTimer | ResponseSweepTimer

datatype client_effect =
    Resolve string u16
  | ResolveError
  | AsyncConnect
  | StartRead read_op
  | StartWrite bytes
  | Post bytes
  | SocketClose
  | ExpiresAfter timer_id time
  | ExpiresAt timer_id time
  | AsyncWait timer_id
  | CancelTimer timer_id
  | CallConnect error_code
  | CallBind string
  | CallPacket u8 u8 u32 bytes
  | CallTimeout u32
  | CallClose

record client =
  cl_running :: bool
  cl_headerBuf :: bytes
  cl_bodyBuf :: bytes
  cl_txBuffer :: bytes
  cl_onPacket :: "(u8 \<Rightarrow> u8 \<Rightarrow> u32 \<Rightarrow> bytes \<Rightarrow> api_call list) option"
  cl_onTimeout :: "(u32 \<Rightarrow> api_call list) option"
  cl_onBind :: "(string \<Rightarrow> api_call list) option"
  cl_onClose :: bool
  cl_connectHandler :: "(error_code \<Rightarrow> api_call list) option"
  cl_readTimeoutMs :: int
  cl_writeTimeoutMs :: int
  cl_responseTimeoutMs :: int
  cl_sequenceCounter :: u32
  cl_responses :: rt_table
  cl_clientId :: string
  cl_lastPacketId :: u8
  cl_lastStatus :: u8
  cl_lastSequence :: u32
  \<comment> \<open>held by Boost.Asio for the client\<close>
  cl_strand :: "bytes list"
  cl_connecting :: bool
  cl_reading :: "read_op option"
  cl_writing :: "bytes option"
  cl_sent :: bytes

type_synonym client_proc = "(client, client_effect) proc"

text \<open>The constructor.\<close>

definition Client_new :: "int \<Rightarrow> int \<Rightarrow> int \<Rightarrow> client" where
  "Client_new readTimeoutMs writeTimeoutMs responseTimeoutMs =
     \<lparr>cl_running = True, cl_headerBuf = replicate 10 0, cl_bodyBuf = [], cl_txBuffer = [],
      cl_onPacket = None, cl_onTimeout = None, cl_onBind = None, cl_onClose = False,
      cl_connectHandler = None, cl_readTimeoutMs = readTimeoutMs,
      cl_writeTimeoutMs = writeTimeoutMs, cl_responseTimeoutMs = responseTimeoutMs,
      cl_sequenceCounter = 1, cl_responses = rt_empty, cl_clientId = [],
      cl_lastPacketId = 0, cl_lastStatus = 0, cl_lastSequence = 0,
      cl_strand = [], cl_connecting = False, cl_reading = None, cl_writing = None, cl_sent = []\<rparr>"

section \<open>Setters\<close>

definition Client_setClientId :: "string \<Rightarrow> client \<Rightarrow> client" where
  "Client_setClientId clientId c = c\<lparr>cl_clientId := clientId\<rparr>"

definition Client_setBindHandler :: "(string \<Rightarrow> api_call list) option \<Rightarrow> client \<Rightarrow> client" where
  "Client_setBindHandler handler c = c\<lparr>cl_onBind := handler\<rparr>"

definition Client_setPacketHandler ::
  "(u8 \<Rightarrow> u8 \<Rightarrow> u32 \<Rightarrow> bytes \<Rightarrow> api_call list) option \<Rightarrow> client \<Rightarrow> client" where
  "Client_setPacketHandler handler c = c\<lparr>cl_onPacket := handler\<rparr>"

definition Client_setTimeoutHandler :: "(u32 \<Rightarrow> api_call list) option \<Rightarrow> client \<Rightarrow> client" where
  "Client_setTimeoutHandler handler c = c\<lparr>cl_onTimeout := handler\<rparr>"

definition Client_setCloseHandler :: "bool \<Rightarrow> client \<Rightarrow> client" where
  "Client_setCloseHandler handler c = c\<lparr>cl_onClose := handler\<rparr>"

text \<open>A client as an application sets it up before it connects.\<close>

definition Client_configured ::
  "int \<Rightarrow> int \<Rightarrow> int \<Rightarrow> string \<Rightarrow> (string \<Rightarrow> api_call list) option
   \<Rightarrow> (u8 \<Rightarrow> u8 \<Rightarrow> u32 \<Rightarrow> bytes \<Rightarrow> api_call list) option \<Rightarrow> (u32 \<Rightarrow> api_call list) option \<Rightarrow> bool \<Rightarrow> client" where
  "Client_configured r w t cid onBind onPacket onTimeout onClose =
     Client_setCloseHandler onClose (Client_setTimeoutHandler onTimeout
       (Client_setPacketHandler onPacket (Client_setBindHandler onBind
         (Client_setClientId cid (Client_new r w t)))))"

section \<open>Timers\<close>

definition Client_startConnectTimer :: "int \<Rightarrow> client_proc" where
  "Client_startConnectTimer timeoutMs =
     if_do (0 < timeoutMs)
       (seqs [emit (ExpiresAfter ConnectTimer (milliseconds timeoutMs)), emit (AsyncWait ConnectTimer)])"

definition Client_cancelConnectTimer :: client_proc where
  "Client_cancelConnectTimer = emit (CancelTimer ConnectTimer)"

definition Client_onConnectTimeout :: "error_code \<Rightarrow> client_proc" where
  "Client_onConnectTimeout ec = if_do (ec = None) (emit SocketClose)"

definition Client_startReadTimer :: client_proc where
  "Client_startReadTimer c =
     if_do (0 < cl_readTimeoutMs c)
       (seqs [emit (ExpiresAfter ReadTimer (milliseconds (cl_readTimeoutMs c))), emit (AsyncWait ReadTimer)]) c"

definition Client_cancelReadTimer :: client_proc where
  "Client_cancelReadTimer = emit (CancelTimer ReadTimer)"

definition Client_onReadTimeout :: "error_code \<Rightarrow> client_proc" where
  "Client_onReadTimeout ec = if_do (ec = None) (emit SocketClose)"

definition Client_startWriteTimer :: client_proc where
  "Client_startWriteTimer c =
     if_do (0 < cl_writeTimeoutMs c)
       (seqs [emit (ExpiresAfter WriteTimer (milliseconds (cl_writeTimeoutMs c))), emit (AsyncWait WriteTimer)]) c"

definition Client_cancelWriteTimer :: client_proc where
  "Client_cancelWriteTimer = emit (CancelTimer WriteTimer)"

definition Client_onWriteTimeout :: "error_code \<Rightarrow> client_proc" where
  "Client_onWriteTimeout ec = if_do (ec = None) (emit SocketClose)"

text \<open>
  \<open>startResponseTimer\<close>. Setting a new expiry on the one sweep timer cancels the wait that was
  pending on it.
\<close>

definition Client_startResponseTimer :: "u32 \<Rightarrow> time \<Rightarrow> client_proc" where
  "Client_startResponseTimer sequence now c =
     if_do (0 < cl_responseTimeoutMs c)
       (let expiry = now + milliseconds (cl_responseTimeoutMs c) in
        seqs [modify (\<lambda>c. c\<lparr>cl_responses := rt_insert sequence expiry (cl_responses c)\<rparr>),
              emit (ExpiresAfter ResponseSweepTimer (milliseconds (cl_responseTimeoutMs c))),
              emit (AsyncWait ResponseSweepTimer)]) c"

definition Client_cancelResponseTimer :: "u32 \<Rightarrow> client_proc" where
  "Client_cancelResponseTimer sequence =
     modify (\<lambda>c. c\<lparr>cl_responses := rt_cancel sequence (cl_responses c)\<rparr>)"

section \<open>Sending\<close>

text \<open>\<open>doWrite\<close> hands the whole transmit buffer to the socket.\<close>

definition Client_doWrite :: client_proc where
  "Client_doWrite =
     seqs [Client_startWriteTimer,
           (\<lambda>c. (c\<lparr>cl_writing := Some (cl_txBuffer c)\<rparr>, [StartWrite (cl_txBuffer c)]))]"

text \<open>The closure \<open>sendPacket\<close> posts to the strand.\<close>

definition Client_enqueue :: "bytes \<Rightarrow> client_proc" where
  "Client_enqueue pkt c =
     (let writing = cl_txBuffer c \<noteq> [] in
      seqs [modify (\<lambda>c. c\<lparr>cl_txBuffer := cl_txBuffer c @ pkt\<rparr>),
            if_do (\<not> writing) Client_doWrite] c)"

definition Client_sendPacket :: "endian \<Rightarrow> u8 \<Rightarrow> u8 \<Rightarrow> u32 \<Rightarrow> bytes \<Rightarrow> client_proc" where
  "Client_sendPacket h packetId status sequence data =
     (let pkt = sendPacket_pkt h packetId status sequence data in
      seqs [modify (\<lambda>c. c\<lparr>cl_strand := cl_strand c @ [pkt]\<rparr>), emit (Post pkt)])"

text \<open>\<open>sendRequest\<close> returns the sequence number it has taken.\<close>

definition Client_sendRequest :: "endian \<Rightarrow> bytes \<Rightarrow> time \<Rightarrow> client \<Rightarrow> u32 \<times> client \<times> client_effect list" where
  "Client_sendRequest h data now c =
     (let sq = cl_sequenceCounter c in
      (sq, seqs [modify (\<lambda>c. c\<lparr>cl_sequenceCounter := cl_sequenceCounter c + 1\<rparr>),
                 Client_sendPacket h 0x02 0x00 sq data,
                 Client_startResponseTimer sq now] c))"

definition Client_onWrite :: "error_code \<Rightarrow> client_proc" where
  "Client_onWrite ec =
     seqs [Client_cancelWriteTimer,
           if_do (ec = None) (modify (\<lambda>c. c\<lparr>cl_txBuffer := []\<rparr>))]"

section \<open>Closing and callbacks\<close>

definition Client_close :: client_proc where
  "Client_close =
     seqs [modify (\<lambda>c. c\<lparr>cl_running := False\<rparr>),
           emit SocketClose,
           Client_cancelConnectTimer,
           Client_cancelReadTimer,
           Client_cancelWriteTimer,
           emit (CancelTimer ResponseSweepTimer),
           (\<lambda>c. if_do (cl_onClose c) (emit CallClose) c)]"

fun Client_call :: "endian \<Rightarrow> api_call \<Rightarrow> client_proc" where
  "Client_call h (ApiSendPacket p s q d) c = Client_sendPacket h p s q d c"
| "Client_call h (ApiSendRequest d t) c = snd (Client_sendRequest h d t c)"
| "Client_call h ApiClose c = Client_close c"

text \<open>A callback if it is set: its invocation is recorded, then its calls run.\<close>

definition Client_callback :: "endian \<Rightarrow> ('f \<Rightarrow> api_call list) \<Rightarrow> client_effect \<Rightarrow> 'f option \<Rightarrow> client_proc" where
  "Client_callback h app x cb =
     (case cb of None \<Rightarrow> skip | Some f \<Rightarrow> seqs (emit x # map (Client_call h) (app f)))"

section \<open>Receiving\<close>

definition Client_doReadHeader :: client_proc where
  "Client_doReadHeader =
     seqs [Client_startReadTimer, modify (\<lambda>c. c\<lparr>cl_reading := Some RdHeader\<rparr>), emit (StartRead RdHeader)]"

definition Client_doReadBody :: "u32 \<Rightarrow> client_proc" where
  "Client_doReadBody bodyLen =
     seqs [modify (\<lambda>c. c\<lparr>cl_bodyBuf := resize (unat bodyLen) (cl_bodyBuf c)\<rparr>),
           modify (\<lambda>c. c\<lparr>cl_reading := Some (RdBody (unat bodyLen))\<rparr>),
           emit (StartRead (RdBody (unat bodyLen)))]"

definition Client_onReadHeader :: "endian \<Rightarrow> error_code \<Rightarrow> client_proc" where
  "Client_onReadHeader h ec =
     (if ec \<noteq> None then Client_cancelReadTimer
      else (\<lambda>c. let packetLen = fromBigEndian h (cl_headerBuf c) in
        seqs [modify (\<lambda>c. c\<lparr>cl_lastPacketId := cl_headerBuf c ! 4,
                            cl_lastStatus := cl_headerBuf c ! 5,
                            cl_lastSequence := fromBigEndian h (drop 6 (cl_headerBuf c))\<rparr>),
              if packetLen \<ge> 10 then Client_doReadBody (packetLen - 10) else Client_doReadHeader] c))"

definition Client_onReadBody :: "endian \<Rightarrow> error_code \<Rightarrow> client_proc" where
  "Client_onReadBody h ec =
     seqs [Client_cancelReadTimer,
           if_do (ec = None)
             (seqs [(\<lambda>c. if_do (cl_lastPacketId c = 0x81)
                       (let sid = string_of (cl_bodyBuf c) in
                        Client_callback h (\<lambda>f. f sid) (CallBind sid) (cl_onBind c)) c),
                    (\<lambda>c. Client_callback h
                       (\<lambda>f. f (cl_lastPacketId c) (cl_lastStatus c) (cl_lastSequence c) (cl_bodyBuf c))
                       (CallPacket (cl_lastPacketId c) (cl_lastStatus c) (cl_lastSequence c) (cl_bodyBuf c))
                       (cl_onPacket c) c)]),
           (\<lambda>c. if_do (cl_running c) Client_doReadHeader c)]"

section \<open>Connecting\<close>

text \<open>
  \<open>connect\<close> resolves the host synchronously; a failing resolution throws out of \<open>connect\<close>.
\<close>

definition Client_connect ::
  "string \<Rightarrow> u16 \<Rightarrow> int \<Rightarrow> (error_code \<Rightarrow> api_call list) option \<Rightarrow> bool \<Rightarrow> client_proc" where
  "Client_connect host port timeoutMs onConnect resolved =
     seqs [modify (\<lambda>c. c\<lparr>cl_connectHandler := onConnect\<rparr>),
           emit (Resolve host port),
           if resolved
           then seqs [Client_startConnectTimer timeoutMs,
                      modify (\<lambda>c. c\<lparr>cl_connecting := True\<rparr>),
                      emit AsyncConnect]
           else emit ResolveError]"

definition Client_onConnect :: "endian \<Rightarrow> error_code \<Rightarrow> client_proc" where
  "Client_onConnect h ec =
     seqs [Client_cancelConnectTimer,
           if_do (ec = None)
             (seqs [(\<lambda>c. if_do (cl_clientId c \<noteq> [])
                       (let sq = cl_sequenceCounter c in
                        seqs [modify (\<lambda>c. c\<lparr>cl_sequenceCounter := cl_sequenceCounter c + 1\<rparr>),
                              Client_sendPacket h 0x01 0x00 sq (bytes_of (cl_clientId c))]) c),
                    Client_doReadHeader]),
           (\<lambda>c. Client_callback h (\<lambda>f. f ec) (CallConnect ec) (cl_connectHandler c) c)]"

section \<open>Firing response timeouts\<close>

definition Client_fireTimeout :: "endian \<Rightarrow> u32 \<Rightarrow> client_proc" where
  "Client_fireTimeout h sq c = Client_callback h (\<lambda>f. f sq) (CallTimeout sq) (cl_onTimeout c) c"

definition Client_reschedule :: "time \<Rightarrow> client_proc" where
  "Client_reschedule now c =
     (let next = (case pq_top (rt_queue (cl_responses c)) of
                    None \<Rightarrow> now + hours 24
                  | Some e \<Rightarrow> re_expiry e)
      in seqs [emit (ExpiresAt ResponseSweepTimer next), emit (AsyncWait ResponseSweepTimer)] c)"

definition Client_checkAndFireResponseTimers :: "endian \<Rightarrow> error_code \<Rightarrow> time \<Rightarrow> client_proc" where
  "Client_checkAndFireResponseTimers h ec now =
     (if ec \<noteq> None then skip
      else (\<lambda>c. let (table, expired) = rt_sweep now (cl_responses c) in
        seqs [modify (\<lambda>c. c\<lparr>cl_responses := table\<rparr>),
              seqs (map (Client_fireTimeout h) expired),
              Client_reschedule now] c))"

section \<open>Events\<close>

datatype client_event =
    DoConnect string u16 int "(error_code \<Rightarrow> api_call list) option" bool
  | ConnectDone error_code
  | DoCall api_call
  | DoCancelResponse u32
  | RunPosted
  | HeaderRead error_code bytes
  | BodyRead error_code bytes
  | WriteDone error_code nat
  | ConnectTimedOut error_code
  | ReadTimedOut error_code
  | WriteTimedOut error_code
  | SweepTimedOut error_code time

text \<open>
  A read completion stores the bytes it has transferred at the front of its buffer before the
  handler runs; a write completion tells how many bytes the socket has taken.
\<close>

fun Client_step :: "endian \<Rightarrow> client \<Rightarrow> client_event \<Rightarrow> client \<times> client_effect list" where
  "Client_step h c (DoConnect host port t f r) = Client_connect host port t f r c"
| "Client_step h c (ConnectDone ec) =
     seqs [modify (\<lambda>c. c\<lparr>cl_connecting := False\<rparr>), Client_onConnect h ec] c"
| "Client_step h c (DoCall a) = Client_call h a c"
| "Client_step h c (DoCancelResponse s) = Client_cancelResponseTimer s c"
| "Client_step h c RunPosted =
     (case cl_strand c of
        [] \<Rightarrow> (c, [])
      | pkt # rest \<Rightarrow> seqs [modify (\<lambda>c. c\<lparr>cl_strand := rest\<rparr>), Client_enqueue pkt] c)"
| "Client_step h c (HeaderRead ec d) =
     seqs [modify (\<lambda>c. c\<lparr>cl_reading := None, cl_headerBuf := memcpy (cl_headerBuf c) 0 d\<rparr>),
           Client_onReadHeader h ec] c"
| "Client_step h c (BodyRead ec d) =
     seqs [modify (\<lambda>c. c\<lparr>cl_reading := None, cl_bodyBuf := memcpy (cl_bodyBuf c) 0 d\<rparr>),
           Client_onReadBody h ec] c"
| "Client_step h c (WriteDone ec n) =
     seqs [modify (\<lambda>c. c\<lparr>cl_sent := cl_sent c @ (case cl_writing c of None \<Rightarrow> [] | Some b \<Rightarrow> take n b),
                         cl_writing := None\<rparr>),
           Client_onWrite ec] c"
| "Client_step h c (ConnectTimedOut ec) = Client_onConnectTimeout ec c"
| "Client_step h c (ReadTimedOut ec) = Client_onReadTimeout ec c"
| "Client_step h c (WriteTimedOut ec) = Client_onWriteTimeout ec c"
| "Client_step h c (SweepTimedOut ec now) = Client_checkAndFireResponseTimers h ec now c"

text \<open>
  What Boost.Asio documents: an operation completes only if it was started; \<open>async_read\<close> and
  \<open>async_write\<close> succeed only after the whole buffer has been transferred and never transfer
  more. \<open>connect\<close> is called while no connection is being set up or read from.
\<close>

fun Client_ok :: "client \<Rightarrow> client_event \<Rightarrow> bool" where
  "Client_ok c (DoConnect _ _ _ _ _) = (\<not> cl_connecting c \<and> cl_reading c = None)"
| "Client_ok c (ConnectDone _) = cl_connecting c"
| "Client_ok c RunPosted = (cl_strand c \<noteq> [])"
| "Client_ok c (HeaderRead ec d) =
     (cl_reading c = Some RdHeader \<and> length d \<le> 10 \<and> (ec = None \<longrightarrow> length d = 10))"
| "Client_ok c (BodyRead ec d) =
     (case cl_reading c of
        Some (RdBody n) \<Rightarrow> length d \<le> n \<and> (ec = None \<longrightarrow> length d = n)
      | _ \<Rightarrow> False)"
| "Client_ok c (WriteDone ec n) =
     (case cl_writing c of
        Some b \<Rightarrow> n \<le> length b \<and> (ec = None \<longrightarrow> n = length b)
      | None \<Rightarrow> False)"
| "Client_ok c _ = True"


section \<open>What the methods leave alone\<close>

lemmas Client_timer_defs =
  Client_startConnectTimer_def Client_cancelConnectTimer_def Client_onConnectTimeout_def
  Client_startReadTimer_def Client_cancelReadTimer_def Client_onReadTimeout_def
  Client_startWriteTimer_def Client_cancelWriteTimer_def Client_onWriteTimeout_def

lemma Client_timers_fst [simp]:
  "fst (Client_startConnectTimer t c) = c" "fst (Client_cancelConnectTimer c) = c"
  "fst (Client_onConnectTimeout ec c) = c"
  "fst (Client_startReadTimer c) = c" "fst (Client_cancelReadTimer c) = c"
  "fst (Client_onReadTimeout ec c) = c"
  "fst (Client_startWriteTimer c) = c" "fst (Client_cancelWriteTimer c) = c"
  "fst (Client_onWriteTimeout ec c) = c"
  "fst (Client_reschedule now c) = c"
  by (simp_all add: Client_timer_defs Client_reschedule_def Let_def)

text \<open>
  The members that calls from callbacks never touch: buffers, outstanding socket operations,
  callbacks and configuration.
\<close>

definition cl_io :: "client \<Rightarrow> bytes \<times> bytes \<times> bytes \<times> read_op option \<times> bytes option \<times> bytes \<times> bool" where
  "cl_io c = (cl_headerBuf c, cl_bodyBuf c, cl_txBuffer c, cl_reading c, cl_writing c, cl_sent c, cl_connecting c)"

definition cl_config :: "client \<Rightarrow> (u8 \<Rightarrow> u8 \<Rightarrow> u32 \<Rightarrow> bytes \<Rightarrow> api_call list) option \<times> (u32 \<Rightarrow> api_call list) option
    \<times> (string \<Rightarrow> api_call list) option \<times> bool \<times> (error_code \<Rightarrow> api_call list) option \<times> int \<times> int \<times> int \<times> string" where
  "cl_config c = (cl_onPacket c, cl_onTimeout c, cl_onBind c, cl_onClose c, cl_connectHandler c,
     cl_readTimeoutMs c, cl_writeTimeoutMs c, cl_responseTimeoutMs c, cl_clientId c)"

definition cl_last :: "client \<Rightarrow> u8 \<times> u8 \<times> u32" where
  "cl_last c = (cl_lastPacketId c, cl_lastStatus c, cl_lastSequence c)"

lemmas cl_views = cl_io_def cl_config_def cl_last_def

lemma Client_sendPacket_fst [simp]:
  "fst (Client_sendPacket h p s q d c) = c\<lparr>cl_strand := cl_strand c @ [sendPacket_pkt h p s q d]\<rparr>"
  by (simp add: Client_sendPacket_def Let_def)

lemma Client_startResponseTimer_fst [simp]:
  "fst (Client_startResponseTimer s now c) =
     (if 0 < cl_responseTimeoutMs c
      then c\<lparr>cl_responses := rt_insert s (now + milliseconds (cl_responseTimeoutMs c)) (cl_responses c)\<rparr>
      else c)"
  by (simp add: Client_startResponseTimer_def Let_def)

lemma Client_call_views [simp]:
  "cl_io (fst (Client_call h a c)) = cl_io c"
  "cl_config (fst (Client_call h a c)) = cl_config c"
  "cl_last (fst (Client_call h a c)) = cl_last c"
  by (cases a; simp add: cl_views Client_sendRequest_def Let_def Client_close_def)+

lemma Client_calls_views [simp]:
  "cl_io (fst (seqs (map (Client_call h) as) c)) = cl_io c"
  "cl_config (fst (seqs (map (Client_call h) as) c)) = cl_config c"
  "cl_last (fst (seqs (map (Client_call h) as) c)) = cl_last c"
  by (induction as arbitrary: c) simp_all

lemma Client_callback_views [simp]:
  "cl_io (fst (Client_callback h app x cb c)) = cl_io c"
  "cl_config (fst (Client_callback h app x cb c)) = cl_config c"
  "cl_last (fst (Client_callback h app x cb c)) = cl_last c"
  by (cases cb; simp add: Client_callback_def)+

lemma Client_fires_views [simp]:
  "cl_io (fst (seqs (map (Client_fireTimeout h) ss) c)) = cl_io c"
  "cl_config (fst (seqs (map (Client_fireTimeout h) ss) c)) = cl_config c"
  by (induction ss arbitrary: c) (simp_all add: Client_fireTimeout_def)

lemma cl_ioD:
  assumes "cl_io c' = cl_io c"
  shows "cl_headerBuf c' = cl_headerBuf c" "cl_bodyBuf c' = cl_bodyBuf c" "cl_txBuffer c' = cl_txBuffer c"
    "cl_reading c' = cl_reading c" "cl_writing c' = cl_writing c" "cl_sent c' = cl_sent c"
    "cl_connecting c' = cl_connecting c"
  using assms by (simp_all add: cl_io_def)

lemmas Client_call_io [simp] = cl_ioD [OF Client_call_views(1)]
lemmas Client_callback_io [simp] = cl_ioD [OF Client_callback_views(1)]
lemmas Client_fires_io [simp] = cl_ioD [OF Client_fires_views(1)]

lemma Client_callback_last [simp]:
  "cl_lastPacketId (fst (Client_callback h app x cb c)) = cl_lastPacketId c"
  "cl_lastStatus (fst (Client_callback h app x cb c)) = cl_lastStatus c"
  "cl_lastSequence (fst (Client_callback h app x cb c)) = cl_lastSequence c"
  using Client_callback_views(3) [of h app x cb c] by (simp_all add: cl_last_def)

lemma Client_callback_config [simp]:
  "cl_onPacket (fst (Client_callback h app x cb c)) = cl_onPacket c"
  "cl_onBind (fst (Client_callback h app x cb c)) = cl_onBind c"
  "cl_onTimeout (fst (Client_callback h app x cb c)) = cl_onTimeout c"
  "cl_connectHandler (fst (Client_callback h app x cb c)) = cl_connectHandler c"
  using Client_callback_views(2) [of h app x cb c] by (simp_all add: cl_config_def)

text \<open>What calls from callbacks do keep: the strand only grows by packets, the table is well formed.\<close>

definition cl_soft :: "client \<Rightarrow> bool" where
  "cl_soft c \<longleftrightarrow> rt_inv (cl_responses c) \<and> [] \<notin> set (cl_strand c)"

lemma sendPacket_pkt_nonempty [simp]: "sendPacket_pkt h p s q d \<noteq> []"
  by (simp add: sendPacket_pkt_frame turbo.enc_nonempty)

lemma sendPacket_pkt_nonempty' [simp]: "[] \<noteq> sendPacket_pkt h p s q d"
  by (metis sendPacket_pkt_nonempty)

lemma Client_call_soft: "cl_soft c \<Longrightarrow> cl_soft (fst (Client_call h a c))"
  by (cases a) (auto simp: cl_soft_def Client_sendRequest_def Let_def Client_close_def rt_inv_insert)

lemma Client_callback_soft: "cl_soft c \<Longrightarrow> cl_soft (fst (Client_callback h app x cb c))"
  unfolding Client_callback_def
  by (cases cb) (auto intro!: seqs_keeps [where P = cl_soft] simp: Client_call_soft)

lemma Client_fires_soft: "cl_soft c \<Longrightarrow> cl_soft (fst (seqs (map (Client_fireTimeout h) ss) c))"
  by (rule seqs_keeps [where P = cl_soft]) (auto simp: Client_fireTimeout_def Client_callback_soft)

section \<open>The invariant\<close>

text \<open>
  The header buffer has its size, the body buffer has the size of the body being read, nothing
  is read while connecting, and the buffer of an outstanding write is the front part of the
  transmit buffer.
\<close>

definition client_inv :: "client \<Rightarrow> bool" where
  "client_inv c \<longleftrightarrow> cl_soft c \<and> length (cl_headerBuf c) = 10
     \<and> (\<forall>n. cl_reading c = Some (RdBody n) \<longrightarrow> length (cl_bodyBuf c) = n)
     \<and> (cl_connecting c \<longrightarrow> cl_reading c = None)
     \<and> (\<forall>b. cl_writing c = Some b \<longrightarrow> b \<noteq> [] \<and> prefix b (cl_txBuffer c))"

lemmas Client_configured_defs =
  Client_configured_def Client_setCloseHandler_def Client_setTimeoutHandler_def
  Client_setPacketHandler_def Client_setBindHandler_def Client_setClientId_def Client_new_def

lemma client_inv_configured: "client_inv (Client_configured r w t i b p m k)"
  by (simp add: client_inv_def Client_configured_defs cl_soft_def rt_inv_empty)

lemma client_inv_io_soft:
  "client_inv c \<Longrightarrow> cl_io c' = cl_io c \<Longrightarrow> cl_soft c' \<Longrightarrow> client_inv c'"
  by (auto simp: client_inv_def cl_io_def)

lemma Client_doReadHeader_inv:
  "client_inv c \<Longrightarrow> \<not> cl_connecting c \<Longrightarrow> client_inv (fst (Client_doReadHeader c))"
  by (simp add: client_inv_def Client_doReadHeader_def cl_soft_def)

lemma Client_doReadBody_inv:
  "client_inv c \<Longrightarrow> \<not> cl_connecting c \<Longrightarrow> client_inv (fst (Client_doReadBody n c))"
  by (simp add: client_inv_def Client_doReadBody_def cl_soft_def)

lemma Client_callback_inv: "client_inv c \<Longrightarrow> client_inv (fst (Client_callback h app x cb c))"
  by (rule client_inv_io_soft) (auto simp: Client_callback_soft client_inv_def)

lemma Client_call_inv: "client_inv c \<Longrightarrow> client_inv (fst (Client_call h a c))"
  by (rule client_inv_io_soft) (auto simp: Client_call_soft client_inv_def)

lemma Client_onReadHeader_inv:
  assumes "client_inv c" and "\<not> cl_connecting c"
  shows "client_inv (fst (Client_onReadHeader h ec c))"
proof -
  have "client_inv (c\<lparr>cl_lastPacketId := a, cl_lastStatus := b, cl_lastSequence := q\<rparr>)" for a b q
    using assms by (simp add: client_inv_def cl_soft_def)
  then show ?thesis
    using assms by (simp add: Client_onReadHeader_def Let_def Client_doReadHeader_inv Client_doReadBody_inv)
qed

lemma Client_onReadBody_inv:
  assumes "client_inv c" and "\<not> cl_connecting c"
  shows "client_inv (fst (Client_onReadBody h ec c))"
  using assms
  by (simp add: Client_onReadBody_def Let_def Client_doReadHeader_inv Client_callback_inv)

lemma Client_onConnect_inv:
  assumes "client_inv c" and "\<not> cl_connecting c"
  shows "client_inv (fst (Client_onConnect h ec c))"
proof -
  have "client_inv (c\<lparr>cl_sequenceCounter := q, cl_strand := cl_strand c @ [sendPacket_pkt h p s r d]\<rparr>)" for q p s r d
    using assms by (simp add: client_inv_def cl_soft_def)
  then show ?thesis
    using assms
    by (simp add: Client_onConnect_def Let_def Client_doReadHeader_inv Client_callback_inv)
qed

lemma Client_enqueue_inv:
  "client_inv c \<Longrightarrow> pkt \<noteq> [] \<Longrightarrow> client_inv (fst (Client_enqueue pkt c))"
  by (auto simp: client_inv_def Client_enqueue_def Client_doWrite_def Let_def cl_soft_def)

lemma Client_onWrite_inv:
  "client_inv c \<Longrightarrow> cl_writing c = None \<Longrightarrow> client_inv (fst (Client_onWrite ec c))"
  by (simp add: client_inv_def Client_onWrite_def cl_soft_def)

lemma Client_sweep_inv:
  assumes "client_inv c"
  shows "client_inv (fst (Client_checkAndFireResponseTimers h ec now c))"
proof (cases ec)
  case None
  have "cl_soft (c\<lparr>cl_responses := fst (rt_sweep now (cl_responses c))\<rparr>)"
    using assms by (simp add: client_inv_def cl_soft_def rt_inv_sweep)
  with None assms show ?thesis
    by (intro client_inv_io_soft [OF assms])
      (simp_all add: Client_checkAndFireResponseTimers_def case_prod_beta Client_fires_soft,
       simp add: cl_io_def)
next
  case (Some e)
  with assms show ?thesis by (simp add: Client_checkAndFireResponseTimers_def)
qed

lemma Client_step_inv:
  assumes inv: "client_inv c" and ok: "Client_ok c e"
  shows "client_inv (fst (Client_step h c e))"
  using assms
proof (cases e)
  case (DoConnect host port t f r)
  with inv ok DoConnect show ?thesis by (simp add: Client_connect_def client_inv_def cl_soft_def)
next
  case (ConnectDone ec)
  with inv ok ConnectDone show ?thesis
    by simp (rule Client_onConnect_inv, auto simp: client_inv_def cl_soft_def)
next
  case (DoCancelResponse s)
  with inv ok DoCancelResponse show ?thesis
    by (simp add: Client_cancelResponseTimer_def client_inv_def cl_soft_def rt_inv_cancel)
next
  case RunPosted
  from ok RunPosted obtain pkt rest where strand: "cl_strand c = pkt # rest"
    by (auto simp: neq_Nil_conv)
  with inv have "client_inv (c\<lparr>cl_strand := rest\<rparr>)" "pkt \<noteq> []"
    by (auto simp: client_inv_def cl_soft_def)
  with RunPosted strand show ?thesis by (simp add: Client_enqueue_inv)
next
  case (HeaderRead ec d)
  with inv ok HeaderRead show ?thesis
    by simp (rule Client_onReadHeader_inv, auto simp: client_inv_def cl_soft_def)
next
  case (BodyRead ec d)
  with inv ok BodyRead show ?thesis
    by (simp split: option.splits read_op.splits)
      (rule Client_onReadBody_inv, auto simp: client_inv_def cl_soft_def)
next
  case (WriteDone ec n)
  with inv ok WriteDone show ?thesis
    by simp (rule Client_onWrite_inv, auto simp: client_inv_def cl_soft_def)
qed (simp_all add: Client_call_inv Client_sweep_inv)

text \<open>Every run of the client that Boost.Asio allows keeps the invariant.\<close>

interpretation client: machine "Client_step h" Client_ok client_inv for h
  by unfold_locales (rule Client_step_inv)

end
