(* ===== verification/TurboClientSend.thy ===== *)
theory TurboClientSend
  imports TurboClient
begin

text \<open>
  The sending side of \<open>TurboNetClient\<close>: its socket operations never overlap, and what reaches the
  wire is a sequence of whole packets in the order in which they were sent. Nothing is lost as
  long as no packet is enqueued behind an outstanding write and no write fails; packets enqueued
  behind an outstanding write are dropped when it completes, and a failed write silences the
  client for good.
\<close>

text \<open>The client and the packet of the concrete runs below.\<close>

abbreviation plain_client :: client where
  "plain_client \<equiv> Client_configured 0 0 0 [] None None None False"

abbreviation sample_send :: client_event where
  "sample_send \<equiv> DoCall (ApiSendPacket 2 0 7 [1])"

abbreviation sample_run :: "client_event list \<Rightarrow> client \<times> client_effect list" where
  "sample_run es \<equiv> run (Client_step LittleEndian) plain_client es"

section \<open>Effects of calls from callbacks\<close>

fun io_effect :: "client_effect \<Rightarrow> bool" where
  "io_effect (StartRead _) = True"
| "io_effect (StartWrite _) = True"
| "io_effect _ = False"

fun posted :: "client_effect \<Rightarrow> bytes option" where
  "posted (Post p) = Some p"
| "posted _ = None"

definition posts :: "client_effect list \<Rightarrow> bytes list" where
  "posts os = List.map_filter posted os"

lemma posts_simps [simp]:
  "posts [] = []" "posts (x # os) = (case posted x of None \<Rightarrow> posts os | Some p \<Rightarrow> p # posts os)"
  "posts (os @ os') = posts os @ posts os'"
  by (auto simp: posts_def List.map_filter_def split: option.splits)

fun is_StartWrite :: "client_effect \<Rightarrow> bool" where
  "is_StartWrite (StartWrite _) = True"
| "is_StartWrite _ = False"

definition cl_tx :: "client \<Rightarrow> bytes \<times> bytes option \<times> bytes" where
  "cl_tx c = (cl_txBuffer c, cl_writing c, cl_sent c)"

text \<open>
  A statement that leaves the sending side alone, adds to the strand exactly the packets it
  posts, all of the format, and has no effect of the kind \<open>Q\<close>.
\<close>

definition tame :: "(client_effect \<Rightarrow> bool) \<Rightarrow> client_proc \<Rightarrow> bool" where
  "tame Q p \<longleftrightarrow> (\<forall>c. cl_strand (fst (p c)) = cl_strand c @ posts (snd (p c))
     \<and> set (posts (snd (p c))) \<subseteq> range encode_frame
     \<and> cl_tx (fst (p c)) = cl_tx c \<and> (\<forall>x \<in> set (snd (p c)). \<not> Q x))"

lemma tameD:
  "tame Q p \<Longrightarrow> cl_strand (fst (p c)) = cl_strand c @ posts (snd (p c))"
  "tame Q p \<Longrightarrow> cl_tx (fst (p c)) = cl_tx c"
  "tame Q p \<Longrightarrow> x \<in> set (snd (p c)) \<Longrightarrow> \<not> Q x"
  "tame Q p \<Longrightarrow> set (posts (snd (p c))) \<subseteq> range encode_frame"
  by (simp_all add: tame_def)

named_theorems tame_intros \<open>statements that are tame\<close>

lemma tame_seqs [tame_intros]: "list_all (tame Q) ps \<Longrightarrow> tame Q (seqs ps)"
proof (induction ps)
  case Nil
  show ?case by (simp add: tame_def)
next
  case (Cons p ps)
  then have "tame Q p" "tame Q (seqs ps)" by simp_all
  then show ?case by (auto simp: tame_def)
qed

lemma tame_emit [tame_intros]: "\<not> Q x \<Longrightarrow> posted x = None \<Longrightarrow> tame Q (emit x)"
  by (simp add: tame_def)

lemma tame_modify [tame_intros]:
  "(\<And>c. cl_tx (f c) = cl_tx c) \<Longrightarrow> (\<And>c. cl_strand (f c) = cl_strand c) \<Longrightarrow> tame Q (modify f)"
  by (simp add: tame_def)

lemma tame_skip [tame_intros]: "tame Q skip"
  by (simp add: tame_def)

lemma tame_if_do [tame_intros]: "tame Q p \<Longrightarrow> tame Q (if_do b p)"
  by (simp add: tame_def)

lemma tame_mono: "tame Q p \<Longrightarrow> (\<And>x. Q' x \<Longrightarrow> Q x) \<Longrightarrow> tame Q' p"
  by (auto simp: tame_def)

lemma tame_Client_sendPacket [tame_intros]: "tame io_effect (Client_sendPacket h p s q d)"
  by (simp add: tame_def Client_sendPacket_def Let_def cl_tx_def sendPacket_pkt_frame)

lemma tame_Client_call [tame_intros]: "tame io_effect (Client_call h a)"
proof (cases a)
  case (ApiSendPacket p s q d)
  then have "Client_call h a = Client_sendPacket h p s q d" by (simp add: fun_eq_iff)
  then show ?thesis by (simp add: tame_Client_sendPacket)
next
  case (ApiSendRequest d t)
  then show ?thesis
    by (auto simp: tame_def cl_tx_def Client_sendRequest_def Let_def Client_sendPacket_def
        Client_startResponseTimer_def sendPacket_pkt_frame)
next
  case ApiClose
  then show ?thesis by (auto simp: tame_def cl_tx_def Client_close_def Client_timer_defs)
qed

lemma tame_Client_callback [tame_intros]:
  "\<not> io_effect x \<Longrightarrow> posted x = None \<Longrightarrow> tame io_effect (Client_callback h app x cb)"
  unfolding Client_callback_def
  by (cases cb) (auto intro!: tame_intros simp: list_all_iff)

lemma io_effect_StartWrite: "is_StartWrite x \<Longrightarrow> io_effect x"
  by (cases x) simp_all

lemma Client_callback_effects:
  assumes "\<not> io_effect x" and "posted x = None"
  shows Client_callback_strand: "cl_strand (fst (Client_callback h app x cb c)) = cl_strand c @ posts (snd (Client_callback h app x cb c))"
    and Client_callback_tx: "cl_tx (fst (Client_callback h app x cb c)) = cl_tx c"
    and Client_callback_posts: "set (posts (snd (Client_callback h app x cb c))) \<subseteq> range encode_frame"
    and Client_callback_no_io: "\<And>y. y \<in> set (snd (Client_callback h app x cb c)) \<Longrightarrow> \<not> io_effect y"
    and Client_callback_no_write: "\<And>y. y \<in> set (snd (Client_callback h app x cb c)) \<Longrightarrow> \<not> is_StartWrite y"
  using tameD [OF tame_Client_callback [OF assms, of h app cb]] io_effect_StartWrite by blast+

lemma tame_Client_fireTimeout [tame_intros]: "tame io_effect (Client_fireTimeout h s)"
  by (auto simp: tame_def Client_fireTimeout_def Client_callback_effects
      dest: Client_callback_no_io [rotated 2])

lemma tame_Client_sweep [tame_intros]: "tame io_effect (Client_checkAndFireResponseTimers h ec now)"
proof (cases ec)
  case None
  have "tame io_effect (seqs (map (Client_fireTimeout h) ss))" for ss
    by (rule tame_seqs) (auto simp: list_all_iff intro: tame_intros)
  moreover have "tame io_effect (Client_reschedule now)"
    by (simp add: tame_def Client_reschedule_def Let_def)
  ultimately show ?thesis
    using None by (auto simp: tame_def cl_tx_def Client_checkAndFireResponseTimers_def case_prod_beta)
next
  case (Some e)
  then show ?thesis by (simp add: Client_checkAndFireResponseTimers_def tame_skip)
qed

text \<open>The handlers of the receiving side start reads but no writes.\<close>

lemma tame_StartWrite: "tame io_effect p \<Longrightarrow> tame is_StartWrite p"
  by (rule tame_mono [of io_effect]) (simp_all add: io_effect_StartWrite)

lemma tame_Client_doReadHeader: "tame is_StartWrite Client_doReadHeader"
  by (simp add: tame_def Client_doReadHeader_def Client_timer_defs cl_tx_def)

lemma tame_Client_onReadHeader: "tame is_StartWrite (Client_onReadHeader h ec)"
  by (auto simp: tame_def Client_onReadHeader_def Client_doReadHeader_def Client_doReadBody_def
      Client_timer_defs Let_def cl_tx_def)

lemma tame_Client_onReadBody: "tame is_StartWrite (Client_onReadBody h ec)"
  using tameD [OF tame_Client_doReadHeader]
  by (auto simp: tame_def Client_onReadBody_def Client_timer_defs Let_def Client_callback_effects
      dest: Client_callback_no_write [rotated 2])

lemma tame_Client_onConnect: "tame is_StartWrite (Client_onConnect h ec)"
  using tameD [OF tame_Client_doReadHeader]
  by (auto simp: tame_def Client_onConnect_def Client_timer_defs Let_def Client_callback_effects
      Client_sendPacket_def cl_tx_def sendPacket_pkt_frame dest: Client_callback_no_write [rotated 2])

text \<open>Only two events move the sending side: a posted closure runs, a write completes.\<close>

fun sending_event :: "client_event \<Rightarrow> bool" where
  "sending_event RunPosted = True"
| "sending_event (WriteDone _ _) = True"
| "sending_event _ = False"

lemma Client_step_other:
  assumes "\<not> sending_event e"
  shows "cl_strand (fst (Client_step h c e)) = cl_strand c @ posts (snd (Client_step h c e))
    \<and> set (posts (snd (Client_step h c e))) \<subseteq> range encode_frame
    \<and> cl_tx (fst (Client_step h c e)) = cl_tx c
    \<and> (\<forall>x \<in> set (snd (Client_step h c e)). \<not> is_StartWrite x)"
proof (cases e)
  case (DoConnect host port t f r)
  then show ?thesis by (auto simp: Client_connect_def Client_timer_defs cl_tx_def)
next
  case (ConnectDone ec)
  then show ?thesis using tameD [OF tame_Client_onConnect [of h ec]] by (auto simp: cl_tx_def)
next
  case (DoCall a)
  then show ?thesis using tameD [OF tame_StartWrite [OF tame_Client_call [of h a]]] by auto
next
  case (DoCancelResponse s)
  then show ?thesis by (simp add: Client_cancelResponseTimer_def cl_tx_def)
next
  case (HeaderRead ec d)
  then show ?thesis using tameD [OF tame_Client_onReadHeader [of h ec]] by (auto simp: cl_tx_def)
next
  case (BodyRead ec d)
  then show ?thesis using tameD [OF tame_Client_onReadBody [of h ec]] by (auto simp: cl_tx_def)
next
  case (SweepTimedOut ec now)
  then show ?thesis using tameD [OF tame_StartWrite [OF tame_Client_sweep [of h ec now]]] by auto
qed (use assms in \<open>simp_all add: Client_timer_defs\<close>)

text \<open>A posted closure starts a write exactly if the transmit buffer was empty.\<close>

lemma Client_step_RunPosted:
  assumes "cl_strand c = pkt # rest"
  shows "cl_strand (fst (Client_step h c RunPosted)) = rest"
    and "cl_tx (fst (Client_step h c RunPosted)) =
      (if cl_txBuffer c = [] then (pkt, Some pkt, cl_sent c) else (cl_txBuffer c @ pkt, cl_writing c, cl_sent c))"
    and "posts (snd (Client_step h c RunPosted)) = []"
    and "StartWrite b \<in> set (snd (Client_step h c RunPosted)) \<longleftrightarrow> cl_txBuffer c = [] \<and> b = pkt"
    and "StartRead r \<notin> set (snd (Client_step h c RunPosted))"
  using assms
  by (auto simp: Client_enqueue_def Client_doWrite_def Client_timer_defs Let_def cl_tx_def)

lemma Client_step_WriteDone:
  assumes "cl_writing c = Some b"
  shows "cl_strand (fst (Client_step h c (WriteDone ec n))) = cl_strand c"
    and "cl_tx (fst (Client_step h c (WriteDone ec n))) =
      (if ec = None then [] else cl_txBuffer c, None, cl_sent c @ take n b)"
    and "snd (Client_step h c (WriteDone ec n)) = [CancelTimer WriteTimer]"
  using assms by (simp_all add: Client_onWrite_def Client_timer_defs cl_tx_def)

text \<open>Reads are started only by the completion of the connection or of the previous read.\<close>

fun reading_event :: "client_event \<Rightarrow> bool" where
  "reading_event (ConnectDone _) = True"
| "reading_event (HeaderRead _ _) = True"
| "reading_event (BodyRead _ _) = True"
| "reading_event _ = False"

lemma Client_step_no_read:
  assumes "\<not> reading_event e"
  shows "StartRead r \<notin> set (snd (Client_step h c e))"
proof (cases e)
  case (DoConnect host port t f rs)
  then show ?thesis by (simp add: Client_connect_def Client_timer_defs)
next
  case (DoCall a)
  then show ?thesis using tameD(3) [OF tame_Client_call [of h a]] by fastforce
next
  case (DoCancelResponse s)
  then show ?thesis by (simp add: Client_cancelResponseTimer_def)
next
  case RunPosted
  then show ?thesis
    by (cases "cl_strand c") (simp, simp only: Client_step_RunPosted(5) not_False_eq_True)
next
  case (WriteDone ec n)
  then show ?thesis by (simp add: Client_onWrite_def Client_timer_defs)
next
  case (SweepTimedOut ec now)
  then show ?thesis using tameD(3) [OF tame_Client_sweep [of h ec now]] by fastforce
qed (use assms in \<open>simp_all add: Client_timer_defs\<close>)

lemma Client_write_alone:
  assumes "client_inv c" and "Client_ok c e" and "StartWrite b \<in> set (snd (Client_step h c e))"
  shows "cl_writing c = None \<and> cl_writing (fst (Client_step h c e)) = Some b"
proof -
  have e: "e = RunPosted"
  proof (cases e)
    case (WriteDone ec n)
    with assms(3) show ?thesis by (simp add: Client_onWrite_def Client_timer_defs)
  qed (use assms(3) Client_step_other [of e h c] in fastforce)+
  with assms(2) obtain pkt rest where strand: "cl_strand c = pkt # rest"
    by (auto simp: neq_Nil_conv)
  with e assms(3) have "cl_txBuffer c = []" and "b = pkt"
    using Client_step_RunPosted(4) [OF strand] by blast+
  moreover from this assms(1) have "cl_writing c = None"
    by (cases "cl_writing c") (auto simp: client_inv_def)
  ultimately show ?thesis
    using e Client_step_RunPosted(2) [OF strand, of h] by (simp add: cl_tx_def)
qed

lemma Client_read_alone:
  assumes "client_inv c" and "Client_ok c e" and "StartRead r \<in> set (snd (Client_step h c e))"
  shows "cl_reading c = None \<or> (\<exists>ec d. e = HeaderRead ec d \<or> e = BodyRead ec d)"
proof -
  have "reading_event e"
    using assms(3) Client_step_no_read by blast
  with assms(1,2) show ?thesis
    by (cases e) (auto simp: client_inv_def)
qed



section \<open>What reaches the wire\<close>

text \<open>
  The sending side against the packets posted so far: those whose closure has run (\<open>ex\<close>) contain,
  in order, the packets already written (\<open>ps\<close>), those handed to the outstanding write (\<open>fl\<close>) and
  those appended behind it (\<open>bf\<close>). After a failed write some bytes of \<open>fl\<close> may have been sent.
\<close>

fun wire_split :: "bytes \<times> bytes option \<times> bytes \<Rightarrow> bytes list \<Rightarrow> bytes list \<Rightarrow> bytes list \<Rightarrow> bool" where
  "wire_split (tx, wr, sent) ps fl bf \<longleftrightarrow>
     (fl = [] \<longrightarrow> bf = []) \<and> tx = concat (fl @ bf) \<and>
     (case wr of
        Some b \<Rightarrow> fl \<noteq> [] \<and> b = concat fl \<and> sent = concat ps
      | None \<Rightarrow> prefix (concat ps) sent \<and> prefix sent (concat (ps @ fl)))"

definition wire_inv :: "client \<Rightarrow> client_effect list \<Rightarrow> bool" where
  "wire_inv c os \<longleftrightarrow> client_inv c \<and> set (posts os) \<subseteq> range encode_frame \<and>
     (\<exists>ex ps fl bf. posts os = ex @ cl_strand c \<and> subseq (ps @ fl @ bf) ex \<and> wire_split (cl_tx c) ps fl bf)"

lemma wire_inv_configured: "wire_inv (Client_configured r w t i b p m k) []"
proof -
  have "wire_split (cl_tx (Client_configured r w t i b p m k)) [] [] []"
    by (simp add: cl_tx_def Client_configured_defs)
  moreover have "cl_strand (Client_configured r w t i b p m k) = []"
    by (simp add: Client_configured_defs)
  ultimately show ?thesis
    unfolding wire_inv_def using client_inv_configured
    by (intro conjI exI [of _ "[]"]) simp_all
qed

lemma wire_split_RunPosted:
  assumes "wire_split (tx, wr, sent) ps fl bf" and "[] \<notin> set (fl @ bf)"
  shows "\<exists>fl' bf'. wire_split (if tx = [] then (pkt, Some pkt, sent) else (tx @ pkt, wr, sent)) ps fl' bf'
           \<and> fl' @ bf' = (fl @ bf) @ [pkt]"
proof (cases "tx = []")
  case True
  then have "fl = []" "bf = []"
    using assms(1) concat_eq_Nil_iff [OF assms(2)] by (auto simp del: concat_eq_Nil_conv)
  with True assms(1) have "wire_split (pkt, Some pkt, sent) ps [pkt] []"
    by (auto split: option.splits)
  with True \<open>fl = []\<close> \<open>bf = []\<close> show ?thesis
    by - (rule exI [of _ "[pkt]"], rule exI [of _ "[]"], simp)
next
  case False
  then have "fl \<noteq> []" using assms(1) by auto
  with assms(1) have "wire_split (tx @ pkt, wr, sent) ps fl (bf @ [pkt])"
    by auto
  with False show ?thesis
    by - (rule exI [of _ fl], rule exI [of _ "bf @ [pkt]"], simp del: wire_split.simps)
qed

lemma wire_split_WriteDone:
  assumes "wire_split (tx, Some b, sent) ps fl bf" and "n \<le> length b" and "ec = None \<Longrightarrow> n = length b"
  shows "if ec = None then wire_split ([], None, sent @ take n b) (ps @ fl) [] []
         else wire_split (tx, None, sent @ take n b) ps fl bf"
  using assms by (auto simp: take_is_prefix)

lemma wire_split_written:
  assumes sub: "subseq (ps @ fl @ bf) ex" and sp: "wire_split (cl_tx c) ps fl bf"
    and ok: "Client_ok c (WriteDone ec n)"
  shows "\<exists>ps' fl' bf'. subseq (ps' @ fl' @ bf') ex
    \<and> wire_split (cl_tx (fst (Client_step h c (WriteDone ec n)))) ps' fl' bf'"
proof -
  let ?c = "fst (Client_step h c (WriteDone ec n))"
  from ok obtain b where b: "cl_writing c = Some b" "n \<le> length b" "ec = None \<Longrightarrow> n = length b"
    by (auto split: option.splits)
  note split = wire_split_WriteDone [where ec = ec, OF sp [unfolded cl_tx_def b(1)] b(2) b(3)]
  have tx: "cl_tx ?c = (if ec = None then [] else cl_txBuffer c, None, cl_sent c @ take n b)"
    by (rule Client_step_WriteDone(2) [OF b(1)])
  show ?thesis
  proof (cases "ec = None")
    case True
    have "subseq ((ps @ fl) @ [] @ []) ex"
      using subseq_appendD1 [of "ps @ fl" bf] sub by simp
    with True split tx show ?thesis by (intro exI conjI) (assumption, simp)
  next
    case False
    with sub split tx show ?thesis by (intro exI conjI) (assumption, simp)
  qed
qed

lemma wire_inv_step:
  assumes wi: "wire_inv c os" and ok: "Client_ok c e"
  shows "wire_inv (fst (Client_step h c e)) (os @ snd (Client_step h c e))"
proof -
  let ?c = "fst (Client_step h c e)" and ?o = "snd (Client_step h c e)"
  from wi obtain ex ps fl bf where
    ex: "posts os = ex @ cl_strand c" and sub: "subseq (ps @ fl @ bf) ex" and
    sp: "wire_split (cl_tx c) ps fl bf" and ne: "set (posts os) \<subseteq> range encode_frame" and inv: "client_inv c"
    by (auto simp: wire_inv_def)
  have inv': "client_inv ?c" using inv ok by (rule Client_step_inv)
  have ne_flbf: "[] \<notin> set (fl @ bf)"
  proof -
    have "[] \<notin> range encode_frame" using turbo.enc_nonempty by (metis rangeE)
    moreover have "set (fl @ bf) \<subseteq> range encode_frame"
      using ne subseq_set [OF sub] unfolding ex by (simp, blast)
    ultimately show ?thesis by blast
  qed
  consider "\<not> sending_event e" | "e = RunPosted" | ec n where "e = WriteDone ec n"
    by (cases e) auto
  then show ?thesis
  proof cases
    case 1
    note other = Client_step_other [OF 1, of h c]
    with ne have "set (posts (os @ ?o)) \<subseteq> range encode_frame" by simp
    moreover have "posts (os @ ?o) = ex @ cl_strand ?c" using other ex by simp
    moreover have "wire_split (cl_tx ?c) ps fl bf" using other sp by simp
    ultimately show ?thesis using sub inv' unfolding wire_inv_def by blast
  next
    case 2
    with ok obtain pkt rest where strand: "cl_strand c = pkt # rest" by (auto simp: neq_Nil_conv)
    obtain fl' bf' where sp': "wire_split (cl_tx ?c) ps fl' bf'" and flbf: "fl' @ bf' = (fl @ bf) @ [pkt]"
      using wire_split_RunPosted [OF sp [unfolded cl_tx_def] ne_flbf, of pkt]
        Client_step_RunPosted(2) [OF strand, of h] 2 by auto
    have "posts (os @ ?o) = (ex @ [pkt]) @ cl_strand ?c"
      using 2 ex strand Client_step_RunPosted(1,3) [OF strand, of h] by simp
    moreover have "subseq (ps @ fl' @ bf') (ex @ [pkt])"
      unfolding flbf using list_emb_append_mono [OF sub, of "[pkt]" "[pkt]"] by simp
    moreover have "set (posts (os @ ?o)) \<subseteq> range encode_frame"
      using 2 ne Client_step_RunPosted(3) [OF strand, of h] by simp
    ultimately show ?thesis
      using sp' inv' unfolding wire_inv_def by blast
  next
    case (3 ec n)
    with ok obtain b where b: "cl_writing c = Some b" by (auto split: option.splits)
    have strand: "posts (os @ ?o) = ex @ cl_strand ?c" and "posts (os @ ?o) = posts os"
      using 3 ex Client_step_WriteDone(1,3) [OF b, of h ec n] by simp_all
    with wire_split_written [OF sub sp ok [unfolded 3], of h] inv' ne 3 show ?thesis
      unfolding wire_inv_def by metis
  qed
qed

interpretation client_wire: traced_machine "Client_step h" Client_ok wire_inv for h
  by unfold_locales (rule wire_inv_step)

text \<open>The packets of the format that a list of byte strings consists of.\<close>

lemma frames_of_posts:
  assumes "set ps \<subseteq> range encode_frame"
  shows "\<exists>fs. map encode_frame fs = ps"
  using assms ex_map_conv [of ps encode_frame] by (auto simp: subset_eq image_iff)

text \<open>The packets that the bytes taken by the socket belong to.\<close>

lemma client_wire_frames:
  assumes "allowed Client_ok (Client_step h) (Client_configured r w t i b p m k) es"
    and "run (Client_step h) (Client_configured r w t i b p m k) es = (c, os)"
  shows "\<exists>fs. subseq (map encode_frame fs) (posts os) \<and> prefix (cl_sent c) (wire encode_frame fs)"
proof -
  have "wire_inv c os"
    using client_wire.run_tinv [OF wire_inv_configured assms(1)] assms(2) by simp
  then obtain ex ps fl bf where posts: "set (posts os) \<subseteq> range encode_frame" "posts os = ex @ cl_strand c"
    and sub: "subseq (ps @ fl @ bf) ex" and split: "wire_split (cl_tx c) ps fl bf"
    by (auto simp: wire_inv_def)
  have sub': "subseq (ps @ fl) (posts os)"
    unfolding posts(2) using subseq_appendD1 [of "ps @ fl" bf ex] sub by (simp add: subseq_rev_drop_many)
  then have "set (ps @ fl) \<subseteq> range encode_frame"
    using posts(1) subseq_set by blast
  then obtain fs where "map encode_frame fs = ps @ fl"
    using frames_of_posts by blast
  moreover have "prefix (cl_sent c) (concat (ps @ fl))"
    using split by (auto simp: cl_tx_def split: option.splits)
  ultimately show ?thesis
    using sub' unfolding wire_def by metis
qed



section \<open>When nothing is lost\<close>

text \<open>
  An environment in which every write completes before the next packet is enqueued, and no
  write fails.
\<close>

definition calm_ok :: "client \<Rightarrow> client_event \<Rightarrow> bool" where
  "calm_ok c e \<longleftrightarrow> Client_ok c e \<and> (e = RunPosted \<longrightarrow> cl_txBuffer c = [])
     \<and> (\<forall>ec n. e = WriteDone ec n \<longrightarrow> ec = None)"

definition calm_inv :: "client \<Rightarrow> client_effect list \<Rightarrow> bool" where
  "calm_inv c os \<longleftrightarrow> concat (posts os) = cl_sent c @ cl_txBuffer c @ concat (cl_strand c)
     \<and> (case cl_writing c of None \<Rightarrow> cl_txBuffer c = [] | Some b \<Rightarrow> b = cl_txBuffer c)"

lemma calm_inv_step:
  assumes ci: "calm_inv c os" and ok: "calm_ok c e"
  shows "calm_inv (fst (Client_step h c e)) (os @ snd (Client_step h c e))"
proof -
  consider "\<not> sending_event e" | "e = RunPosted" | ec n where "e = WriteDone ec n"
    by (cases e) auto
  then show ?thesis
  proof cases
    case 1
    with ci Client_step_other [OF 1, of h c] show ?thesis
      by (auto simp: calm_inv_def cl_tx_def split: option.splits)
  next
    case 2
    with ok obtain pkt rest where strand: "cl_strand c = pkt # rest" and "cl_txBuffer c = []"
      by (auto simp: neq_Nil_conv calm_ok_def)
    with ci 2 Client_step_RunPosted(1-3) [OF strand, of h] show ?thesis
      by (simp add: calm_inv_def cl_tx_def)
  next
    case (3 ec n)
    with ok obtain b where b: "cl_writing c = Some b" "n = length b" "ec = None"
      by (auto simp: calm_ok_def split: option.splits)
    with ci 3 Client_step_WriteDone [OF b(1), of h ec n] show ?thesis
      by (simp add: calm_inv_def cl_tx_def)
  qed
qed

interpretation client_calm: traced_machine "Client_step h" calm_ok calm_inv for h
  by unfold_locales (rule calm_inv_step)

text \<open>
  If every write completes before the next packet is enqueued and none fails, no packet is
  lost: what has been sent, followed by the write outstanding and the packets still waiting in
  the strand, is exactly the concatenation of all packets passed to \<open>sendPacket\<close>.
\<close>

theorem client_nothing_lost:
  assumes "allowed calm_ok (Client_step h) (Client_configured r w t i b p m k) es"
    and "run (Client_step h) (Client_configured r w t i b p m k) es = (c, os)"
  shows "cl_sent c @ cl_txBuffer c @ concat (cl_strand c) = concat (posts os)"
proof -
  have "calm_inv (Client_configured r w t i b p m k) []"
    by (simp add: calm_inv_def Client_configured_defs)
  from client_calm.run_tinv [OF this assms(1)] assms(2) show ?thesis
    by (simp add: calm_inv_def)
qed

theorem client_nothing_lost_witness:
  "let (c, os) = sample_run [sample_send, RunPosted, sample_send, WriteDone None 11, RunPosted]
   in length (posts os) = 2 \<and> cl_sent c @ cl_txBuffer c @ concat (cl_strand c) = concat (posts os)"
proof -
  let ?es = "[sample_send, RunPosted, sample_send, WriteDone None 11, RunPosted]"
  have "allowed calm_ok (Client_step LittleEndian) plain_client ?es"
    by (simp add: calm_ok_def Client_configured_defs Client_sendPacket_def Client_enqueue_def
        Client_doWrite_def Client_onWrite_def Client_timer_defs Let_def sendPacket_pkt_frame)
  moreover have "length (posts (snd (sample_run ?es))) = 2" by code_simp
  ultimately show ?thesis
    using client_nothing_lost [of LittleEndian 0 0 0 "[]" None None None False ?es
        "fst (sample_run ?es)" "snd (sample_run ?es)"]
    by (simp only: prod.collapse Let_def case_prod_beta simp_thms)
qed

section \<open>When packets are lost\<close>

text \<open>
  Two packets are sent; the second is enqueued while the write of the first is outstanding;
  the write succeeds. Boost.Asio allows this run. Afterwards only the first packet has been
  sent, and nothing is left of the second: the transmit buffer and the strand are empty and no
  write is outstanding.
\<close>

theorem client_enqueued_behind_write_lost:
  "let c0 = Client_configured r w t i b pk m k;
       es = [DoCall (ApiSendPacket p1 s1 q1 d1), DoCall (ApiSendPacket p2 s2 q2 d2), RunPosted, RunPosted,
             WriteDone None (10 + length d1)];
       (c, os) = run (Client_step h) c0 es
   in allowed Client_ok (Client_step h) c0 es \<and>
      posts os = [sendPacket_pkt h p1 s1 q1 d1, sendPacket_pkt h p2 s2 q2 d2] \<and>
      cl_sent c = sendPacket_pkt h p1 s1 q1 d1 \<and>
      cl_txBuffer c = [] \<and> cl_writing c = None \<and> cl_strand c = []"
  by (simp add: Let_def case_prod_beta Client_configured_defs Client_sendPacket_def Client_enqueue_def
      Client_doWrite_def Client_onWrite_def Client_timer_defs sendPacket_pkt_frame turbo.enc_nonempty)

text \<open>After a failed write the transmit buffer is not empty and no write is outstanding.\<close>

definition silenced :: "client \<Rightarrow> bool" where
  "silenced c \<longleftrightarrow> cl_txBuffer c \<noteq> [] \<and> cl_writing c = None"

lemma silenced_step:
  assumes "silenced c" and ok: "Client_ok c e"
  shows "silenced (fst (Client_step h c e))" and "StartWrite d \<notin> set (snd (Client_step h c e))"
proof -
  consider "\<not> sending_event e" | "e = RunPosted" | ec n where "e = WriteDone ec n"
    by (cases e) auto
  then have "silenced (fst (Client_step h c e)) \<and> StartWrite d \<notin> set (snd (Client_step h c e))"
  proof cases
    case 1
    with assms Client_step_other [OF 1, of h c] show ?thesis by (auto simp: silenced_def cl_tx_def)
  next
    case 2
    with ok obtain pkt rest where strand: "cl_strand c = pkt # rest" by (auto simp: neq_Nil_conv)
    with assms 2 Client_step_RunPosted(2,4) [OF strand, where h = h] show ?thesis
      by (auto simp: silenced_def cl_tx_def simp del: Client_step.simps)
  next
    case (3 ec n)
    with assms show ?thesis by (simp add: silenced_def)
  qed
  then show "silenced (fst (Client_step h c e))" and "StartWrite d \<notin> set (snd (Client_step h c e))"
    by simp_all
qed

interpretation client_silenced: machine "Client_step h" Client_ok silenced for h
  by unfold_locales (rule silenced_step(1))

text \<open>
  Once a write has failed, the client never starts a write again, whatever it is asked to
  send and even if it connects again: in every continuation that Boost.Asio allows, no write is
  started.
\<close>

theorem client_silent_after_failed_write:
  assumes "allowed Client_ok (Client_step h) (Client_configured r w t i b p m k) (es @ [WriteDone (Some err) n] @ es')"
    and "c = fst (run (Client_step h) (Client_configured r w t i b p m k) (es @ [WriteDone (Some err) n]))"
  shows "StartWrite d \<notin> set (snd (run (Client_step h) c es'))"
proof -
  let ?c0 = "Client_configured r w t i b p m k"
  let ?c1 = "fst (run (Client_step h) ?c0 es)"
  have ok: "allowed Client_ok (Client_step h) ?c0 es" "Client_ok ?c1 (WriteDone (Some err) n)"
    and rest: "allowed Client_ok (Client_step h) (fst (Client_step h ?c1 (WriteDone (Some err) n))) es'"
    using assms(1) by (simp_all add: allowed_append del: Client_step.simps Client_ok.simps)
  have c: "c = fst (Client_step h ?c1 (WriteDone (Some err) n))"
    using assms(2) by (simp add: run_append case_prod_beta del: Client_step.simps)
  obtain wr where wr: "cl_writing ?c1 = Some wr"
    using ok(2) by (auto split: option.splits)
  moreover have "client_inv ?c1"
    using client.run_inv [OF client_inv_configured ok(1)] .
  ultimately have "cl_txBuffer ?c1 \<noteq> []"
    by (auto simp: client_inv_def)
  then have "silenced c"
    unfolding c silenced_def using Client_step_WriteDone(2) [OF wr, of h "Some err" n]
    by (simp add: cl_tx_def del: Client_step.simps)
  show ?thesis
  proof
    assume "StartWrite d \<in> set (snd (run (Client_step h) c es'))"
    with client_silenced.run_outputs [of h "\<lambda>x. x \<noteq> StartWrite d", OF _ \<open>silenced c\<close> rest [folded c]]
    show False using silenced_step(2) by blast
  qed
qed

theorem client_silent_after_failed_write_witness:
  "let c = fst (sample_run ([sample_send, RunPosted] @ [WriteDone (Some operation_aborted) 0]));
       d = cl_txBuffer c
   in cl_strand (fst (run (Client_step LittleEndian) c [sample_send, RunPosted])) = [] \<and>
      StartWrite d \<notin> set (snd (run (Client_step LittleEndian) c [sample_send, RunPosted]))"
proof -
  let ?es = "[sample_send, RunPosted]"
  let ?c = "fst (sample_run (?es @ [WriteDone (Some operation_aborted) 0]))"
  have "allowed Client_ok (Client_step LittleEndian) plain_client
      (?es @ [WriteDone (Some operation_aborted) 0] @ ?es)" by code_simp
  moreover have "cl_strand (fst (run (Client_step LittleEndian) ?c ?es)) = []" by code_simp
  ultimately show ?thesis
    using client_silent_after_failed_write
      [of LittleEndian 0 0 0 "[]" None None None False ?es operation_aborted 0 ?es ?c "cl_txBuffer ?c"]
    by (simp only: Let_def simp_thms)
qed

end
