(* ===== verification/TurboClientReceive.thy ===== *)
theory TurboClientReceive
  imports TurboClientSend
begin

text \<open>
  The receiving side of \<open>TurboNetClient\<close> as a receiver of packets: whatever packets the peer
  sends, the callbacks are invoked for them in order, once each, with the fields the peer has
  encoded. The proof goes through the locale \<open>framed_reader\<close>, interpreted on the read handlers.
\<close>

section \<open>The receiver\<close>

fun Client_want :: "client \<Rightarrow> nat option" where
  "Client_want c = (case cl_reading c of
     None \<Rightarrow> None | Some RdHeader \<Rightarrow> Some 10 | Some (RdBody n) \<Rightarrow> Some n)"

definition Client_deliver :: "endian \<Rightarrow> client \<Rightarrow> bytes \<Rightarrow> client \<times> client_effect list" where
  "Client_deliver h c d = (case cl_reading c of
     Some (RdBody n) \<Rightarrow> Client_step h c (BodyRead None d)
   | _ \<Rightarrow> Client_step h c (HeaderRead None d))"

fun packet_call :: "client_effect \<Rightarrow> client_effect option" where
  "packet_call (CallBind s) = Some (CallBind s)"
| "packet_call (CallPacket p s q d) = Some (CallPacket p s q d)"
| "packet_call _ = None"

definition packet_calls :: "client_effect list \<Rightarrow> client_effect list" where
  "packet_calls os = List.map_filter packet_call os"

lemma packet_calls_simps [simp]:
  "packet_calls [] = []"
  "packet_calls (x # os) = (case packet_call x of None \<Rightarrow> packet_calls os | Some y \<Rightarrow> y # packet_calls os)"
  "packet_calls (os @ os') = packet_calls os @ packet_calls os'"
  by (auto simp: packet_calls_def List.map_filter_def split: option.splits)

text \<open>The callbacks that one packet causes.\<close>

definition callbacks_for ::
  "(string \<Rightarrow> api_call list) option \<Rightarrow> (u8 \<Rightarrow> u8 \<Rightarrow> u32 \<Rightarrow> bytes \<Rightarrow> api_call list) option \<Rightarrow> frame
   \<Rightarrow> client_effect list" where
  "callbacks_for b p f =
     (if f_pid f = 0x81 \<and> b \<noteq> None then [CallBind (string_of (f_body f))] else []) @
     (if p \<noteq> None then [CallPacket (f_pid f) (f_status f) (f_seq f) (f_body f)] else [])"

text \<open>Callbacks that do not close the client.\<close>

definition stays_open :: "('a \<Rightarrow> api_call list) option \<Rightarrow> bool" where
  "stays_open cb \<longleftrightarrow> (\<forall>f x. cb = Some f \<longrightarrow> ApiClose \<notin> set (f x))"

definition stays_open4 :: "('a \<Rightarrow> 'b \<Rightarrow> 'c \<Rightarrow> 'd \<Rightarrow> api_call list) option \<Rightarrow> bool" where
  "stays_open4 cb \<longleftrightarrow> (\<forall>f w x y z. cb = Some f \<longrightarrow> ApiClose \<notin> set (f w x y z))"

definition receive_idle ::
  "(string \<Rightarrow> api_call list) option \<Rightarrow> (u8 \<Rightarrow> u8 \<Rightarrow> u32 \<Rightarrow> bytes \<Rightarrow> api_call list) option \<Rightarrow> client \<Rightarrow> bool" where
  "receive_idle b p c \<longleftrightarrow> cl_running c \<and> cl_reading c = Some RdHeader \<and> length (cl_headerBuf c) = 10
     \<and> cl_onBind c = b \<and> cl_onPacket c = p \<and> stays_open b \<and> stays_open4 p"

section \<open>What callbacks change\<close>

lemma Client_call_running [simp]:
  "cl_running (fst (Client_call h a c)) \<longleftrightarrow> a \<noteq> ApiClose \<and> cl_running c"
  by (cases a) (auto simp: Client_sendRequest_def Let_def Client_close_def)

lemma Client_call_no_packet [simp]: "packet_calls (snd (Client_call h a c)) = []"
  by (cases a) (simp_all add: Client_sendRequest_def Client_sendPacket_def Client_startResponseTimer_def
      Client_close_def Client_timer_defs Let_def)

lemma Client_calls_running:
  "ApiClose \<notin> set as \<Longrightarrow> cl_running (fst (seqs (map (Client_call h) as) c)) = cl_running c"
  by (induction as arbitrary: c) auto

lemma Client_calls_no_packet [simp]: "packet_calls (snd (seqs (map (Client_call h) as) c)) = []"
  by (induction as arbitrary: c) simp_all

lemma Client_callback_running:
  "(\<And>f. cb = Some f \<Longrightarrow> ApiClose \<notin> set (app f)) \<Longrightarrow>
     cl_running (fst (Client_callback h app x cb c)) = cl_running c"
  by (cases cb) (simp_all add: Client_callback_def Client_calls_running)

lemma Client_callback_packets [simp]:
  "packet_calls (snd (Client_callback h app x cb c)) =
     (if cb = None then [] else case packet_call x of None \<Rightarrow> [] | Some y \<Rightarrow> [y])"
  by (cases cb) (simp_all add: Client_callback_def split: option.splits)

section \<open>One packet\<close>

lemma Client_deliver_header:
  assumes idle: "receive_idle b p c" and wf: "wf_frame f"
    and hdr: "hdr = frame_header (of_nat (10 + length (f_body f))) (f_pid f) (f_status f) (f_seq f)"
  obtains c' os where "Client_deliver h c hdr = (c', os)" and "packet_calls os = []"
    and "cl_reading c' = Some (RdBody (length (f_body f)))" and "length (cl_bodyBuf c') = length (f_body f)"
    and "cl_headerBuf c' = hdr" and "cl_lastPacketId c' = f_pid f" and "cl_lastStatus c' = f_status f"
    and "cl_lastSequence c' = f_seq f" and "cl_running c'" and "cl_onBind c' = b" and "cl_onPacket c' = p"
proof
  let ?r = "Client_step h c (HeaderRead None hdr)"
  have len: "unat (of_nat (10 + length (f_body f)) - 10 :: u32) = length (f_body f)"
    using wf by (rule wf_frame_body)
  have ge: "(10 :: u32) \<le> of_nat (10 + length (f_body f))"
    using wf_frame_total [OF wf] by (simp add: word_le_nat_alt)
  note defs = Client_onReadHeader_def Client_doReadBody_def Let_def receive_idle_def
  show "Client_deliver h c hdr = (fst ?r, snd ?r)"
    using idle by (simp add: Client_deliver_def receive_idle_def del: Client_step.simps)
  show "packet_calls (snd ?r) = []"
    using idle ge by (simp add: defs hdr)
  show "cl_reading (fst ?r) = Some (RdBody (length (f_body f)))"
    "length (cl_bodyBuf (fst ?r)) = length (f_body f)"
    using idle ge len by (simp_all add: defs hdr)
  show "cl_headerBuf (fst ?r) = hdr" "cl_lastPacketId (fst ?r) = f_pid f"
    "cl_lastStatus (fst ?r) = f_status f" "cl_lastSequence (fst ?r) = f_seq f"
    "cl_running (fst ?r)" "cl_onBind (fst ?r) = b" "cl_onPacket (fst ?r) = p"
    using idle ge by (simp_all add: defs hdr)
qed

lemma Client_deliver_body:
  assumes rd: "cl_reading c = Some (RdBody (length d))" and "length (cl_bodyBuf c) = length d"
    and "length (cl_headerBuf c) = 10" and "cl_running c" and "cl_onBind c = b" and "cl_onPacket c = p"
    and "stays_open b" and "stays_open4 p"
  shows "receive_idle b p (fst (Client_deliver h c d))"
    and "packet_calls (snd (Client_deliver h c d)) =
      callbacks_for b p \<lparr>f_pid = cl_lastPacketId c, f_status = cl_lastStatus c, f_seq = cl_lastSequence c, f_body = d\<rparr>"
proof -
  have r: "Client_deliver h c d = Client_step h c (BodyRead None d)"
    by (simp add: Client_deliver_def rd del: Client_step.simps)
  note defs = Client_onReadBody_def Client_doReadHeader_def Client_timer_defs Let_def
  show "receive_idle b p (fst (Client_deliver h c d))"
    using assms unfolding r
    by (simp add: defs receive_idle_def Client_callback_running stays_open_def stays_open4_def)
  show "packet_calls (snd (Client_deliver h c d)) =
      callbacks_for b p \<lparr>f_pid = cl_lastPacketId c, f_status = cl_lastStatus c, f_seq = cl_lastSequence c, f_body = d\<rparr>"
    using assms unfolding r by (simp add: defs callbacks_for_def)
qed

text \<open>A packet takes two reads and leaves the receiver idle again.\<close>

lemma Client_one_frame:
  assumes idle: "receive_idle b p c" and wf: "wf_frame f"
  shows "\<exists>c' os. feed Client_want (Client_deliver h) 2 c (encode_frame f @ rest) = (c', os, rest)
    \<and> receive_idle b p c' \<and> packet_calls os = callbacks_for b p f"
proof -
  let ?hdr = "frame_header (of_nat (10 + length (f_body f))) (f_pid f) (f_status f) (f_seq f)"
  obtain c1 o1 where d1: "Client_deliver h c ?hdr = (c1, o1)" and o1: "packet_calls o1 = []"
    and rd: "cl_reading c1 = Some (RdBody (length (f_body f)))" "length (cl_bodyBuf c1) = length (f_body f)"
    and last: "cl_headerBuf c1 = ?hdr" "cl_lastPacketId c1 = f_pid f" "cl_lastStatus c1 = f_status f"
      "cl_lastSequence c1 = f_seq f" and cfg: "cl_running c1" "cl_onBind c1 = b" "cl_onPacket c1 = p"
    using Client_deliver_header [OF idle wf refl, of h thesis] by blast
  have so: "stays_open b" "stays_open4 p" using idle by (simp_all add: receive_idle_def)
  obtain c2 o2 where d2: "Client_deliver h c1 (f_body f) = (c2, o2)" by (rule prod.exhaust)
  have "feed Client_want (Client_deliver h) 2 c (encode_frame f @ rest) = (c2, o1 @ o2, rest)"
    using idle by (simp add: numeral_2_eq_2 encode_frame_def receive_idle_def d1 d2 rd del: of_nat_add)
  moreover have "receive_idle b p c2 \<and> packet_calls o2 = callbacks_for b p f"
    using Client_deliver_body [of c1 "f_body f" b p h] rd last cfg so d2 by simp
  ultimately show ?thesis using o1 by (intro exI conjI) (assumption, simp_all)
qed

interpretation client_reader: framed_reader Client_want "Client_deliver h" encode_frame wf_frame
    "\<lambda>_. 2" "receive_idle b p" "\<lambda>_. ()" packet_call "\<lambda>_ f. ((), callbacks_for b p f)" for h b p
  using Client_one_frame [of b p] by unfold_locales (simp add: packet_calls_def)

lemma run_callbacks: "run (\<lambda>_ f. ((), g f)) u fs = ((), concat (map g fs))"
  by (induction fs arbitrary: u) (simp_all add: prod_eq_iff)

section \<open>The stream\<close>

lemma receive_idle_connected:
  assumes "stays_open b" and "stays_open4 p" and "stays_open f"
  shows "receive_idle b p (fst (run (Client_step h) (Client_configured r w t i b p m k)
           [DoConnect host port tm f True, ConnectDone None]))"
  using assms
  by (auto simp: receive_idle_def Client_configured_defs Client_connect_def Client_onConnect_def
      Client_doReadHeader_def Client_callback_running stays_open_def Let_def)

text \<open>
  A client that has connected receives any sequence of packets of the format, in whatever
  way the handlers are set, as long as they do not close it: it takes exactly the bytes of the
  packets off the stream, two reads per packet, and invokes the bind and packet callbacks in
  the order of the packets, once for each, with the fields that the peer encoded; bind responses
  (packet id \<open>0x81\<close>) reach the bind callback first and then the packet callback.
\<close>

theorem client_receives_stream:
  assumes "stays_open b" and "stays_open4 p" and "stays_open f" and "list_all wf_frame fs"
    and "c = fst (run (Client_step h) (Client_configured r w t i b p m k)
               [DoConnect host port tm f True, ConnectDone None])"
  shows "\<exists>c' os. feed Client_want (Client_deliver h) (2 * length fs) c (wire encode_frame fs @ rest) = (c', os, rest)
    \<and> receive_idle b p c' \<and> packet_calls os = concat (map (callbacks_for b p) fs)"
proof -
  have "receive_idle b p c"
    unfolding assms(5) by (rule receive_idle_connected [OF assms(1-3)])
  from client_reader.many_frames [OF this assms(4), of h rest] show ?thesis
    by (simp add: run_callbacks packet_calls_def sum_list_triv mult.commute)
qed

theorem client_receives_stream_witness:
  "let b = Some (\<lambda>s. [ApiSendPacket 2 0 1 (bytes_of s)]); p = Some (\<lambda>pid st sq d. []);
       c = fst (run (Client_step LittleEndian) (Client_configured 0 0 0 [] b p None False)
                 [DoConnect ''h'' 1 0 None True, ConnectDone None]);
       f = \<lparr>f_pid = 0x81, f_status = 0, f_seq = 1, f_body = bytes_of ''s''\<rparr>;
       g = \<lparr>f_pid = 0x82, f_status = 0, f_seq = 2, f_body = []\<rparr>
   in \<exists>c' os. feed Client_want (Client_deliver LittleEndian) 4 c (wire encode_frame [f, g] @ [9]) = (c', os, [9])
        \<and> packet_calls os = [CallBind ''s'', CallPacket 0x81 0 1 (bytes_of ''s''), CallPacket 0x82 0 2 []]"
proof -
  let ?b = "Some (\<lambda>s. [ApiSendPacket 2 0 1 (bytes_of s)])" and ?p = "Some (\<lambda>pid st sq d. [])"
  let ?f = "\<lparr>f_pid = 0x81, f_status = 0, f_seq = 1, f_body = bytes_of ''s''\<rparr>"
  let ?g = "\<lparr>f_pid = 0x82, f_status = 0, f_seq = 2, f_body = []\<rparr>"
  have "stays_open ?b" "stays_open4 ?p" "stays_open (None :: (error_code \<Rightarrow> api_call list) option)"
    "list_all wf_frame [?f, ?g]"
    by (auto simp: stays_open_def stays_open4_def wf_frame_def)
  from client_receives_stream [OF this refl, of LittleEndian 0 0 0 "[]" None False "''h''" 1 0 "[9]"]
  show ?thesis by (auto simp: callbacks_for_def Let_def simp del: feed.simps)
qed

text \<open>
  A header whose length field is below the header size is skipped: no callback runs, no body
  is read, and the next header is read.
\<close>

theorem client_skips_short_header:
  assumes "Client_ok c (HeaderRead None d)" and "length (cl_headerBuf c) = 10" and "fromBigEndian h d < 10"
  shows "cl_reading (fst (Client_step h c (HeaderRead None d))) = Some RdHeader
    \<and> cl_bodyBuf (fst (Client_step h c (HeaderRead None d))) = cl_bodyBuf c
    \<and> packet_calls (snd (Client_step h c (HeaderRead None d))) = []"
proof -
  have "\<not> 10 \<le> fromBigEndian h d" using assms(3) by simp
  moreover have "length d = 10" "cl_reading c = Some RdHeader" using assms(1) by simp_all
  ultimately show ?thesis
    using assms(2)
    by (simp add: Client_onReadHeader_def Client_doReadHeader_def Client_timer_defs Let_def)
qed

theorem client_skips_short_header_witness:
  "let c = (fst (sample_run [DoConnect ''h'' 1 0 None True, ConnectDone None])); d = replicate 10 0
   in Client_ok c (HeaderRead None d) \<and>
      cl_reading (fst (Client_step LittleEndian c (HeaderRead None d))) = Some RdHeader"
proof -
  let ?c = "fst (sample_run [DoConnect ''h'' 1 0 None True, ConnectDone None])" and ?d = "replicate 10 (0 :: u8)"
  have "Client_ok ?c (HeaderRead None ?d)" by code_simp
  moreover have "length (cl_headerBuf ?c) = 10" by code_simp
  moreover have "fromBigEndian LittleEndian ?d < 10" by code_simp
  ultimately show ?thesis
    using client_skips_short_header [of ?c ?d LittleEndian] by (simp only: Let_def simp_thms)
qed

end
