(* ===== verification/TurboClientStream.thy ===== *)
theory TurboClientStream
  imports TurboClientReceive
begin

text \<open>
  What \<open>TurboNetClient\<close> receives, in every run: read completions come among timers, writes, calls
  of the application and posted closures, reads fail at any point, and callbacks may close the
  client. The proof goes through the locale \<open>interleaved_reader\<close>, interpreted on \<open>Client_step\<close>.
\<close>

section \<open>The client\<close>

fun Client_read :: "client_event \<Rightarrow> (error_code \<times> bytes) option" where
  "Client_read (HeaderRead ec d) = Some (ec, d)"
| "Client_read (BodyRead ec d) = Some (ec, d)"
| "Client_read _ = None"

text \<open>One connection: the application does not connect again.\<close>

fun one_connection :: "client \<Rightarrow> client_event \<Rightarrow> bool" where
  "one_connection c (DoConnect _ _ _ _ _) = False"
| "one_connection c e = Client_ok c e"

lemma one_connection_ok: "one_connection c e \<Longrightarrow> Client_ok c e"
  by (cases e) simp_all

definition client_rx ::
  "(string \<Rightarrow> api_call list) option \<Rightarrow> (u8 \<Rightarrow> u8 \<Rightarrow> u32 \<Rightarrow> bytes \<Rightarrow> api_call list) option \<Rightarrow> client \<Rightarrow> bool" where
  "client_rx b p c \<longleftrightarrow> client_inv c \<and> \<not> cl_connecting c \<and> cl_onBind c = b \<and> cl_onPacket c = p"

definition client_rd ::
  "(string \<Rightarrow> api_call list) option \<Rightarrow> (u8 \<Rightarrow> u8 \<Rightarrow> u32 \<Rightarrow> bytes \<Rightarrow> api_call list) option
   \<Rightarrow> client \<times> bool \<Rightarrow> bytes \<Rightarrow> bool" where
  "client_rd b p cm q \<longleftrightarrow> client_rx b p (fst cm) \<and> \<not> snd cm \<and>
     (cl_reading (fst cm) = Some RdHeader \<and> q = []
      \<or> (\<exists>f. wf_frame f \<and> q = header_of f \<and> cl_reading (fst cm) = Some (RdBody (length (f_body f)))
           \<and> cl_last (fst cm) = (f_pid f, f_status f, f_seq f)))"

definition client_stopped ::
  "(string \<Rightarrow> api_call list) option \<Rightarrow> (u8 \<Rightarrow> u8 \<Rightarrow> u32 \<Rightarrow> bytes \<Rightarrow> api_call list) option
   \<Rightarrow> client \<times> bool \<Rightarrow> bool" where
  "client_stopped b p cm \<longleftrightarrow> client_rx b p (fst cm) \<and> (cl_reading (fst cm) = None \<or> snd cm)"

text \<open>Events that are no read completions leave the reading side alone.\<close>

lemma Client_step_elsewhere:
  assumes "Client_read e = None" and "one_connection c e" and "\<not> cl_connecting c"
  shows "cl_reading (fst (Client_step h c e)) = cl_reading c" "cl_last (fst (Client_step h c e)) = cl_last c"
    "cl_connecting (fst (Client_step h c e)) = cl_connecting c"
    "cl_onBind (fst (Client_step h c e)) = cl_onBind c" "cl_onPacket (fst (Client_step h c e)) = cl_onPacket c"
    "packet_calls (snd (Client_step h c e)) = []"
proof -
  have fires: "cl_last (fst (seqs (map (Client_fireTimeout h) ss) c)) = cl_last c
      \<and> packet_calls (snd (seqs (map (Client_fireTimeout h) ss) c)) = []" for ss c
    by (induction ss arbitrary: c) (simp_all add: Client_fireTimeout_def)
  have config: "cl_onBind c' = cl_onBind c \<and> cl_onPacket c' = cl_onPacket c" if "cl_config c' = cl_config c" for c'
    using that by (simp add: cl_config_def)
  note defs = Client_enqueue_def Client_doWrite_def Client_onWrite_def Client_timer_defs Client_reschedule_def
    Client_cancelResponseTimer_def Client_checkAndFireResponseTimers_def Let_def case_prod_beta
  show "cl_reading (fst (Client_step h c e)) = cl_reading c" "cl_connecting (fst (Client_step h c e)) = cl_connecting c"
    using assms by (cases e; auto simp: defs split: list.splits)+
  show "cl_last (fst (Client_step h c e)) = cl_last c"
    using assms by (cases e; auto simp: defs fires split: list.splits) (auto simp: cl_last_def)
  have "cl_config (fst (Client_step h c e)) = cl_config c"
    using assms by (cases e; auto simp: defs split: list.splits) (auto simp: cl_config_def)
  from config [OF this] show "cl_onBind (fst (Client_step h c e)) = cl_onBind c"
    "cl_onPacket (fst (Client_step h c e)) = cl_onPacket c" by (rule conjunct1, rule conjunct2)
  show "packet_calls (snd (Client_step h c e)) = []"
    using assms by (cases e; auto simp: defs fires split: list.splits)
qed

lemma client_rx_step:
  assumes "client_rx b p c" and "one_connection c e"
  shows "client_rx b p (fst (Client_step h c e))"
proof -
  have ok: "Client_ok c e" "\<not> cl_connecting c" "client_inv c"
    using assms by (cases e; simp add: client_rx_def)+
  have "\<not> cl_connecting (fst (Client_step h c e)) \<and> cl_onBind (fst (Client_step h c e)) = cl_onBind c
      \<and> cl_onPacket (fst (Client_step h c e)) = cl_onPacket c"
  proof (cases "Client_read e")
    case None
    with Client_step_elsewhere [OF None assms(2) ok(2), of h] ok(2) show ?thesis by simp
  next
    case (Some r)
    with ok(2) show ?thesis
      by (cases e) (simp_all add: Client_onReadHeader_def Client_onReadBody_def Client_doReadHeader_def
          Client_doReadBody_def Let_def)
  qed
  with assms(1) Client_step_inv [OF ok(3,1), of h] show ?thesis by (simp add: client_rx_def)
qed

interpretation client_rx: machine "Client_step h" one_connection "client_rx b p" for h b p
  by unfold_locales (rule client_rx_step)

text \<open>A header that has arrived.\<close>

lemma Client_step_header:
  assumes "wf_frame f" and "length (cl_headerBuf c) = 10"
  shows "cl_reading (fst (Client_step h c (HeaderRead None (header_of f)))) = Some (RdBody (length (f_body f)))"
    "cl_last (fst (Client_step h c (HeaderRead None (header_of f)))) = (f_pid f, f_status f, f_seq f)"
    "packet_calls (snd (Client_step h c (HeaderRead None (header_of f)))) = []"
proof -
  have len: "unat (of_nat (10 + length (f_body f)) - 10 :: u32) = length (f_body f)"
    using assms(1) by (rule wf_frame_body)
  have ge: "(10 :: u32) \<le> of_nat (10 + length (f_body f))"
    using wf_frame_total [OF assms(1)] by (simp add: word_le_nat_alt)
  note defs = Client_onReadHeader_def Client_doReadBody_def Let_def header_of_def cl_last_def
  show "cl_reading (fst (Client_step h c (HeaderRead None (header_of f)))) = Some (RdBody (length (f_body f)))"
    "cl_last (fst (Client_step h c (HeaderRead None (header_of f)))) = (f_pid f, f_status f, f_seq f)"
    "packet_calls (snd (Client_step h c (HeaderRead None (header_of f)))) = []"
    using assms(2) ge len by (simp_all add: defs)
qed

text \<open>A body that has arrived: the callbacks of the packet, then the next header unless one of them has closed the client.\<close>

lemma Client_step_body:
  assumes "cl_last c = (f_pid f, f_status f, f_seq f)" and "length (cl_bodyBuf c) = length (f_body f)"
  shows "packet_calls (snd (Client_step h c (BodyRead None (f_body f)))) = callbacks_for (cl_onBind c) (cl_onPacket c) f"
    "cl_reading (fst (Client_step h c (BodyRead None (f_body f)))) \<in> {None, Some RdHeader}"
  using assms
  by (simp_all add: Client_onReadBody_def Client_doReadHeader_def Client_timer_defs Let_def callbacks_for_def cl_last_def)

lemma Client_step_failed:
  assumes "Client_read e = Some (Some x, d)"
  shows "packet_calls (snd (Client_step h c e)) = []"
  using assms
  by (cases e) (simp_all add: Client_onReadHeader_def Client_onReadBody_def Client_doReadHeader_def Client_timer_defs)

lemma client_rd_cases:
  assumes "client_rd b p cm q" and "wf_frame f" and "prefix q (encode_frame f)"
  obtains (header) "cl_reading (fst cm) = Some RdHeader" "q = []"
    | (body) "cl_reading (fst cm) = Some (RdBody (length (f_body f)))" "q = header_of f"
        "cl_last (fst cm) = (f_pid f, f_status f, f_seq f)"
proof (cases "cl_reading (fst cm) = Some RdHeader")
  case True
  with assms(1) header show ?thesis by (auto simp: client_rd_def)
next
  case False
  with assms(1) obtain g where g: "wf_frame g" "q = header_of g" "cl_reading (fst cm) = Some (RdBody (length (f_body g)))"
      "cl_last (fst cm) = (f_pid g, f_status g, f_seq g)"
    by (auto simp: client_rd_def)
  with assms(3) have "header_of g = header_of f"
    using prefix_10_header [of "header_of g" f "[]"] by simp
  with g header_of_eqD [OF this g(1) assms(2)] body show ?thesis by simp
qed

lemma Client_read_cases:
  obtains (other) "Client_read e = None" | (failed) x d where "Client_read e = Some (Some x, d)"
    | (header) d where "e = HeaderRead None d" | (body) d where "e = BodyRead None d"
proof (cases "Client_read e")
  case (Some r)
  then show ?thesis by (cases e; cases "fst r") (auto intro: that)
qed (rule that(1))

lemma client_rd_step:
  assumes rd: "client_rd b p cm q" and ok: "marked_ok (dead_read Client_read) one_connection cm e"
    and wf: "wf_frame f" and q: "prefix q (encode_frame f)"
    and more: "prefix (q @ got_of Client_read e) (encode_frame f @ rest)"
  shows "let cm' = fst (marked (failed_read Client_read) (Client_step h) cm e);
             os = snd (marked (failed_read Client_read) (Client_step h) cm e) in
      prefix (q @ got_of Client_read e) (encode_frame f)
        \<and> (client_rd b p cm' (q @ got_of Client_read e) \<or> client_stopped b p cm') \<and> packet_calls os = []
      \<or> q @ got_of Client_read e = encode_frame f \<and> (client_rd b p cm' [] \<or> client_stopped b p cm')
        \<and> packet_calls os = callbacks_for b p f"
proof -
  obtain c where cm: "cm = (c, False)" using rd by (cases cm) (simp add: client_rd_def)
  with rd ok have rx: "client_rx b p c" and ok: "one_connection c e" by (simp_all add: client_rd_def)
  let ?c = "fst (Client_step h c e)" and ?o = "snd (Client_step h c e)"
  have rx': "client_rx b p ?c" using client_rx_step [OF rx ok] .
  from rx have inv: "client_inv c" "\<not> cl_connecting c" "cl_onBind c = b" "cl_onPacket c = p"
    by (simp_all add: client_rx_def)
  show ?thesis
  proof (cases rule: Client_read_cases [of e])
    case other
    with rd rx' Client_step_elsewhere [OF other ok inv(2), of h] q show ?thesis
      by (simp add: cm client_rd_def got_of_def failed_read_def)
  next
    case (failed x d)
    have "prefix (q @ d) (encode_frame f)"
      using rd wf q
    proof (cases rule: client_rd_cases)
      case header
      with failed ok have "length d \<le> 10" by (cases e) (simp_all add: cm)
      with prefix_short_header [of d f rest] header failed more show ?thesis by (simp add: got_of_def)
    next
      case body
      with failed ok have "length d \<le> length (f_body f)" by (cases e) (simp_all add: cm)
      with body failed more show ?thesis
        using prefix_header_body [of f d rest] by (simp add: got_of_def encode_frame_header)
    qed
    with failed rx' Client_step_failed [OF failed, of h c] show ?thesis
      by (simp add: cm client_stopped_def got_of_def failed_read_def)
  next
    case (header d)
    with ok rd have d: "length d = 10" "q = []" by (auto simp: cm client_rd_def)
    with more header have "d = header_of f" by (simp add: got_of_def prefix_10_header)
    moreover have "length (cl_headerBuf c) = 10" using inv(1) by (simp add: client_inv_def)
    ultimately show ?thesis
      using header d wf rx' Client_step_header [OF wf, of c h]
      by (auto simp: cm client_rd_def got_of_def failed_read_def encode_frame_header Let_def
          simp del: Client_step.simps)
  next
    case (body d)
    from rd wf q have last: "q = header_of f" "length d = length (f_body f)" "cl_last c = (f_pid f, f_status f, f_seq f)"
      by (cases rule: client_rd_cases; use ok body in \<open>auto simp: cm\<close>)+
    with more body have "d = f_body f"
      using prefix_header_body [of f d rest] by (auto simp: got_of_def prefix_def)
    moreover have "length (cl_bodyBuf c) = length d"
      using inv(1) ok body by (auto simp: client_inv_def split: option.splits read_op.splits)
    ultimately show ?thesis
      using Client_step_body [OF last(3), of h] body rx' inv(3,4) last(1)
      by (auto simp: cm client_rd_def client_stopped_def got_of_def failed_read_def
          encode_frame_header Let_def simp del: Client_step.simps)
  qed
qed

lemma client_stopped_step:
  assumes "client_stopped b p cm" and ok: "marked_ok (dead_read Client_read) one_connection cm e"
  shows "got_of Client_read e = [] \<and> client_stopped b p (fst (marked (failed_read Client_read) (Client_step h) cm e))
    \<and> packet_calls (snd (marked (failed_read Client_read) (Client_step h) cm e)) = []"
proof -
  obtain c m where cm: "cm = (c, m)" by (cases cm)
  with assms have c: "client_rx b p c" "one_connection c e" "cl_reading c = None \<or> m" "m \<longrightarrow> dead_read Client_read e"
    by (simp_all add: client_stopped_def)
  have rx': "client_rx b p (fst (Client_step h c e))" using client_rx_step [OF c(1,2)] .
  show ?thesis
  proof (cases rule: Client_read_cases [of e])
    case other
    with c rx' Client_step_elsewhere [OF other c(2), of h] show ?thesis
      by (auto simp: cm client_stopped_def got_of_def client_rx_def)
  next
    case (failed x d)
    moreover from this c(2,3) have m by (cases e) (auto split: option.splits)
    ultimately show ?thesis
      using c(4) rx' Client_step_failed [OF failed, of h c]
      by (simp add: cm client_stopped_def got_of_def dead_read_def)
  qed (use c(2-4) in \<open>auto simp: dead_read_def split: option.splits\<close>)
qed

lemma client_rd_unique: "client_rd b p cm q \<Longrightarrow> client_rd b p cm q' \<Longrightarrow> q = q'"
  by (auto simp: client_rd_def header_of_def)

interpretation client_stream: interleaved_reader
    "marked (failed_read Client_read) (Client_step h)" "marked_ok (dead_read Client_read) one_connection"
    "got_of Client_read" encode_frame wf_frame "client_rd b p" "client_stopped b p" "\<lambda>_. ()" packet_call
    "\<lambda>_ f. ((), callbacks_for b p f)" for h b p
proof (unfold_locales, goal_cases)
  case (1 s q e f rest)
  from client_rd_step [OF this, of h] show ?case by (simp add: packet_calls_def Let_def)
next
  case 2
  have "wf_frame \<lparr>f_pid = 0, f_status = 0, f_seq = 0, f_body = []\<rparr>" by (simp add: wf_frame_def)
  then show ?case using turbo.enc_nonempty by blast
next
  case (3 s e)
  from client_stopped_step [OF this, of h] show ?case by (simp add: packet_calls_def)
next
  case (4 s q)
  then show ?case by (auto simp: client_rd_def client_stopped_def)
next
  case (5 s q q')
  then show ?case by (rule client_rd_unique)
qed

text \<open>A client right after its connection has been established.\<close>

lemma Client_step_handlers:
  "cl_onBind (fst (Client_step h c e)) = cl_onBind c \<and> cl_onPacket (fst (Client_step h c e)) = cl_onPacket c"
proof -
  have fires: "cl_onBind (fst (seqs (map (Client_fireTimeout h) ss) c)) = cl_onBind c
      \<and> cl_onPacket (fst (seqs (map (Client_fireTimeout h) ss) c)) = cl_onPacket c" for ss c
    using Client_fires_views(2) [of h ss c] by (simp add: cl_config_def)
  have call: "cl_onBind (fst (Client_call h a c)) = cl_onBind c \<and> cl_onPacket (fst (Client_call h a c)) = cl_onPacket c" for a c
    using Client_call_views(2) [of h a c] by (simp add: cl_config_def)
  note defs = Client_connect_def Client_onConnect_def Client_doReadHeader_def Client_doReadBody_def Client_onReadHeader_def
    Client_onReadBody_def Client_enqueue_def Client_doWrite_def Client_onWrite_def
    Client_cancelResponseTimer_def Client_checkAndFireResponseTimers_def Let_def case_prod_beta
  show ?thesis
    by (cases e; simp add: defs fires call split: list.splits)
qed

interpretation client_handlers: machine "Client_step h" Client_ok "\<lambda>c. cl_onBind c = b \<and> cl_onPacket c = p" for h b p
  by unfold_locales (simp add: Client_step_handlers)

lemma client_connected_rd:
  assumes "allowed Client_ok (Client_step h) (Client_configured r w t i b p m k) (es @ [ConnectDone None])"
  shows "client_rd b p (fst (run (Client_step h) (Client_configured r w t i b p m k) (es @ [ConnectDone None])), False) []"
proof -
  let ?new = "Client_configured r w t i b p m k"
  let ?c = "fst (run (Client_step h) ?new es)"
  have ok: "allowed Client_ok (Client_step h) ?new es" "cl_connecting ?c"
    using assms unfolding allowed_append by simp_all
  have inv: "client_inv ?c" by (rule client.run_inv [OF client_inv_configured ok(1)])
  have "cl_onBind ?c = b \<and> cl_onPacket ?c = p"
    using client_handlers.run_inv [where s = ?new and es = es and h = h and b = b and p = p] ok(1)
    by (simp add: Client_configured_defs)
  with Client_step_inv [OF inv, of "ConnectDone None" h] ok(2) show ?thesis
    using Client_step_handlers [of h ?c "ConnectDone None"]
    by (simp add: run_append case_prod_beta client_rd_def client_rx_def)
      (simp add: Client_onConnect_def Client_doReadHeader_def Let_def)
qed

text \<open>What a run on one connection has handled.\<close>

lemma client_run_handled:
  assumes conn: "allowed Client_ok (Client_step h) (Client_configured r w t i b p m k) (es @ [ConnectDone None])"
    and c: "c = fst (run (Client_step h) (Client_configured r w t i b p m k) (es @ [ConnectDone None]))"
    and ok: "allowed one_connection (Client_step h) c es'" and fails: "fails_for_good Client_read es'"
    and wf: "list_all wf_frame fs" and rx: "prefix (received (got_of Client_read) es') (wire encode_frame fs)"
    and r: "run (Client_step h) c es' = (c', os)"
  shows "\<exists>n. handled encode_frame (\<lambda>_ f. ((), callbacks_for b p f)) () fs (received (got_of Client_read) es')
    (cl_reading c' = Some RdHeader \<and> \<not> list_ex (failed_read Client_read) es') ((), packet_calls os) n"
proof -
  have rd: "client_rd b p (c, False) []" unfolding c using conn by (rule client_connected_rd)
  have "allowed (marked_ok (dead_read Client_read) one_connection)
      (marked (failed_read Client_read) (Client_step h)) (c, False) es'"
    using ok fails by (simp add: allowed_marked)
  from client_stream.run_handled [OF rd this wf] rx obtain n where
    n: "handled encode_frame (\<lambda>_ f. ((), callbacks_for b p f)) () fs (received (got_of Client_read) es')
       (client_rd b p (c', list_ex (failed_read Client_read) es') []) ((), packet_calls os) n"
    by (auto simp: run_marked r packet_calls_def)
  have "client_rx b p c'"
    using client_rx.run_inv [OF _ ok, of b p] rd r by (simp add: client_rd_def)
  with n show ?thesis
    by (intro exI [of _ n]) (auto simp: handled_def client_rd_def)
qed

text \<open>
  C4: what the client receives on a connection. Take any run that Boost.Asio allows up to the
  completion of \<open>connect\<close>, and any run after it in which the application does not connect again:
  read completions, posted closures, writes, timeouts and calls of the application in any order,
  reads failing at any point (no byte follows a failed read). If the bytes that arrive are a
  prefix of a stream of packets of the format, then the bind and packet callbacks invoked so far
  are those of the first \<open>n\<close> packets, in order, once each, with the fields that the peer encoded;
  the bytes taken beyond these packets belong to the next one, and while the client waits for a
  header there are none: no packet that has arrived completely is withheld.
\<close>

theorem client_receives_in_any_run:
  assumes conn: "allowed Client_ok (Client_step h) (Client_configured r w t i b p m k) (es @ [ConnectDone None])"
    and c: "c = fst (run (Client_step h) (Client_configured r w t i b p m k) (es @ [ConnectDone None]))"
    and ok: "allowed one_connection (Client_step h) c es'" and fails: "fails_for_good Client_read es'"
    and wf: "list_all wf_frame fs" and rx: "prefix (received (got_of Client_read) es') (wire encode_frame fs)"
    and r: "run (Client_step h) c es' = (c', os)"
  shows "\<exists>n \<le> length fs. packet_calls os = concat (map (callbacks_for b p) (take n fs))
    \<and> prefix (wire encode_frame (take n fs)) (received (got_of Client_read) es')
    \<and> prefix (received (got_of Client_read) es') (wire encode_frame (take (Suc n) fs))
    \<and> (cl_reading c' = Some RdHeader \<and> \<not> list_ex (failed_read Client_read) es' \<longrightarrow>
         received (got_of Client_read) es' = wire encode_frame (take n fs))"
  using client_run_handled [OF assms] by (auto simp: handled_def run_callbacks)

theorem client_receives_in_any_run_witness:
  "let b = None; p = Some (\<lambda>pid st sq d. [ApiSendPacket 2 0 1 d]);
       s = Client_configured 0 0 0 [] b p None False;
       c = fst (run (Client_step LittleEndian) s ([DoConnect ''h'' 1 0 None True] @ [ConnectDone None]));
       f = \<lparr>f_pid = 0x82, f_status = 0, f_seq = 1, f_body = [7]\<rparr>;
       es = [HeaderRead None (header_of f), DoCall (ApiSendPacket 3 0 2 []), BodyRead None [7], RunPosted,
             HeaderRead (Some operation_aborted) [0, 0]];
       os = snd (run (Client_step LittleEndian) c es)
   in \<exists>n \<le> 2. packet_calls os = concat (map (callbacks_for b p) (take n [f, f])) \<and> packet_calls os = [CallPacket 0x82 0 1 [7]]"
proof -
  let ?p = "Some (\<lambda>pid st sq d. [ApiSendPacket 2 0 1 d])"
  let ?s = "Client_configured 0 0 0 [] None ?p None False"
  let ?es = "[DoConnect ''h'' 1 0 None True] @ [ConnectDone None]"
  let ?c = "fst (run (Client_step LittleEndian) ?s ?es)"
  let ?f = "\<lparr>f_pid = 0x82, f_status = 0, f_seq = 1, f_body = [7]\<rparr>"
  let ?es' = "[HeaderRead None (header_of ?f), DoCall (ApiSendPacket 3 0 2 []), BodyRead None [7], RunPosted,
             HeaderRead (Some operation_aborted) [0, 0]]"
  have 1: "allowed Client_ok (Client_step LittleEndian) ?s ?es" by code_simp
  have 2: "allowed one_connection (Client_step LittleEndian) ?c ?es'" by code_simp
  have 3: "fails_for_good Client_read ?es'" by code_simp
  have 4: "list_all wf_frame [?f, ?f]" by (simp add: wf_frame_def)
  have 5: "prefix (received (got_of Client_read) ?es') (wire encode_frame [?f, ?f])" by code_simp
  have calls: "packet_calls (snd (run (Client_step LittleEndian) ?c ?es')) = [CallPacket 0x82 0 1 [7]]" by code_simp
  from client_receives_in_any_run [OF 1 refl 2 3 4 5 prod.collapse [symmetric]] obtain n where
    n: "n \<le> length [?f, ?f]" "packet_calls (snd (run (Client_step LittleEndian) ?c ?es'))
      = concat (map (callbacks_for None ?p) (take n [?f, ?f]))" by blast
  from n(1) have "n \<le> 2" by simp
  with n(2) calls show ?thesis unfolding Let_def by blast
qed

end
