(* ===== verification/TurboServer.thy ===== *)
theory TurboServer
  imports TurboFrame Reader
begin

text \<open>
  \<open>TurboNetServer\<close> and its \<open>Session\<close> (\<open>turbonet_server.h\<close>, \<open>turbonet_server.cpp\<close>).

  A session object is named by its position in \<open>sv_objs\<close>, the list of all session objects created
  so far; \<open>sv_sessions\<close> is the set \<open>sessions_\<close> of the server. An object that has been erased from
  the set lives on as long as a completion handler refers to it. Each session records the read
  and the writes it has outstanding on its socket; the server records the accept operations it
  has outstanding and whether its acceptor is open.

  The request handler of the application is given by the replies it sends through \<open>respond\<close>
  before it returns; a reply it sends later is an event of its own.
\<close>

section \<open>State, effects and events\<close>

type_synonym reply = "u8 \<times> u8 \<times> u32 \<times> bytes"
type_synonym request_handler = "u8 \<Rightarrow> u8 \<Rightarrow> u32 \<Rightarrow> bytes \<Rightarrow> reply list"
type_synonym auth_handler = "string \<Rightarrow> bool"

record session =
  se_headerBuf :: bytes
  se_bodyBuf :: bytes
  se_authenticated :: bool
  \<comment> \<open>held by Boost.Asio for the session\<close>
  se_reading :: "read_op option"
  se_writing :: "bytes list"
  se_open :: bool

record server =
  sv_onRequest :: "request_handler option"
  sv_onAuth :: "auth_handler option"
  sv_sessions :: "nat list"
  sv_maxConnections :: nat
  sv_objs :: "session list"
  \<comment> \<open>held by Boost.Asio for the server\<close>
  sv_accepts :: nat
  sv_acceptorOpen :: bool

datatype server_effect =
    SvAsyncAccept
  | SvRefuse
  | SvAcceptorClose
  | SvSocketClose nat
  | SvStartRead nat read_op
  | SvWrite nat bytes
  | SvAuth nat string bool
  | SvRequest nat u8 u8 u32 bytes

type_synonym server_proc = "(server, server_effect) proc"

section \<open>Sessions\<close>

definition Session_new :: session where
  "Session_new = \<lparr>se_headerBuf = replicate 10 0, se_bodyBuf = [], se_authenticated = False,
     se_reading = None, se_writing = [], se_open = True\<rparr>"

definition with_session :: "nat \<Rightarrow> (session \<Rightarrow> session) \<Rightarrow> server \<Rightarrow> server" where
  "with_session i f sv = sv\<lparr>sv_objs := (sv_objs sv)[i := f (sv_objs sv ! i)]\<rparr>"

definition Server_removeSession :: "nat \<Rightarrow> server_proc" where
  "Server_removeSession i = modify (\<lambda>sv. sv\<lparr>sv_sessions := removeAll i (sv_sessions sv)\<rparr>)"

definition Session_doReadHeader :: "nat \<Rightarrow> server_proc" where
  "Session_doReadHeader i =
     seqs [modify (with_session i (\<lambda>s. s\<lparr>se_reading := Some RdHeader\<rparr>)), emit (SvStartRead i RdHeader)]"

definition Session_start :: "nat \<Rightarrow> server_proc" where
  "Session_start i = Session_doReadHeader i"

definition Session_doReadBody :: "nat \<Rightarrow> u32 \<Rightarrow> server_proc" where
  "Session_doReadBody i len =
     seqs [modify (with_session i (\<lambda>s. s\<lparr>se_bodyBuf := resize (unat len) (se_bodyBuf s)\<rparr>)),
           modify (with_session i (\<lambda>s. s\<lparr>se_reading := Some (RdBody (unat len))\<rparr>)),
           emit (SvStartRead i (RdBody (unat len)))]"

definition Session_onReadHeader :: "endian \<Rightarrow> nat \<Rightarrow> error_code \<Rightarrow> server_proc" where
  "Session_onReadHeader h i ec =
     (if ec \<noteq> None then Server_removeSession i
      else (\<lambda>sv. let headerBuf = se_headerBuf (sv_objs sv ! i);
                     tot = hdr_total h headerBuf;
                     bodyLen = tot - 10
                 in Session_doReadBody i bodyLen sv))"

text \<open>\<open>send\<close> starts a write whether or not one is outstanding.\<close>

definition Session_send :: "nat \<Rightarrow> bytes \<Rightarrow> server_proc" where
  "Session_send i message =
     seqs [modify (with_session i (\<lambda>s. s\<lparr>se_writing := se_writing s @ [message]\<rparr>)), emit (SvWrite i message)]"

text \<open>The \<open>respond\<close> callback of a session.\<close>

fun Session_respond :: "endian \<Rightarrow> nat \<Rightarrow> reply \<Rightarrow> server_proc" where
  "Session_respond h i (rpId, rpStatus, rpSeq, rpBody) = Session_send i (respond_msg h rpId rpStatus rpSeq rpBody)"

text \<open>The bind branch of \<open>onReadBody\<close>, and the branch of authenticated sessions.\<close>

definition Session_bind :: "endian \<Rightarrow> nat \<Rightarrow> server_proc" where
  "Session_bind h i sv =
     (let headerBuf = se_headerBuf (sv_objs sv ! i);
          cid = string_of (se_bodyBuf (sv_objs sv ! i))
      in case sv_onAuth sv of
           None \<Rightarrow> Server_removeSession i sv
         | Some onAuth \<Rightarrow>
             seqs [emit (SvAuth i cid (onAuth cid)),
                   if onAuth cid
                   then seqs [modify (with_session i (\<lambda>s. s\<lparr>se_authenticated := True\<rparr>)),
                              Session_send i (bind_resp h headerBuf)]
                   else Server_removeSession i] sv)"

definition Session_request :: "endian \<Rightarrow> nat \<Rightarrow> server_proc" where
  "Session_request h i sv =
     (let headerBuf = se_headerBuf (sv_objs sv ! i); bodyBuf = se_bodyBuf (sv_objs sv ! i)
      in case sv_onRequest sv of
           None \<Rightarrow> skip sv
         | Some onRequest \<Rightarrow>
             seqs (emit (SvRequest i (headerBuf ! 4) (headerBuf ! 5) (hdr_seq h headerBuf) bodyBuf)
                   # map (Session_respond h i)
                       (onRequest (headerBuf ! 4) (headerBuf ! 5) (hdr_seq h headerBuf) bodyBuf)) sv)"

definition Session_onReadBody :: "endian \<Rightarrow> nat \<Rightarrow> error_code \<Rightarrow> server_proc" where
  "Session_onReadBody h i ec =
     (if ec \<noteq> None then Server_removeSession i
      else seqs [(\<lambda>sv. let s = sv_objs sv ! i in
                   if \<not> se_authenticated s \<and> se_headerBuf s ! 4 = 0x01 then Session_bind h i sv
                   else if se_authenticated s then Session_request h i sv
                   else skip sv),
                 Session_doReadHeader i])"

section \<open>The server\<close>

definition Server_new :: "nat \<Rightarrow> server" where
  "Server_new maxConn = \<lparr>sv_onRequest = None, sv_onAuth = None, sv_sessions = [],
     sv_maxConnections = maxConn, sv_objs = [], sv_accepts = 0, sv_acceptorOpen = True\<rparr>"

definition Server_setAuthHandler :: "auth_handler option \<Rightarrow> server_proc" where
  "Server_setAuthHandler auth = modify (\<lambda>sv. sv\<lparr>sv_onAuth := auth\<rparr>)"

definition Server_setMaxConnections :: "nat \<Rightarrow> server_proc" where
  "Server_setMaxConnections maxConn = modify (\<lambda>sv. sv\<lparr>sv_maxConnections := maxConn\<rparr>)"

definition Server_doAccept :: server_proc where
  "Server_doAccept = seqs [modify (\<lambda>sv. sv\<lparr>sv_accepts := Suc (sv_accepts sv)\<rparr>), emit SvAsyncAccept]"

text \<open>The completion handler of \<open>async_accept\<close>. A socket that is not taken over is closed.\<close>

definition Server_onAccept :: "error_code \<Rightarrow> server_proc" where
  "Server_onAccept ec =
     seqs [if_do (ec = None)
             (\<lambda>sv. if length (sv_sessions sv) < sv_maxConnections sv
                   then (let sess = length (sv_objs sv) in
                         seqs [modify (\<lambda>sv. sv\<lparr>sv_objs := sv_objs sv @ [Session_new]\<rparr>),
                               modify (\<lambda>sv. sv\<lparr>sv_sessions := sess # sv_sessions sv\<rparr>),
                               Session_start sess] sv)
                   else emit SvRefuse sv),
           Server_doAccept]"

definition Server_start :: "request_handler option \<Rightarrow> server_proc" where
  "Server_start handler = seqs [modify (\<lambda>sv. sv\<lparr>sv_onRequest := handler\<rparr>), Server_doAccept]"

definition Server_stop :: server_proc where
  "Server_stop =
     seqs [modify (\<lambda>sv. sv\<lparr>sv_acceptorOpen := False\<rparr>),
           emit SvAcceptorClose,
           (\<lambda>sv. seqs (map (\<lambda>i. seqs [modify (with_session i (\<lambda>s. s\<lparr>se_open := False\<rparr>)), emit (SvSocketClose i)])
                        (sv_sessions sv)) sv),
           modify (\<lambda>sv. sv\<lparr>sv_sessions := []\<rparr>)]"

section \<open>Events\<close>

datatype server_event =
    DoStart "request_handler option"
  | DoStop
  | DoSetAuth "auth_handler option"
  | DoSetMax nat
  | Accepted error_code
  | SHeaderRead nat error_code bytes
  | SBodyRead nat error_code bytes
  | SWriteDone nat
  | SRespond nat reply

fun Server_step :: "endian \<Rightarrow> server \<Rightarrow> server_event \<Rightarrow> server \<times> server_effect list" where
  "Server_step h sv (DoStart handler) = Server_start handler sv"
| "Server_step h sv DoStop = Server_stop sv"
| "Server_step h sv (DoSetAuth auth) = Server_setAuthHandler auth sv"
| "Server_step h sv (DoSetMax n) = Server_setMaxConnections n sv"
| "Server_step h sv (Accepted ec) =
     seqs [modify (\<lambda>sv. sv\<lparr>sv_accepts := sv_accepts sv - 1\<rparr>), Server_onAccept ec] sv"
| "Server_step h sv (SHeaderRead i ec d) =
     seqs [modify (with_session i (\<lambda>s. s\<lparr>se_reading := None, se_headerBuf := memcpy (se_headerBuf s) 0 d\<rparr>)),
           Session_onReadHeader h i ec] sv"
| "Server_step h sv (SBodyRead i ec d) =
     seqs [modify (with_session i (\<lambda>s. s\<lparr>se_reading := None, se_bodyBuf := memcpy (se_bodyBuf s) 0 d\<rparr>)),
           Session_onReadBody h i ec] sv"
| "Server_step h sv (SWriteDone i) =
     modify (with_session i (\<lambda>s. s\<lparr>se_writing := tl (se_writing s)\<rparr>)) sv"
| "Server_step h sv (SRespond i r) = Session_respond h i r sv"

text \<open>
  What Boost.Asio documents: operations complete once, reads succeed only with the whole buffer
  filled, an accept on a closed acceptor fails. A late reply goes through a \<open>respond\<close> callback,
  which only authenticated sessions hand out.
\<close>

fun Server_ok :: "server \<Rightarrow> server_event \<Rightarrow> bool" where
  "Server_ok sv (Accepted ec) = (0 < sv_accepts sv \<and> (sv_acceptorOpen sv \<or> ec \<noteq> None))"
| "Server_ok sv (SHeaderRead i ec d) =
     (i < length (sv_objs sv) \<and> se_reading (sv_objs sv ! i) = Some RdHeader
      \<and> length d \<le> 10 \<and> (ec = None \<longrightarrow> length d = 10))"
| "Server_ok sv (SBodyRead i ec d) =
     (i < length (sv_objs sv) \<and>
      (case se_reading (sv_objs sv ! i) of
         Some (RdBody n) \<Rightarrow> length d \<le> n \<and> (ec = None \<longrightarrow> length d = n)
       | _ \<Rightarrow> False))"
| "Server_ok sv (SWriteDone i) = (i < length (sv_objs sv) \<and> se_writing (sv_objs sv ! i) \<noteq> [])"
| "Server_ok sv (SRespond i r) = (i < length (sv_objs sv) \<and> se_authenticated (sv_objs sv ! i))"
| "Server_ok sv _ = True"

section \<open>What the statements change\<close>

lemma with_session_fields [simp]:
  "length (sv_objs (with_session i f sv)) = length (sv_objs sv)"
  "sv_sessions (with_session i f sv) = sv_sessions sv"
  "sv_maxConnections (with_session i f sv) = sv_maxConnections sv"
  "sv_onAuth (with_session i f sv) = sv_onAuth sv"
  "sv_onRequest (with_session i f sv) = sv_onRequest sv"
  "sv_accepts (with_session i f sv) = sv_accepts sv"
  "sv_acceptorOpen (with_session i f sv) = sv_acceptorOpen sv"
  by (simp_all add: with_session_def)

lemma with_session_nth [simp]:
  "j < length (sv_objs sv) \<Longrightarrow>
     sv_objs (with_session i f sv) ! j = (if i = j then f (sv_objs sv ! j) else sv_objs sv ! j)"
  by (auto simp: with_session_def)

lemmas Session_defs = Session_doReadHeader_def Session_start_def Session_doReadBody_def
  Session_send_def Server_removeSession_def

lemma Session_respond_fst [simp]:
  "fst (Session_respond h i r sv) =
     with_session i (\<lambda>s. s\<lparr>se_writing := se_writing s @ [respond_msg h (fst r) (fst (snd r)) (fst (snd (snd r))) (snd (snd (snd r)))]\<rparr>) sv"
  by (cases r) (simp add: Session_send_def)

lemma Session_respond_snd [simp]:
  "snd (Session_respond h i r sv) =
     [SvWrite i (respond_msg h (fst r) (fst (snd r)) (fst (snd (snd r))) (snd (snd (snd r))))]"
  by (cases r) (simp add: Session_send_def)

end
