(* ===== verification/TurboServerProps.thy ===== *)
theory TurboServerProps
  imports TurboServer
begin

text \<open>
  What \<open>TurboNetServer\<close> guarantees: its buffers match its reads, the set of sessions never grows
  beyond the configured maximum, no request reaches the application before the client of that
  session has been accepted, and a session handles a stream of packets as the specification
  \<open>session_spec\<close> says. And what it does not: a rejected session goes on being served outside the
  set, a length below the header size makes it wait for four gigabytes, writes may overlap, and
  accepting is re-armed on a closed acceptor.
\<close>

section \<open>The invariant\<close>

definition session_inv :: "session \<Rightarrow> bool" where
  "session_inv s \<longleftrightarrow> length (se_headerBuf s) = 10
     \<and> (\<forall>n. se_reading s = Some (RdBody n) \<longrightarrow> length (se_bodyBuf s) = n)"

definition server_inv :: "server \<Rightarrow> bool" where
  "server_inv sv \<longleftrightarrow> list_all session_inv (sv_objs sv) \<and> distinct (sv_sessions sv)
     \<and> set (sv_sessions sv) \<subseteq> {..<length (sv_objs sv)}"

lemma server_inv_nth: "server_inv sv \<Longrightarrow> i < length (sv_objs sv) \<Longrightarrow> session_inv (sv_objs sv ! i)"
  by (simp add: server_inv_def list_all_length)

lemma server_inv_with_session:
  assumes "server_inv sv" and "i < length (sv_objs sv)" and "session_inv (f (sv_objs sv ! i))"
  shows "server_inv (with_session i f sv)"
  using assms by (simp add: server_inv_def list_all_length)

lemma server_inv_new: "server_inv (Server_new n)"
  by (simp add: server_inv_def Server_new_def)

lemma Server_removeSession_inv: "server_inv sv \<Longrightarrow> server_inv (fst (Server_removeSession i sv))"
  by (auto simp: server_inv_def Server_removeSession_def distinct_removeAll)

lemma Session_doReadHeader_inv:
  "server_inv sv \<Longrightarrow> i < length (sv_objs sv) \<Longrightarrow> server_inv (fst (Session_doReadHeader i sv))"
  using server_inv_nth [of sv i]
  by (auto simp: Session_doReadHeader_def session_inv_def intro!: server_inv_with_session)

lemma Session_doReadBody_inv:
  "server_inv sv \<Longrightarrow> i < length (sv_objs sv) \<Longrightarrow> server_inv (fst (Session_doReadBody i n sv))"
proof -
  assume sv: "server_inv sv" "i < length (sv_objs sv)"
  have eq: "fst (Session_doReadBody i n sv) =
      with_session i (\<lambda>s. s\<lparr>se_bodyBuf := resize (unat n) (se_bodyBuf s), se_reading := Some (RdBody (unat n))\<rparr>) sv"
    using sv(2) by (simp add: Session_doReadBody_def with_session_def)
  show ?thesis
    unfolding eq using sv server_inv_nth [of sv i]
    by (intro server_inv_with_session) (simp_all add: session_inv_def)
qed

lemma Session_send_inv:
  "server_inv sv \<Longrightarrow> i < length (sv_objs sv) \<Longrightarrow> server_inv (fst (Session_send i m sv))"
  using server_inv_nth [of sv i]
  by (auto simp: Session_send_def session_inv_def intro!: server_inv_with_session)

text \<open>What sending the replies of a request handler changes.\<close>

lemma Session_responds_objs [simp]:
  "length (sv_objs (fst (seqs (map (Session_respond h i) rs) sv))) = length (sv_objs sv)"
  "sv_sessions (fst (seqs (map (Session_respond h i) rs) sv)) = sv_sessions sv"
  "sv_maxConnections (fst (seqs (map (Session_respond h i) rs) sv)) = sv_maxConnections sv"
  "sv_onAuth (fst (seqs (map (Session_respond h i) rs) sv)) = sv_onAuth sv"
  "sv_onRequest (fst (seqs (map (Session_respond h i) rs) sv)) = sv_onRequest sv"
  by (induction rs arbitrary: sv) simp_all

lemma Session_responds_nth:
  "j < length (sv_objs sv) \<Longrightarrow> \<exists>ws. sv_objs (fst (seqs (map (Session_respond h i) rs) sv)) ! j =
     (sv_objs sv ! j)\<lparr>se_writing := ws\<rparr>"
proof (induction rs arbitrary: sv)
  case Nil
  show ?case by (rule exI [of _ "se_writing (sv_objs sv ! j)"]) simp
next
  case (Cons r rs)
  obtain ws where "sv_objs (fst (seqs (map (Session_respond h i) rs) (fst (Session_respond h i r sv)))) ! j =
      (sv_objs (fst (Session_respond h i r sv)) ! j)\<lparr>se_writing := ws\<rparr>"
    using Cons.IH [of "fst (Session_respond h i r sv)"] Cons.prems by auto
  then show ?case using Cons.prems by (cases "i = j") auto
qed

lemma Session_responds_snd:
  "snd (seqs (map (Session_respond h i) rs) sv) =
     map (\<lambda>(p, s, q, b). SvWrite i (respond_msg h p s q b)) rs"
  by (induction rs arbitrary: sv) (simp_all add: case_prod_beta)

lemma Session_responds_inv:
  assumes "server_inv sv"
  shows "server_inv (fst (seqs (map (Session_respond h i) rs) sv))"
proof -
  have "session_inv (sv_objs (fst (seqs (map (Session_respond h i) rs) sv)) ! j)" if "j < length (sv_objs sv)" for j
    using Session_responds_nth [OF that, of h i rs] server_inv_nth [OF assms that]
    by (auto simp: session_inv_def)
  with assms show ?thesis by (simp add: server_inv_def list_all_length)
qed

lemma Session_bind_inv:
  assumes "server_inv sv" and "i < length (sv_objs sv)"
  shows "server_inv (fst (Session_bind h i sv))" and "length (sv_objs (fst (Session_bind h i sv))) = length (sv_objs sv)"
proof -
  have "server_inv (with_session i (\<lambda>s. s\<lparr>se_authenticated := True\<rparr>) sv)"
    using assms server_inv_nth [OF assms] by (intro server_inv_with_session) (simp_all add: session_inv_def)
  with assms show "server_inv (fst (Session_bind h i sv))"
    by (simp add: Session_bind_def Let_def Server_removeSession_inv Session_send_inv split: option.split)
  show "length (sv_objs (fst (Session_bind h i sv))) = length (sv_objs sv)"
    by (simp add: Session_bind_def Let_def Session_defs split: option.split)
qed

lemma Session_request_inv:
  assumes "server_inv sv"
  shows "server_inv (fst (Session_request h i sv))" and "length (sv_objs (fst (Session_request h i sv))) = length (sv_objs sv)"
  using assms by (simp_all add: Session_request_def Let_def Session_responds_inv split: option.split)

lemma Session_onReadBody_inv:
  assumes "server_inv sv" and "i < length (sv_objs sv)"
  shows "server_inv (fst (Session_onReadBody h i ec sv))"
  using assms Session_bind_inv [OF assms, of h] Session_request_inv [OF assms(1), of h i]
  by (simp add: Session_onReadBody_def Let_def Server_removeSession_inv Session_doReadHeader_inv)

lemma Server_stop_inv:
  assumes "server_inv sv"
  shows "server_inv (fst (Server_stop sv))"
proof -
  let ?close = "\<lambda>i. seqs [modify (with_session i (\<lambda>s. s\<lparr>se_open := False\<rparr>)), emit (SvSocketClose i)]"
  have "list_all session_inv (sv_objs (fst (seqs (map ?close is) sv')))"
    if "list_all session_inv (sv_objs sv')" for "is" sv'
    using that
  proof (induction "is" arbitrary: sv')
    case (Cons i "is")
    then have "list_all session_inv (sv_objs (with_session i (\<lambda>s. s\<lparr>se_open := False\<rparr>) sv'))"
      by (cases "i < length (sv_objs sv')") (auto simp: list_all_length session_inv_def with_session_def nth_list_update)
    with Cons.IH show ?case by simp
  qed simp
  with assms show ?thesis by (simp add: server_inv_def Server_stop_def)
qed

lemma Server_step_inv:
  assumes inv: "server_inv sv" and ok: "Server_ok sv e"
  shows "server_inv (fst (Server_step h sv e))"
proof (cases e)
  case (Accepted ec)
  have "server_inv (sv\<lparr>sv_accepts := n, sv_objs := sv_objs sv @ [Session_new],
      sv_sessions := length (sv_objs sv) # sv_sessions sv\<rparr>)" for n
    using inv by (auto simp: server_inv_def Session_new_def session_inv_def less_Suc_eq)
  from Session_doReadHeader_inv [OF this] inv Accepted show ?thesis
    by (auto simp: Server_onAccept_def Server_doAccept_def Let_def Session_start_def)
      (auto simp: server_inv_def)
next
  case (SHeaderRead i ec d)
  with inv ok have "server_inv (with_session i (\<lambda>s. s\<lparr>se_reading := None, se_headerBuf := memcpy (se_headerBuf s) 0 d\<rparr>) sv)"
    using server_inv_nth [of sv i] by (intro server_inv_with_session) (simp_all add: session_inv_def)
  with ok SHeaderRead show ?thesis
    by (simp add: Session_onReadHeader_def Server_removeSession_inv Session_doReadBody_inv Let_def)
next
  case (SBodyRead i ec d)
  with inv ok have "server_inv (with_session i (\<lambda>s. s\<lparr>se_reading := None, se_bodyBuf := memcpy (se_bodyBuf s) 0 d\<rparr>) sv)"
    using server_inv_nth [of sv i] by (intro server_inv_with_session) (simp_all add: session_inv_def)
  with ok SBodyRead show ?thesis by (simp add: Session_onReadBody_inv)
next
  case (SWriteDone i)
  with inv ok show ?thesis
    using server_inv_nth [of sv i] by (auto simp: session_inv_def intro!: server_inv_with_session)
next
  case (SRespond i r)
  with inv ok show ?thesis
    using server_inv_nth [of sv i] by (auto simp: session_inv_def intro!: server_inv_with_session)
qed (use inv in \<open>simp_all add: Server_stop_inv Server_start_def Server_doAccept_def Server_setAuthHandler_def
    Server_setMaxConnections_def\<close>, simp_all add: server_inv_def)

interpretation server: machine "Server_step h" Server_ok server_inv for h
  by unfold_locales (rule Server_step_inv)

section \<open>Capacity\<close>

definition cap_ok :: "nat \<Rightarrow> server \<Rightarrow> server_event \<Rightarrow> bool" where
  "cap_ok m sv e \<longleftrightarrow> Server_ok sv e \<and> (\<forall>n. e = DoSetMax n \<longrightarrow> n \<le> m)"

definition cap_inv :: "nat \<Rightarrow> server \<Rightarrow> bool" where
  "cap_inv m sv \<longleftrightarrow> length (sv_sessions sv) \<le> m \<and> sv_maxConnections sv \<le> m"

lemma Session_onReadBody_sessions:
  "length (sv_sessions (fst (Session_onReadBody h i ec sv))) \<le> length (sv_sessions sv)"
  "sv_maxConnections (fst (Session_onReadBody h i ec sv)) = sv_maxConnections sv"
  by (auto simp: Session_onReadBody_def Session_bind_def Session_request_def Session_defs Let_def
      length_removeAll_less_eq split: option.split)

lemma Server_stop_max: "sv_maxConnections (fst (Server_stop sv)) = sv_maxConnections sv"
proof -
  let ?close = "\<lambda>i. seqs [modify (with_session i (\<lambda>s. s\<lparr>se_open := False\<rparr>)), emit (SvSocketClose i)]"
  have "sv_maxConnections (fst (seqs (map ?close is) sv')) = sv_maxConnections sv'" for "is" sv'
    by (induction "is" arbitrary: sv') simp_all
  then show ?thesis by (simp add: Server_stop_def)
qed
interpretation server_cap: machine "Server_step h" "cap_ok m" "cap_inv m" for h m
proof
  fix sv e
  assume "cap_inv m sv" and ok: "cap_ok m sv e"
  then show "cap_inv m (fst (Server_step h sv e))"
  proof (cases e)
    case (SBodyRead i ec d)
    with \<open>cap_inv m sv\<close> show ?thesis
      using order_trans [OF Session_onReadBody_sessions(1)] by (auto simp: cap_inv_def Session_onReadBody_sessions(2))
  next
    case (SHeaderRead i ec d)
    with \<open>cap_inv m sv\<close> show ?thesis
      using order_trans [OF length_removeAll_less_eq]
      by (auto simp: cap_inv_def Session_onReadHeader_def Session_defs Let_def)
  next
    case (DoSetMax n)
    with \<open>cap_inv m sv\<close> ok show ?thesis
      by (auto simp: cap_inv_def cap_ok_def Server_setMaxConnections_def)
  next
    case DoStop
    with \<open>cap_inv m sv\<close> show ?thesis
      by (simp add: cap_inv_def Server_stop_max) (simp add: Server_stop_def)
  qed (auto simp: cap_inv_def Server_onAccept_def Server_doAccept_def Server_start_def
      Server_setAuthHandler_def Session_defs Let_def)
qed

text \<open>
  C31: if the maximum number of connections is never set above \<open>m\<close>, the set of sessions never has
  more than \<open>m\<close> members, each of them an existing session object, none twice.
\<close>

theorem server_capacity:
  assumes "allowed (cap_ok m) (Server_step h) (Server_new n) es" and "n \<le> m"
  shows "let sv = fst (run (Server_step h) (Server_new n) es) in
    length (sv_sessions sv) \<le> m \<and> distinct (sv_sessions sv)
    \<and> set (sv_sessions sv) \<subseteq> {..<length (sv_objs sv)}"
proof -
  have "allowed Server_ok (Server_step h) s es" if "allowed (cap_ok m) (Server_step h) s es" for s
    using that by (induction es arbitrary: s) (simp_all add: cap_ok_def)
  with assms have "server_inv (fst (run (Server_step h) (Server_new n) es))"
    using server.run_inv [OF server_inv_new] by blast
  moreover have "cap_inv m (fst (run (Server_step h) (Server_new n) es))"
    by (rule server_cap.run_inv [OF _ assms(1)]) (simp add: cap_inv_def Server_new_def assms(2))
  ultimately show ?thesis by (simp add: server_inv_def cap_inv_def Let_def)
qed

theorem server_capacity_witness:
  "let sv = fst (run (Server_step LittleEndian) (Server_new 1) [DoStart None, Accepted None, Accepted None])
   in length (sv_objs sv) = 1 \<and> length (sv_sessions sv) \<le> 1"
proof -
  let ?es = "[DoStart None, Accepted None, Accepted None]"
  have ok: "allowed (cap_ok 1) (Server_step LittleEndian) (Server_new 1) ?es"
    by (simp add: cap_ok_def Server_new_def Server_start_def Server_doAccept_def Server_onAccept_def
        Session_defs Let_def)
  have "length (sv_objs (fst (run (Server_step LittleEndian) (Server_new 1) ?es))) = 1" by code_simp
  then show ?thesis
    using server_capacity [OF ok order_refl] by (simp only: Let_def simp_thms)
qed

section \<open>Authentication\<close>

text \<open>
  The sessions admitted by the effects so far, and whether every request and every write
  concerns a session that was admitted before.
\<close>

fun admitted :: "nat set \<Rightarrow> server_effect list \<Rightarrow> nat set" where
  "admitted A [] = A"
| "admitted A (SvAuth i cid b # os) = admitted (if b then insert i A else A) os"
| "admitted A (x # os) = admitted A os"

fun authorised :: "nat set \<Rightarrow> server_effect list \<Rightarrow> bool" where
  "authorised A [] = True"
| "authorised A (SvAuth i cid b # os) = authorised (if b then insert i A else A) os"
| "authorised A (SvRequest i p s q d # os) = (i \<in> A \<and> authorised A os)"
| "authorised A (SvWrite i d # os) = (i \<in> A \<and> authorised A os)"
| "authorised A (x # os) = authorised A os"

lemma admitted_append: "admitted A (xs @ ys) = admitted (admitted A xs) ys"
  by (induction A xs rule: admitted.induct) simp_all

lemma authorised_append: "authorised A (xs @ ys) \<longleftrightarrow> authorised A xs \<and> authorised (admitted A xs) ys"
  by (induction A xs rule: authorised.induct) auto

lemma admitted_iff: "i \<in> admitted A os \<longleftrightarrow> i \<in> A \<or> (\<exists>cid. SvAuth i cid True \<in> set os)"
  by (induction A os rule: admitted.induct) auto

lemma writes_authorised:
  "authorised A (map (\<lambda>(p, s, q, b). SvWrite i (respond_msg h p s q b)) rs) \<longleftrightarrow> rs = [] \<or> i \<in> A"
  "admitted A (map (\<lambda>(p, s, q, b). SvWrite i (respond_msg h p s q b)) rs) = A"
  by (induction rs) (simp_all add: case_prod_beta, blast)

definition authenticated_sessions :: "server \<Rightarrow> nat set" where
  "authenticated_sessions sv = {i. i < length (sv_objs sv) \<and> se_authenticated (sv_objs sv ! i)}"

lemma authenticated_with_session:
  "(\<And>s. se_authenticated (f s) = se_authenticated s) \<Longrightarrow>
     authenticated_sessions (with_session i f sv) = authenticated_sessions sv"
  unfolding authenticated_sessions_def by (rule Collect_cong) (simp cong: conj_cong)

lemma authenticated_with_session_True:
  "authenticated_sessions (with_session i (\<lambda>s. s\<lparr>se_authenticated := True\<rparr>) sv) \<subseteq> insert i (authenticated_sessions sv)"
proof
  fix j
  assume "j \<in> authenticated_sessions (with_session i (\<lambda>s. s\<lparr>se_authenticated := True\<rparr>) sv)"
  then show "j \<in> insert i (authenticated_sessions sv)"
    unfolding authenticated_sessions_def mem_Collect_eq with_session_fields insert_iff
    by (elim conjE) (simp split: if_splits)
qed

lemma authenticated_other_fields [simp]:
  "authenticated_sessions (sv\<lparr>sv_sessions := a\<rparr>) = authenticated_sessions sv"
  "authenticated_sessions (sv\<lparr>sv_accepts := n\<rparr>) = authenticated_sessions sv"
  "authenticated_sessions (sv\<lparr>sv_acceptorOpen := b\<rparr>) = authenticated_sessions sv"
  "authenticated_sessions (sv\<lparr>sv_onRequest := r\<rparr>) = authenticated_sessions sv"
  "authenticated_sessions (sv\<lparr>sv_onAuth := u\<rparr>) = authenticated_sessions sv"
  "authenticated_sessions (sv\<lparr>sv_maxConnections := n\<rparr>) = authenticated_sessions sv"
  by (simp_all add: authenticated_sessions_def)

lemma authenticated_responds [simp]:
  "authenticated_sessions (fst (seqs (map (Session_respond h i) rs) sv)) = authenticated_sessions sv"
  by (induction rs arbitrary: sv) (simp_all add: authenticated_with_session)

lemma authenticated_accept:
  "authenticated_sessions (sv\<lparr>sv_objs := sv_objs sv @ [Session_new]\<rparr>) = authenticated_sessions sv"
  by (auto simp: authenticated_sessions_def nth_append Session_new_def less_Suc_eq)

lemma Server_stop_auth:
  "authenticated_sessions (fst (Server_stop sv)) = authenticated_sessions sv"
  "authorised A (snd (Server_stop sv))" "admitted A (snd (Server_stop sv)) = A"
proof -
  let ?close = "\<lambda>i. seqs [modify (with_session i (\<lambda>s. s\<lparr>se_open := False\<rparr>)), emit (SvSocketClose i)]"
  have "authenticated_sessions (fst (seqs (map ?close is) sv')) = authenticated_sessions sv'
      \<and> authorised A (snd (seqs (map ?close is) sv')) \<and> admitted A (snd (seqs (map ?close is) sv')) = A" for "is" sv'
    by (induction "is" arbitrary: sv') (simp_all add: authenticated_with_session)
  then show "authenticated_sessions (fst (Server_stop sv)) = authenticated_sessions sv"
    "authorised A (snd (Server_stop sv))" "admitted A (snd (Server_stop sv)) = A"
    by (simp_all add: Server_stop_def)
qed

text \<open>A statement run when the authenticated sessions have been admitted.\<close>

definition guarded :: "nat set \<Rightarrow> server \<times> server_effect list \<Rightarrow> bool" where
  "guarded A r \<longleftrightarrow> authorised A (snd r) \<and> authenticated_sessions (fst r) \<subseteq> admitted A (snd r)"

lemma Session_onReadBody_guarded:
  assumes "authenticated_sessions sv \<subseteq> A" and "i < length (sv_objs sv)"
  shows "guarded A (Session_onReadBody h i ec sv)"
proof -
  have mem: "i \<in> A" if "se_authenticated (sv_objs sv ! i)"
    using that assms by (auto simp: authenticated_sessions_def)
  show ?thesis
    using assms mem authenticated_with_session_True [of i sv]
    by (auto simp: guarded_def Session_onReadBody_def Session_bind_def Session_request_def Session_defs Let_def
        authenticated_with_session authorised_append admitted_append Session_responds_snd writes_authorised
        split: option.split)
qed

lemma Server_step_guarded:
  assumes "authenticated_sessions sv \<subseteq> A" and ok: "Server_ok sv e"
  shows "guarded A (Server_step h sv e)"
proof (cases e)
  case (SBodyRead i ec d)
  let ?sv = "with_session i (\<lambda>s. s\<lparr>se_reading := None, se_bodyBuf := memcpy (se_bodyBuf s) 0 d\<rparr>) sv"
  have "guarded A (Session_onReadBody h i ec ?sv)"
    using assms SBodyRead by (intro Session_onReadBody_guarded) (simp_all add: authenticated_with_session)
  with SBodyRead show ?thesis by (simp add: guarded_def)
next
  case (SHeaderRead i ec d)
  with assms show ?thesis
    by (simp add: guarded_def Session_onReadHeader_def Session_defs Let_def authenticated_with_session)
next
  case (SRespond i r)
  with assms have "i \<in> A" by (auto simp: authenticated_sessions_def)
  with SRespond assms show ?thesis by (simp add: guarded_def authenticated_with_session)
next
  case (Accepted ec)
  with assms show ?thesis
    by (auto simp: guarded_def Server_onAccept_def Server_doAccept_def Session_defs Let_def
        authenticated_with_session authenticated_accept [of "sv\<lparr>sv_accepts := sv_accepts sv - Suc 0\<rparr>", simplified])
qed (use assms in \<open>auto simp: guarded_def Server_stop_auth Server_start_def Server_doAccept_def
    Server_setAuthHandler_def Server_setMaxConnections_def authenticated_with_session\<close>)

definition auth_inv :: "server \<Rightarrow> server_effect list \<Rightarrow> bool" where
  "auth_inv sv os \<longleftrightarrow> authorised {} os \<and> authenticated_sessions sv \<subseteq> admitted {} os"

interpretation server_auth: traced_machine "Server_step h" Server_ok auth_inv for h
proof
  fix sv os e
  assume "auth_inv sv os" and "Server_ok sv e"
  then show "auth_inv (fst (Server_step h sv e)) (os @ snd (Server_step h sv e))"
    using Server_step_guarded [of sv "admitted {} os" e h]
    by (simp add: auth_inv_def guarded_def authorised_append admitted_append)
qed

lemma authorised_before:
  assumes "authorised A (xs @ x # ys)" and "(\<exists>p s q d. x = SvRequest i p s q d) \<or> (\<exists>d. x = SvWrite i d)"
  shows "i \<in> admitted A xs"
  using assms by (auto simp: authorised_append)

text \<open>
  C5: in every run that Boost.Asio allows, with any number of sessions, whatever the clients
  send and however often the handlers are replaced: a request reaches the application, and a
  message is written to a session, only after the authentication callback has accepted a client
  id of that same session.
\<close>

theorem server_requests_authorised:
  assumes "allowed Server_ok (Server_step h) (Server_new n) es"
    and "snd (run (Server_step h) (Server_new n) es) = xs @ x # ys"
    and "(\<exists>p s q d. x = SvRequest i p s q d) \<or> (\<exists>d. x = SvWrite i d)"
  shows "\<exists>cid. SvAuth i cid True \<in> set xs"
proof -
  have "auth_inv (Server_new n) []"
    by (simp add: auth_inv_def authenticated_sessions_def Server_new_def)
  from server_auth.run_tinv [OF this assms(1)] have "authorised {} (xs @ x # ys)"
    by (simp add: auth_inv_def assms(2))
  from authorised_before [OF this assms(3)] show ?thesis by (simp add: admitted_iff)
qed

text \<open>
  A server that admits the client \<open>a\<close> and echoes, with one session; the packets of a bind request
  and of a request as read completions.
\<close>

abbreviation sample_server :: "server_event list" where
  "sample_server \<equiv> [DoSetAuth (Some (\<lambda>cid. cid = ''a'')), DoStart (Some (\<lambda>p s q d. [(0x82, 0, q, d)])), Accepted None]"

abbreviation read_frame :: "nat \<Rightarrow> frame \<Rightarrow> server_event list" where
  "read_frame i f \<equiv>
     [SHeaderRead i None (frame_header (of_nat (10 + length (f_body f))) (f_pid f) (f_status f) (f_seq f)),
      SBodyRead i None (f_body f)]"

abbreviation bind_frame :: "string \<Rightarrow> frame" where
  "bind_frame cid \<equiv> \<lparr>f_pid = 1, f_status = 0, f_seq = 1, f_body = bytes_of cid\<rparr>"

theorem server_requests_authorised_witness:
  "\<exists>xs ys cid. snd (run (Server_step LittleEndian) (Server_new 1) (sample_server @ read_frame 0 (bind_frame ''a'')))
      = xs @ SvWrite 0 (bind_resp LittleEndian (frame_header 11 1 0 1)) # ys \<and> SvAuth 0 cid True \<in> set xs"
proof -
  let ?es = "sample_server @ read_frame 0 (bind_frame ''a'')"
  let ?x = "SvWrite 0 (bind_resp LittleEndian (frame_header 11 1 0 1))"
  have ok: "allowed Server_ok (Server_step LittleEndian) (Server_new 1) ?es" by code_simp
  have "?x \<in> set (snd (run (Server_step LittleEndian) (Server_new 1) ?es))" by code_simp
  then obtain xs ys where split: "snd (run (Server_step LittleEndian) (Server_new 1) ?es) = xs @ ?x # ys"
    by (meson split_list)
  from server_requests_authorised [OF ok split, of 0] split show ?thesis by blast
qed

section \<open>A session as a receiver of packets\<close>

text \<open>
  The specification: what a session does with a packet, given whether it is authenticated. An
  unauthenticated session reacts to bind requests only, an authenticated one passes everything
  to the application and sends its replies.
\<close>

fun session_spec :: "auth_handler option \<Rightarrow> request_handler option \<Rightarrow> nat \<Rightarrow> bool \<Rightarrow> frame
    \<Rightarrow> bool \<times> server_effect list" where
  "session_spec onAuth onRequest i False f =
     (if f_pid f = 0x01
      then (case onAuth of
              None \<Rightarrow> (False, [])
            | Some g \<Rightarrow>
                let cid = string_of (f_body f) in
                if g cid
                then (True, [SvAuth i cid True,
                             SvWrite i (encode_frame \<lparr>f_pid = 0x81, f_status = 0, f_seq = f_seq f,
                                                      f_body = bytes_of server_id\<rparr>)])
                else (False, [SvAuth i cid False]))
      else (False, []))"
| "session_spec onAuth onRequest i True f =
     (case onRequest of
        None \<Rightarrow> (True, [])
      | Some g \<Rightarrow>
          (True, SvRequest i (f_pid f) (f_status f) (f_seq f) (f_body f)
                 # map (\<lambda>(p, s, q, b). SvWrite i (encode_frame \<lparr>f_pid = p, f_status = s, f_seq = q, f_body = b\<rparr>))
                     (g (f_pid f) (f_status f) (f_seq f) (f_body f))))"

definition Session_want :: "nat \<Rightarrow> server \<Rightarrow> nat option" where
  "Session_want i sv = (case se_reading (sv_objs sv ! i) of
     None \<Rightarrow> None | Some RdHeader \<Rightarrow> Some 10 | Some (RdBody n) \<Rightarrow> Some n)"

definition Session_deliver :: "endian \<Rightarrow> nat \<Rightarrow> server \<Rightarrow> bytes \<Rightarrow> server \<times> server_effect list" where
  "Session_deliver h i sv d = (case se_reading (sv_objs sv ! i) of
     Some (RdBody n) \<Rightarrow> Server_step h sv (SBodyRead i None d)
   | _ \<Rightarrow> Server_step h sv (SHeaderRead i None d))"

fun session_effect :: "server_effect \<Rightarrow> server_effect option" where
  "session_effect (SvStartRead i r) = None"
| "session_effect x = Some x"

definition session_effects :: "server_effect list \<Rightarrow> server_effect list" where
  "session_effects os = List.map_filter session_effect os"

lemma session_effects_simps [simp]:
  "session_effects [] = []"
  "session_effects (x # os) = (case session_effect x of None \<Rightarrow> session_effects os | Some y \<Rightarrow> y # session_effects os)"
  "session_effects (os @ os') = session_effects os @ session_effects os'"
  by (auto simp: session_effects_def List.map_filter_def split: option.splits)

lemma session_effects_writes [simp]:
  "session_effects (map (\<lambda>(p, s, q, b). SvWrite i (g p s q b)) rs) = map (\<lambda>(p, s, q, b). SvWrite i (g p s q b)) rs"
  by (induction rs) auto

definition session_idle :: "auth_handler option \<Rightarrow> request_handler option \<Rightarrow> nat \<Rightarrow> server \<Rightarrow> bool" where
  "session_idle onAuth onRequest i sv \<longleftrightarrow> i < length (sv_objs sv) \<and> se_reading (sv_objs sv ! i) = Some RdHeader
     \<and> length (se_headerBuf (sv_objs sv ! i)) = 10 \<and> sv_onAuth sv = onAuth \<and> sv_onRequest sv = onRequest"

lemma Session_deliver_header:
  assumes idle: "session_idle a q i sv" and wf: "wf_frame f"
    and hdr: "hdr = frame_header (of_nat (10 + length (f_body f))) (f_pid f) (f_status f) (f_seq f)"
  obtains sv' os where "Session_deliver h i sv hdr = (sv', os)" and "session_effects os = []"
    and "i < length (sv_objs sv')" and "se_reading (sv_objs sv' ! i) = Some (RdBody (length (f_body f)))"
    and "length (se_bodyBuf (sv_objs sv' ! i)) = length (f_body f)" and "se_headerBuf (sv_objs sv' ! i) = hdr"
    and "se_authenticated (sv_objs sv' ! i) = se_authenticated (sv_objs sv ! i)"
    and "sv_onAuth sv' = a" and "sv_onRequest sv' = q"
proof
  let ?r = "Server_step h sv (SHeaderRead i None hdr)"
  have len: "unat (of_nat (10 + length (f_body f)) - 10 :: u32) = length (f_body f)"
    using wf by (rule wf_frame_body)
  note defs = Session_onReadHeader_def Session_doReadBody_def Let_def session_idle_def
  show "Session_deliver h i sv hdr = (fst ?r, snd ?r)"
    using idle by (simp add: Session_deliver_def session_idle_def del: Server_step.simps)
  show "session_effects (snd ?r) = []" "i < length (sv_objs (fst ?r))" "sv_onAuth (fst ?r) = a"
    "sv_onRequest (fst ?r) = q" "se_headerBuf (sv_objs (fst ?r) ! i) = hdr"
    "se_authenticated (sv_objs (fst ?r) ! i) = se_authenticated (sv_objs sv ! i)"
    using idle by (simp_all add: defs hdr)
  show "se_reading (sv_objs (fst ?r) ! i) = Some (RdBody (length (f_body f)))"
    "length (se_bodyBuf (sv_objs (fst ?r) ! i)) = length (f_body f)"
    using idle len by (simp_all add: defs hdr)
qed

lemma Session_responds_fields:
  assumes "i < length (sv_objs sv)"
  shows "se_authenticated (sv_objs (fst (seqs (map (Session_respond h i) rs) sv)) ! i) = se_authenticated (sv_objs sv ! i)"
    and "se_headerBuf (sv_objs (fst (seqs (map (Session_respond h i) rs) sv)) ! i) = se_headerBuf (sv_objs sv ! i)"
  using Session_responds_nth [OF assms, of h i rs] by auto

lemma Session_deliver_body:
  assumes "i < length (sv_objs sv)" and rd: "se_reading (sv_objs sv ! i) = Some (RdBody (length d))"
    and "length (se_bodyBuf (sv_objs sv ! i)) = length d" and hb: "se_headerBuf (sv_objs sv ! i) = frame_header n p s sq"
    and "sv_onAuth sv = a" and "sv_onRequest sv = q"
  shows "session_idle a q i (fst (Session_deliver h i sv d))"
    and "(se_authenticated (sv_objs (fst (Session_deliver h i sv d)) ! i), session_effects (snd (Session_deliver h i sv d)))
      = session_spec a q i (se_authenticated (sv_objs sv ! i)) \<lparr>f_pid = p, f_status = s, f_seq = sq, f_body = d\<rparr>"
proof -
  have r: "Session_deliver h i sv d = Server_step h sv (SBodyRead i None d)"
    by (simp add: Session_deliver_def rd del: Server_step.simps)
  have bind: "bind_resp h (frame_header n p' s sq) =
      encode_frame \<lparr>f_pid = 0x81, f_status = 0, f_seq = sq, f_body = bytes_of server_id\<rparr>" for p'
    by (simp add: bind_resp_frame)
  note defs = Session_onReadBody_def Session_bind_def Session_request_def Session_defs Let_def
  show "session_idle a q i (fst (Session_deliver h i sv d))"
    using assms unfolding r
    by (auto simp: defs session_idle_def Session_responds_fields split: option.split)
  show "(se_authenticated (sv_objs (fst (Session_deliver h i sv d)) ! i), session_effects (snd (Session_deliver h i sv d)))
      = session_spec a q i (se_authenticated (sv_objs sv ! i)) \<lparr>f_pid = p, f_status = s, f_seq = sq, f_body = d\<rparr>"
    using assms unfolding r
    by (cases "se_authenticated (sv_objs sv ! i)")
      (auto simp: defs Session_responds_fields Session_responds_snd bind respond_msg_frame split: option.split)
qed

lemma Session_one_frame:
  assumes idle: "session_idle a q i sv" and wf: "wf_frame f"
  shows "\<exists>sv' os. feed (Session_want i) (Session_deliver h i) 2 sv (encode_frame f @ rest) = (sv', os, rest)
    \<and> session_idle a q i sv'
    \<and> (se_authenticated (sv_objs sv' ! i), session_effects os) = session_spec a q i (se_authenticated (sv_objs sv ! i)) f"
proof -
  let ?hdr = "frame_header (of_nat (10 + length (f_body f))) (f_pid f) (f_status f) (f_seq f)"
  obtain sv1 o1 where d1: "Session_deliver h i sv ?hdr = (sv1, o1)" and o1: "session_effects o1 = []"
    and sv1: "i < length (sv_objs sv1)" "se_reading (sv_objs sv1 ! i) = Some (RdBody (length (f_body f)))"
      "length (se_bodyBuf (sv_objs sv1 ! i)) = length (f_body f)" "se_headerBuf (sv_objs sv1 ! i) = ?hdr"
    and same: "se_authenticated (sv_objs sv1 ! i) = se_authenticated (sv_objs sv ! i)"
    and cfg: "sv_onAuth sv1 = a" "sv_onRequest sv1 = q"
    using Session_deliver_header [OF idle wf refl, of h thesis] by blast
  obtain sv2 o2 where d2: "Session_deliver h i sv1 (f_body f) = (sv2, o2)" by (rule prod.exhaust)
  have "feed (Session_want i) (Session_deliver h i) 2 sv (encode_frame f @ rest) = (sv2, o1 @ o2, rest)"
    using idle sv1(2)
    by (simp add: numeral_2_eq_2 encode_frame_def session_idle_def Session_want_def d1 d2 del: of_nat_add)
  moreover have "session_idle a q i sv2" and "(se_authenticated (sv_objs sv2 ! i), session_effects o2)
      = session_spec a q i (se_authenticated (sv_objs sv ! i)) f"
    using Session_deliver_body [OF sv1 cfg, of h] d2 same by simp_all
  ultimately show ?thesis using o1 by (intro exI conjI) (assumption, simp_all)
qed

interpretation session_reader: framed_reader "Session_want i" "Session_deliver h i" encode_frame wf_frame
    "\<lambda>_. 2" "session_idle a q i" "\<lambda>sv. se_authenticated (sv_objs sv ! i)" session_effect "session_spec a q i" for h i a q
  using Session_one_frame [of a q i] by unfold_locales (simp add: session_effects_def)

text \<open>
  A session handles every stream of packets of the format as the specification does: the
  authentication callback, the application and the replies are invoked and sent in the order of
  the packets, each packet is taken off the stream in two reads, and the session ends up
  authenticated exactly if the specification does.
\<close>

theorem session_refines_spec:
  assumes "session_idle a q i sv" and "list_all wf_frame fs"
  shows "\<exists>sv' os. feed (Session_want i) (Session_deliver h i) (2 * length fs) sv (wire encode_frame fs @ rest) = (sv', os, rest)
    \<and> session_idle a q i sv'
    \<and> (se_authenticated (sv_objs sv' ! i), session_effects os)
      = run (session_spec a q i) (se_authenticated (sv_objs sv ! i)) fs"
  using session_reader.many_frames [OF assms, of h rest]
  by (simp add: session_effects_def sum_list_triv mult.commute)

theorem session_refines_spec_witness:
  "let sv = fst (run (Server_step LittleEndian) (Server_new 1) sample_server);
       fs = [bind_frame ''b'', bind_frame ''a'', \<lparr>f_pid = 2, f_status = 0, f_seq = 7, f_body = [5]\<rparr>]
   in \<exists>sv' os. feed (Session_want 0) (Session_deliver LittleEndian 0) 6 sv (wire encode_frame fs @ [9]) = (sv', os, [9])
      \<and> session_effects os = [SvAuth 0 ''b'' False, SvAuth 0 ''a'' True,
           SvWrite 0 (encode_frame \<lparr>f_pid = 0x81, f_status = 0, f_seq = 1, f_body = bytes_of server_id\<rparr>),
           SvRequest 0 2 0 7 [5], SvWrite 0 (encode_frame \<lparr>f_pid = 0x82, f_status = 0, f_seq = 7, f_body = [5]\<rparr>)]"
proof -
  let ?sv = "fst (run (Server_step LittleEndian) (Server_new 1) sample_server)"
  let ?a = "Some (\<lambda>cid. cid = ''a'')" and ?q = "Some (\<lambda>p s q d. [(0x82, 0, q, d)]) :: request_handler option"
  let ?fs = "[bind_frame ''b'', bind_frame ''a'', \<lparr>f_pid = 2, f_status = 0, f_seq = 7, f_body = [5]\<rparr>]"
  have idle: "session_idle ?a ?q 0 ?sv" and auth: "\<not> se_authenticated (sv_objs ?sv ! 0)"
    by (simp_all add: session_idle_def Server_new_def Server_setAuthHandler_def Server_start_def Server_doAccept_def
        Server_onAccept_def Session_defs Session_new_def Let_def with_session_def)
  have wf: "list_all wf_frame ?fs" by (simp add: wf_frame_def)
  from session_refines_spec [OF idle wf, of LittleEndian "[9]"] obtain sv' os where
    f: "feed (Session_want 0) (Session_deliver LittleEndian 0) (2 * length ?fs) ?sv (wire encode_frame ?fs @ [9]) = (sv', os, [9])"
    and r: "(se_authenticated (sv_objs sv' ! 0), session_effects os) = run (session_spec ?a ?q 0) (se_authenticated (sv_objs ?sv ! 0)) ?fs"
    by (elim exE conjE)
  from arg_cong [OF r, of snd] have "session_effects os = snd (run (session_spec ?a ?q 0) False ?fs)"
    by (simp only: auth snd_conv)
  with f show ?thesis by (simp add: Let_def del: feed.simps)
qed

section \<open>Where the server goes wrong\<close>

text \<open>
  A header whose length field is below the header size is not refused: the subtraction wraps
  around, and the session waits for a body of almost \<open>2 ^ 32\<close> bytes.
\<close>

theorem server_short_length_wraps:
  assumes "Server_ok sv (SHeaderRead i None d)" and "length (se_headerBuf (sv_objs sv ! i)) = 10"
    and "hdr_total h d < 10"
  shows "se_reading (sv_objs (fst (Server_step h sv (SHeaderRead i None d))) ! i)
      = Some (RdBody (2 ^ 32 + unat (hdr_total h d) - 10))"
proof -
  have "unat (hdr_total h d - 10) = 2 ^ 32 + unat (hdr_total h d) - 10"
    using assms(3) by (simp add: unat_sub_if_size word_less_nat_alt word_size word_le_nat_alt)
  then show ?thesis
    using assms(1,2) by (simp add: Session_onReadHeader_def Session_doReadBody_def Let_def)
qed

theorem server_short_length_wraps_witness:
  "let sv = fst (run (Server_step LittleEndian) (Server_new 1) sample_server); d = replicate 10 0
   in Server_ok sv (SHeaderRead 0 None d) \<and>
      se_reading (sv_objs (fst (Server_step LittleEndian sv (SHeaderRead 0 None d))) ! 0) = Some (RdBody 4294967286)"
proof -
  let ?sv = "fst (run (Server_step LittleEndian) (Server_new 1) sample_server)" and ?d = "replicate 10 (0 :: u8)"
  have "Server_ok ?sv (SHeaderRead 0 None ?d)" by code_simp
  moreover have "length (se_headerBuf (sv_objs ?sv ! 0)) = 10" by code_simp
  moreover have "hdr_total LittleEndian ?d = 0" by code_simp
  ultimately show ?thesis
    using server_short_length_wraps [of ?sv 0 ?d LittleEndian] by (simp add: Let_def del: Server_step.simps)
qed

text \<open>
  With a maximum of one connection, a session whose client was rejected, and which was
  therefore erased from the set, goes on being read: it may bind again and is then served next
  to the session that took its place. Two sessions are authenticated and reading, only one of
  them is in the set.
\<close>

theorem server_rejected_session_survives:
  "let es = sample_server @ read_frame 0 (bind_frame ''b'') @ [Accepted None] @ read_frame 1 (bind_frame ''a'')
            @ read_frame 0 (bind_frame ''a'');
       sv = fst (run (Server_step LittleEndian) (Server_new 1) es)
   in allowed Server_ok (Server_step LittleEndian) (Server_new 1) es \<and> sv_sessions sv = [1] \<and>
      map se_authenticated (sv_objs sv) = [True, True] \<and>
      map se_reading (sv_objs sv) = [Some RdHeader, Some RdHeader]"
  by code_simp

text \<open>
  A client that sends a request right after its bind request makes the server start a second
  write on the socket while the first is outstanding.
\<close>

theorem server_writes_overlap:
  "let es = sample_server @ read_frame 0 (bind_frame ''a'')
            @ read_frame 0 \<lparr>f_pid = 2, f_status = 0, f_seq = 2, f_body = [5]\<rparr>;
       sv = fst (run (Server_step LittleEndian) (Server_new 1) es)
   in allowed Server_ok (Server_step LittleEndian) (Server_new 1) es \<and>
      length (se_writing (sv_objs sv ! 0)) = 2"
  by code_simp

text \<open>
  An accept that fails is followed by another accept, so after \<open>stop\<close> the server keeps
  accepting on its closed acceptor for ever: any number of failing accepts leaves the state
  as it was and starts as many new ones.
\<close>

theorem server_accept_never_rests:
  assumes "0 < sv_accepts sv"
  shows "allowed Server_ok (Server_step h) sv (replicate n (Accepted (Some err)))
    \<and> run (Server_step h) sv (replicate n (Accepted (Some err))) = (sv, replicate n SvAsyncAccept)"
proof -
  have "Server_step h sv (Accepted (Some err)) = (sv, [SvAsyncAccept])"
    using assms by (simp add: Server_onAccept_def Server_doAccept_def prod_eq_iff)
  then show ?thesis
    using assms by (induction n) (simp_all add: prod_eq_iff del: Server_step.simps)
qed

theorem server_accept_never_rests_witness:
  "let sv = fst (run (Server_step LittleEndian) (Server_new 1) (sample_server @ [DoStop]))
   in \<not> sv_acceptorOpen sv \<and>
      run (Server_step LittleEndian) sv (replicate 9 (Accepted (Some operation_aborted))) = (sv, replicate 9 SvAsyncAccept)"
proof -
  let ?sv = "fst (run (Server_step LittleEndian) (Server_new 1) (sample_server @ [DoStop]))"
  have "0 < sv_accepts ?sv" "\<not> sv_acceptorOpen ?sv" by code_simp+
  with server_accept_never_rests [of ?sv LittleEndian 9 operation_aborted] show ?thesis
    by (simp only: Let_def simp_thms)
qed

end
