(* ===== verification/TurboServerStream.thy ===== *)
theory TurboServerStream
  imports TurboServerProps
begin

text \<open>
  What a session of \<open>TurboNetServer\<close> receives, in every run: its read completions come among the
  events of all other sessions, new connections, writes and \<open>stop\<close>. The proof goes through the
  locale \<open>interleaved_reader\<close>, interpreted on \<open>Server_step\<close>.
\<close>

section \<open>Reads and effects of one session\<close>

fun Session_read :: "nat \<Rightarrow> server_event \<Rightarrow> (error_code \<times> bytes) option" where
  "Session_read i (SHeaderRead j ec d) = (if j = i then Some (ec, d) else None)"
| "Session_read i (SBodyRead j ec d) = (if j = i then Some (ec, d) else None)"
| "Session_read i _ = None"

text \<open>The effects of session \<open>i\<close>.\<close>

fun effect_of :: "nat \<Rightarrow> server_effect \<Rightarrow> server_effect option" where
  "effect_of i (SvAuth j cid b) = (if j = i then Some (SvAuth j cid b) else None)"
| "effect_of i (SvRequest j p s q d) = (if j = i then Some (SvRequest j p s q d) else None)"
| "effect_of i (SvWrite j d) = (if j = i then Some (SvWrite j d) else None)"
| "effect_of i _ = None"

definition effects_of :: "nat \<Rightarrow> server_effect list \<Rightarrow> server_effect list" where
  "effects_of i os = List.map_filter (effect_of i) os"

lemma effects_of_simps [simp]:
  "effects_of i [] = []"
  "effects_of i (x # os) = (case effect_of i x of None \<Rightarrow> effects_of i os | Some y \<Rightarrow> y # effects_of i os)"
  "effects_of i (os @ os') = effects_of i os @ effects_of i os'"
  by (auto simp: effects_of_def List.map_filter_def split: option.splits)

lemma effects_of_writes [simp]:
  "effects_of i (map (\<lambda>(p, s, q, b). SvWrite j (g p s q b)) rs)
     = (if j = i then map (\<lambda>(p, s, q, b). SvWrite j (g p s q b)) rs else [])"
  by (induction rs) auto

text \<open>
  The handlers stay as they are, and the application answers session \<open>i\<close> in its request handler
  only. Everything else may happen, on any session.
\<close>

fun same_handlers :: "nat \<Rightarrow> server \<Rightarrow> server_event \<Rightarrow> bool" where
  "same_handlers i sv (DoStart _) = False"
| "same_handlers i sv (DoSetAuth _) = False"
| "same_handlers i sv (SRespond j r) = (j \<noteq> i \<and> Server_ok sv (SRespond j r))"
| "same_handlers i sv e = Server_ok sv e"

definition session_rx :: "auth_handler option \<Rightarrow> request_handler option \<Rightarrow> nat \<Rightarrow> server \<Rightarrow> bool" where
  "session_rx a q i sv \<longleftrightarrow> server_inv sv \<and> i < length (sv_objs sv) \<and> sv_onAuth sv = a \<and> sv_onRequest sv = q"

definition session_rd :: "auth_handler option \<Rightarrow> request_handler option \<Rightarrow> nat \<Rightarrow> server \<Rightarrow> bytes \<Rightarrow> bool" where
  "session_rd a q i sv b \<longleftrightarrow> session_rx a q i sv \<and>
     (se_reading (sv_objs sv ! i) = Some RdHeader \<and> b = []
      \<or> (\<exists>f. wf_frame f \<and> b = header_of f \<and> se_reading (sv_objs sv ! i) = Some (RdBody (length (f_body f)))
           \<and> se_headerBuf (sv_objs sv ! i) = header_of f))"

definition session_stopped :: "auth_handler option \<Rightarrow> request_handler option \<Rightarrow> nat \<Rightarrow> server \<Rightarrow> bool" where
  "session_stopped a q i sv \<longleftrightarrow> session_rx a q i sv \<and> se_reading (sv_objs sv ! i) = None"

text \<open>What a session keeps while others are served.\<close>

definition session_view :: "nat \<Rightarrow> server \<Rightarrow> read_op option \<times> bytes \<times> bool" where
  "session_view i sv = (se_reading (sv_objs sv ! i), se_headerBuf (sv_objs sv ! i), se_authenticated (sv_objs sv ! i))"

definition handlers :: "server \<Rightarrow> auth_handler option \<times> request_handler option" where
  "handlers sv = (sv_onAuth sv, sv_onRequest sv)"

lemma session_view_other [simp]:
  "i < length (sv_objs sv) \<Longrightarrow> j \<noteq> i \<Longrightarrow> session_view i (with_session j g sv) = session_view i sv"
  "session_view i (sv\<lparr>sv_sessions := a\<rparr>) = session_view i sv"
  "session_view i (sv\<lparr>sv_accepts := n\<rparr>) = session_view i sv"
  "session_view i (sv\<lparr>sv_acceptorOpen := b\<rparr>) = session_view i sv"
  "session_view i (sv\<lparr>sv_maxConnections := n\<rparr>) = session_view i sv"
  "i < length (sv_objs sv) \<Longrightarrow> session_view i (sv\<lparr>sv_objs := sv_objs sv @ ss\<rparr>) = session_view i sv"
  by (simp_all add: session_view_def nth_append)

lemma handlers_simps [simp]:
  "handlers (with_session j g sv) = handlers sv"
  "handlers (sv\<lparr>sv_sessions := a\<rparr>) = handlers sv"
  "handlers (sv\<lparr>sv_accepts := n\<rparr>) = handlers sv"
  "handlers (sv\<lparr>sv_acceptorOpen := b\<rparr>) = handlers sv"
  "handlers (sv\<lparr>sv_maxConnections := n\<rparr>) = handlers sv"
  "handlers (sv\<lparr>sv_objs := ss\<rparr>) = handlers sv"
  by (simp_all add: handlers_def)

lemma responds_other [simp]:
  "i < length (sv_objs sv) \<Longrightarrow> session_view i (fst (seqs (map (Session_respond h j) rs) sv)) = session_view i sv"
  "handlers (fst (seqs (map (Session_respond h j) rs) sv)) = handlers sv"
proof -
  show "session_view i (fst (seqs (map (Session_respond h j) rs) sv)) = session_view i sv" if "i < length (sv_objs sv)"
    using Session_responds_nth [OF that, of h j rs] by (auto simp: session_view_def)
  show "handlers (fst (seqs (map (Session_respond h j) rs) sv)) = handlers sv"
    by (simp add: handlers_def)
qed

lemma Server_stop_view:
  "i < length (sv_objs sv) \<Longrightarrow> session_view i (fst (Server_stop sv)) = session_view i sv"
  "handlers (fst (Server_stop sv)) = handlers sv" "effects_of i (snd (Server_stop sv)) = []"
proof -
  let ?close = "\<lambda>i. seqs [modify (with_session i (\<lambda>s. s\<lparr>se_open := False\<rparr>)), emit (SvSocketClose i)]"
  have *: "(i < length (sv_objs sv') \<longrightarrow> session_view i (fst (seqs (map ?close is) sv')) = session_view i sv')
      \<and> handlers (fst (seqs (map ?close is) sv')) = handlers sv' \<and> effects_of i (snd (seqs (map ?close is) sv')) = []"
    for "is" sv'
    by (induction "is" arbitrary: sv') (simp_all, simp add: session_view_def)
  then show "i < length (sv_objs sv) \<Longrightarrow> session_view i (fst (Server_stop sv)) = session_view i sv"
    "handlers (fst (Server_stop sv)) = handlers sv" "effects_of i (snd (Server_stop sv)) = []"
    by (simp_all add: Server_stop_def)
qed

lemma Server_step_elsewhere:
  assumes "Session_read i e = None" and "same_handlers i sv e" and i: "i < length (sv_objs sv)"
  shows "session_view i (fst (Server_step h sv e)) = session_view i sv \<and> handlers (fst (Server_step h sv e)) = handlers sv
    \<and> effects_of i (snd (Server_step h sv e)) = []"
proof (cases e)
  case (Accepted ec)
  have "length (sv_objs sv) \<noteq> i" using i by simp
  with i Accepted show ?thesis
    by (simp add: Server_onAccept_def Server_doAccept_def Session_defs Let_def)
      (simp add: session_view_def nth_append)
next
  case (SHeaderRead j ec d)
  with assms show ?thesis
    by (simp add: Session_onReadHeader_def Session_defs Let_def split: if_splits)
next
  case (SBodyRead j ec d)
  with assms show ?thesis
    by (simp add: Session_onReadBody_def Session_bind_def Session_request_def Session_defs Let_def
        Session_responds_snd split: if_splits option.split)
next
  case (SWriteDone j)
  with i show ?thesis by (cases "j = i") (simp_all, simp add: session_view_def)
qed (use assms in \<open>simp_all add: Server_stop_view Server_setMaxConnections_def\<close>)

lemma Server_step_objs: "length (sv_objs sv) \<le> length (sv_objs (fst (Server_step h sv e)))"
proof -
  have "length (sv_objs (fst (seqs (map (\<lambda>i. seqs [modify (with_session i (\<lambda>s. s\<lparr>se_open := False\<rparr>)),
      emit (SvSocketClose i)]) is) sv'))) = length (sv_objs sv')" for "is" sv'
    by (induction "is" arbitrary: sv') simp_all
  then show ?thesis
    by (cases e) (simp_all add: Server_start_def Server_doAccept_def Server_stop_def Server_setAuthHandler_def
        Server_setMaxConnections_def Server_onAccept_def Session_onReadHeader_def Session_onReadBody_def
        Session_bind_def Session_request_def Session_defs Let_def split: option.split)
qed

lemma session_rx_step:
  assumes rx: "session_rx a q i sv" and ok: "same_handlers i sv e"
  shows "session_rx a q i (fst (Server_step h sv e))"
proof -
  have inv: "server_inv sv" "i < length (sv_objs sv)" "Server_ok sv e"
    using assms by (cases e; simp add: session_rx_def)+
  have "handlers (fst (Server_step h sv e)) = handlers sv"
  proof (cases "Session_read i e")
    case None
    with Server_step_elsewhere [OF None ok inv(2)] show ?thesis by simp
  next
    case (Some r)
    then show ?thesis
      by (cases e) (simp_all add: Session_onReadHeader_def Session_onReadBody_def Session_bind_def Session_request_def
          Session_defs Let_def split: if_splits option.split)
  qed
  with rx Server_step_inv [OF inv(1,3), of h] Server_step_objs [of sv h e] show ?thesis by (auto simp: session_rx_def handlers_def)
qed

interpretation session_rx: machine "Server_step h" "same_handlers i" "session_rx a q i" for h i a q
  by unfold_locales (rule session_rx_step)

text \<open>A header and a body that have arrived, and a read that has failed.\<close>

lemma Session_step_header:
  assumes "session_rx a q i sv" and "wf_frame f"
  shows "session_view i (fst (Server_step h sv (SHeaderRead i None (header_of f))))
      = (Some (RdBody (length (f_body f))), header_of f, se_authenticated (sv_objs sv ! i))"
    "effects_of i (snd (Server_step h sv (SHeaderRead i None (header_of f)))) = []"
proof -
  have i: "i < length (sv_objs sv)" "length (se_headerBuf (sv_objs sv ! i)) = 10"
    using assms(1) server_inv_nth [of sv i] by (auto simp: session_rx_def session_inv_def)
  note defs = Session_onReadHeader_def Session_doReadBody_def Let_def session_view_def
  have "session_view i (fst (Server_step h sv (SHeaderRead i None (header_of f))))
      = (Some (RdBody (unat (hdr_total h (header_of f) - 10))), header_of f, se_authenticated (sv_objs sv ! i))"
    using i by (simp add: defs)
  then show "session_view i (fst (Server_step h sv (SHeaderRead i None (header_of f))))
      = (Some (RdBody (length (f_body f))), header_of f, se_authenticated (sv_objs sv ! i))"
    using wf_frame_body [OF assms(2)] by (simp add: header_of_def del: of_nat_add)
  show "effects_of i (snd (Server_step h sv (SHeaderRead i None (header_of f)))) = []"
    using i by (simp add: defs)
qed

lemma Session_step_body:
  assumes rx: "session_rx a q i sv" and rd: "se_reading (sv_objs sv ! i) = Some (RdBody (length (f_body f)))"
    and hb: "se_headerBuf (sv_objs sv ! i) = header_of f"
  shows "se_reading (sv_objs (fst (Server_step h sv (SBodyRead i None (f_body f)))) ! i) = Some RdHeader"
    and "(se_authenticated (sv_objs (fst (Server_step h sv (SBodyRead i None (f_body f)))) ! i),
          effects_of i (snd (Server_step h sv (SBodyRead i None (f_body f)))))
      = session_spec a q i (se_authenticated (sv_objs sv ! i)) f"
proof -
  have i: "i < length (sv_objs sv)" "length (se_bodyBuf (sv_objs sv ! i)) = length (f_body f)"
      "sv_onAuth sv = a" "sv_onRequest sv = q"
    using rx rd server_inv_nth [of sv i] by (auto simp: session_rx_def session_inv_def)
  have hdr: "header_of f ! 4 = f_pid f" "header_of f ! 5 = f_status f" "hdr_seq h (header_of f) = f_seq f"
    by (simp_all add: header_of_def del: of_nat_add)
  note defs = Session_onReadBody_def Session_bind_def Session_request_def Session_defs Let_def
  show "se_reading (sv_objs (fst (Server_step h sv (SBodyRead i None (f_body f)))) ! i) = Some RdHeader"
    using i by (auto simp: defs split: option.split)
  show "(se_authenticated (sv_objs (fst (Server_step h sv (SBodyRead i None (f_body f)))) ! i),
          effects_of i (snd (Server_step h sv (SBodyRead i None (f_body f)))))
      = session_spec a q i (se_authenticated (sv_objs sv ! i)) f"
    using i hb
    by (cases "se_authenticated (sv_objs sv ! i)")
      (auto simp: defs hdr Session_responds_fields Session_responds_snd bind_resp_frame respond_msg_frame split: option.split)
qed

lemma Session_step_failed:
  assumes "session_rx a q i sv" and "Session_read i e = Some (Some x, d)"
  shows "se_reading (sv_objs (fst (Server_step h sv e)) ! i) = None"
    "se_authenticated (sv_objs (fst (Server_step h sv e)) ! i) = se_authenticated (sv_objs sv ! i)"
    "effects_of i (snd (Server_step h sv e)) = []"
  using assms
  by (cases e; auto simp: Session_onReadHeader_def Session_onReadBody_def Session_defs session_rx_def split: if_splits)+

lemma Session_read_cases:
  obtains (other) "Session_read i e = None" | (failed) x d where "Session_read i e = Some (Some x, d)"
    | (header) d where "e = SHeaderRead i None d" | (body) d where "e = SBodyRead i None d"
proof (cases "Session_read i e")
  case (Some r)
  then show ?thesis by (cases e; cases "fst r") (auto intro: that split: if_splits)
qed (rule that(1))

lemma session_rd_cases:
  assumes "session_rd a q i sv b" and "wf_frame f" and "prefix b (encode_frame f)"
  obtains (header) "se_reading (sv_objs sv ! i) = Some RdHeader" "b = []"
    | (body) "se_reading (sv_objs sv ! i) = Some (RdBody (length (f_body f)))" "b = header_of f"
        "se_headerBuf (sv_objs sv ! i) = header_of f"
proof (cases "se_reading (sv_objs sv ! i) = Some RdHeader")
  case True
  with assms(1) header show ?thesis by (auto simp: session_rd_def)
next
  case False
  with assms(1) obtain g where g: "wf_frame g" "b = header_of g"
      "se_reading (sv_objs sv ! i) = Some (RdBody (length (f_body g)))" "se_headerBuf (sv_objs sv ! i) = header_of g"
    by (auto simp: session_rd_def)
  with assms(3) have "header_of g = header_of f"
    using prefix_10_header [of "header_of g" f "[]"] by simp
  with g header_of_eqD [OF this g(1) assms(2)] body show ?thesis by simp
qed

lemma session_rd_step:
  assumes rd: "session_rd a q i sv b" and ok: "same_handlers i sv e" and wf: "wf_frame f"
    and b: "prefix b (encode_frame f)" and more: "prefix (b @ got_of (Session_read i) e) (encode_frame f @ rest)"
  shows "let sv' = fst (Server_step h sv e); os = snd (Server_step h sv e); g = got_of (Session_read i) e in
      prefix (b @ g) (encode_frame f) \<and> (session_rd a q i sv' (b @ g) \<or> session_stopped a q i sv')
        \<and> se_authenticated (sv_objs sv' ! i) = se_authenticated (sv_objs sv ! i) \<and> effects_of i os = []
      \<or> b @ g = encode_frame f \<and> (session_rd a q i sv' [] \<or> session_stopped a q i sv')
        \<and> (se_authenticated (sv_objs sv' ! i), effects_of i os)
          = session_spec a q i (se_authenticated (sv_objs sv ! i)) f"
proof -
  have rx: "session_rx a q i sv" using rd by (simp add: session_rd_def)
  have rx': "session_rx a q i (fst (Server_step h sv e))" using session_rx_step [OF rx ok] .
  have i: "i < length (sv_objs sv)" using rx by (simp add: session_rx_def)
  show ?thesis
  proof (cases rule: Session_read_cases [of i e])
    case other
    with rd rx' Server_step_elsewhere [OF other ok i, of h] b show ?thesis
      by (simp add: session_rd_def got_of_def session_view_def Let_def)
  next
    case (failed x d)
    have "prefix (b @ d) (encode_frame f)"
      using rd wf b
    proof (cases rule: session_rd_cases)
      case header
      with failed ok have "length d \<le> 10" by (cases e) (simp_all split: if_splits)
      with prefix_short_header [of d f rest] header failed more show ?thesis by (simp add: got_of_def)
    next
      case body
      with failed ok have "length d \<le> length (f_body f)" by (cases e) (simp_all split: if_splits)
      with body failed more show ?thesis
        using prefix_header_body [of f d rest] by (simp add: got_of_def encode_frame_header)
    qed
    with failed rx' Session_step_failed [OF rx failed, of h] show ?thesis
      by (simp add: session_stopped_def got_of_def Let_def)
  next
    case (header d)
    with ok rd have d: "length d = 10" "b = []" by (auto simp: session_rd_def)
    with more header have "d = header_of f" by (simp add: got_of_def prefix_10_header)
    with header d wf rx' Session_step_header [OF rx wf, of h] show ?thesis
      by (auto simp: session_rd_def session_view_def got_of_def encode_frame_header Let_def simp del: Server_step.simps)
  next
    case (body d)
    from rd wf b have last: "b = header_of f" "se_reading (sv_objs sv ! i) = Some (RdBody (length (f_body f)))"
        "se_headerBuf (sv_objs sv ! i) = header_of f" "length d = length (f_body f)"
      by (cases rule: session_rd_cases; use ok body in \<open>auto\<close>)+
    have "prefix d (f_body f)"
      using prefix_header_body [of f d rest] more body last(1,4) by (simp add: got_of_def)
    with last(4) body have e: "e = SBodyRead i None (f_body f)" by (auto simp: prefix_def)
    have "session_rd a q i (fst (Server_step h sv e)) []"
      using rx' Session_step_body(1) [OF rx last(2,3), of h] by (simp add: session_rd_def e del: Server_step.simps)
    moreover have "b @ got_of (Session_read i) e = encode_frame f"
      by (simp add: e last(1) got_of_def encode_frame_header)
    ultimately show ?thesis
      using Session_step_body(2) [OF rx last(2,3), of h] unfolding e Let_def by blast
  qed
qed

lemma session_stopped_step:
  assumes st: "session_stopped a q i sv" and ok: "same_handlers i sv e"
  shows "got_of (Session_read i) e = [] \<and> session_stopped a q i (fst (Server_step h sv e))
    \<and> se_authenticated (sv_objs (fst (Server_step h sv e)) ! i) = se_authenticated (sv_objs sv ! i)
    \<and> effects_of i (snd (Server_step h sv e)) = []"
proof -
  have none: "Session_read i e = None"
    using assms by (cases e) (auto simp: session_stopped_def)
  with st session_rx_step [OF _ ok, of a q h] Server_step_elsewhere [OF none ok, of h] show ?thesis
    by (simp add: session_stopped_def got_of_def session_view_def session_rx_def)
qed

interpretation session_stream: interleaved_reader "Server_step h" "same_handlers i" "got_of (Session_read i)"
    encode_frame wf_frame "session_rd a q i" "session_stopped a q i" "\<lambda>sv. se_authenticated (sv_objs sv ! i)"
    "effect_of i" "session_spec a q i" for h i a q
proof (unfold_locales, goal_cases)
  case (1 s b e f rest)
  from session_rd_step [OF this, of h] show ?case by (simp add: effects_of_def Let_def)
next
  case 2
  have "wf_frame \<lparr>f_pid = 0, f_status = 0, f_seq = 0, f_body = []\<rparr>" by (simp add: wf_frame_def)
  then show ?case using turbo.enc_nonempty by blast
next
  case (3 s e)
  from session_stopped_step [OF this, of h] show ?case by (simp add: effects_of_def)
next
  case (4 s b)
  then show ?case by (auto simp: session_rd_def session_stopped_def)
next
  case (5 s b b')
  then show ?case by (auto simp: session_rd_def)
qed

text \<open>What a session has handled in a run.\<close>

lemma session_run_handled:
  assumes "allowed Server_ok (Server_step h) (Server_new m) es" and sv: "sv = fst (run (Server_step h) (Server_new m) es)"
    and idle: "session_idle a q i sv" and ok: "allowed (same_handlers i) (Server_step h) sv es'"
    and wf: "list_all wf_frame fs" and rx: "prefix (received (got_of (Session_read i)) es') (wire encode_frame fs)"
    and r: "run (Server_step h) sv es' = (sv', os)"
  shows "\<exists>n. handled encode_frame (session_spec a q i) (se_authenticated (sv_objs sv ! i)) fs
    (received (got_of (Session_read i)) es') (se_reading (sv_objs sv' ! i) = Some RdHeader)
    (se_authenticated (sv_objs sv' ! i), effects_of i os) n"
proof -
  have "server_inv sv" unfolding sv by (rule server.run_inv [OF server_inv_new assms(1)])
  with idle have rx0: "session_rx a q i sv" and rd: "session_rd a q i sv []"
    by (auto simp: session_rd_def session_rx_def session_idle_def)
  from session_stream.run_handled [OF rd ok wf] rx r obtain n where
    n: "handled encode_frame (session_spec a q i) (se_authenticated (sv_objs sv ! i)) fs
       (received (got_of (Session_read i)) es') (session_rd a q i sv' [])
       (se_authenticated (sv_objs sv' ! i), effects_of i os) n"
    by (auto simp: effects_of_def)
  have "session_rx a q i sv'"
    using session_rx.run_inv [OF rx0 ok] r by simp
  with n show ?thesis
    by (intro exI [of _ n]) (auto simp: handled_def session_rd_def)
qed

text \<open>
  C7: what a session receives, in any run. Take any run that Boost.Asio allows, and any run after
  it in which the handlers stay as they are and the application answers this session in its
  request handler only: reads and writes of this and all other sessions, new connections and
  \<open>stop\<close> in any order, reads failing at any point. If the bytes that arrive on the session are a
  prefix of a stream of packets of the format, then the authentication callbacks, requests and
  replies of this session are exactly those of the specification for the first \<open>n\<close> packets, in
  order; the bytes taken beyond them belong to the next packet, and there are none while the
  session waits for a header. Nothing that other clients do interferes.
\<close>

theorem session_refines_spec_in_any_run:
  assumes "allowed Server_ok (Server_step h) (Server_new m) es" and sv: "sv = fst (run (Server_step h) (Server_new m) es)"
    and idle: "session_idle a q i sv" and ok: "allowed (same_handlers i) (Server_step h) sv es'"
    and wf: "list_all wf_frame fs" and rx: "prefix (received (got_of (Session_read i)) es') (wire encode_frame fs)"
    and r: "run (Server_step h) sv es' = (sv', os)"
  shows "\<exists>n \<le> length fs.
      (se_authenticated (sv_objs sv' ! i), effects_of i os)
        = run (session_spec a q i) (se_authenticated (sv_objs sv ! i)) (take n fs)
    \<and> prefix (wire encode_frame (take n fs)) (received (got_of (Session_read i)) es')
    \<and> prefix (received (got_of (Session_read i)) es') (wire encode_frame (take (Suc n) fs))
    \<and> (se_reading (sv_objs sv' ! i) = Some RdHeader \<longrightarrow>
         received (got_of (Session_read i)) es' = wire encode_frame (take n fs))"
  using session_run_handled [OF assms] by (auto simp: handled_def)

text \<open>Two sessions of the sample server, the packets of the first interleaved with a bind of the second.\<close>

theorem session_refines_spec_in_any_run_witness:
  "let sv = fst (run (Server_step LittleEndian) (Server_new 2) (sample_server @ [Accepted None]));
       f = bind_frame ''a''; g = \<lparr>f_pid = 2, f_status = 0, f_seq = 7, f_body = [5]\<rparr>;
       es = [SHeaderRead 0 None (header_of f), SHeaderRead 1 None (header_of (bind_frame ''b'')), SBodyRead 0 None (bytes_of ''a''),
             SBodyRead 1 None (bytes_of ''b''), SHeaderRead 0 None (header_of g), DoStop, SBodyRead 0 (Some operation_aborted) []];
       (sv', os) = run (Server_step LittleEndian) sv es
   in \<exists>n \<le> 2. (se_authenticated (sv_objs sv' ! 0), effects_of 0 os)
          = run (session_spec (sv_onAuth sv) (sv_onRequest sv) 0) False (take n [f, g])
        \<and> effects_of 0 os = [SvAuth 0 ''a'' True, SvWrite 0 (bind_resp LittleEndian (header_of f))]"
proof -
  let ?sv = "fst (run (Server_step LittleEndian) (Server_new 2) (sample_server @ [Accepted None]))"
  let ?f = "bind_frame ''a''" and ?g = "\<lparr>f_pid = 2, f_status = 0, f_seq = 7, f_body = [5]\<rparr>"
  let ?es = "[SHeaderRead 0 None (header_of ?f), SHeaderRead 1 None (header_of (bind_frame ''b'')), SBodyRead 0 None (bytes_of ''a''),
             SBodyRead 1 None (bytes_of ''b''), SHeaderRead 0 None (header_of ?g), DoStop, SBodyRead 0 (Some operation_aborted) []]"
  let ?r = "run (Server_step LittleEndian) ?sv ?es"
  have 1: "allowed Server_ok (Server_step LittleEndian) (Server_new 2) (sample_server @ [Accepted None])" by code_simp
  have auth: "\<not> se_authenticated (sv_objs ?sv ! 0)" by code_simp
  have "0 < length (sv_objs ?sv)" "se_reading (sv_objs ?sv ! 0) = Some RdHeader" "length (se_headerBuf (sv_objs ?sv ! 0)) = 10"
    by code_simp+
  then have 2: "session_idle (sv_onAuth ?sv) (sv_onRequest ?sv) 0 ?sv" unfolding session_idle_def by blast
  have 3: "allowed (same_handlers 0) (Server_step LittleEndian) ?sv ?es" by code_simp
  have 4: "list_all wf_frame [?f, ?g]" by (simp add: wf_frame_def)
  have 5: "prefix (received (got_of (Session_read 0)) ?es) (wire encode_frame [?f, ?g])" by code_simp
  have eff: "effects_of 0 (snd ?r) = [SvAuth 0 ''a'' True, SvWrite 0 (bind_resp LittleEndian (header_of ?f))]" by code_simp
  from session_refines_spec_in_any_run [OF 1 refl 2 3 4 5 prod.collapse [symmetric]] obtain n where
    n: "n \<le> length [?f, ?g]" "(se_authenticated (sv_objs (fst ?r) ! 0), effects_of 0 (snd ?r))
      = run (session_spec (sv_onAuth ?sv) (sv_onRequest ?sv) 0) (se_authenticated (sv_objs ?sv ! 0)) (take n [?f, ?g])" by blast
  from n(1) have "n \<le> 2" by simp
  moreover from n(2) auth have "(se_authenticated (sv_objs (fst ?r) ! 0), effects_of 0 (snd ?r))
      = run (session_spec (sv_onAuth ?sv) (sv_onRequest ?sv) 0) False (take n [?f, ?g])" by (simp only: simp_thms)
  ultimately show ?thesis using eff unfolding Let_def case_prod_beta by blast
qed

end
