(* ===== verification/Apps.thy ===== *)
theory Apps
  imports TurboClientReceive TurboServerProps
begin

text \<open>
  The two example programs, \<open>server.cpp\<close> (admits two client ids and echoes) and \<open>client.cpp\<close>
  (binds and sends one request), and the library end to end: what a client sends is what a
  session receives, and the session's writes are what the client receives, also between hosts
  of different byte order.
\<close>

section \<open>The programs\<close>

definition validClients :: "string list" where
  "validClients = [''client_123'', ''client_abc'']"

definition server_app_auth :: auth_handler where
  "server_app_auth clientId = (clientId \<in> set validClients)"

definition server_app_request :: request_handler where
  "server_app_request packetId status sq payload =
     (let msg = string_of payload; reply = ''Echo: '' @ msg in [(0x82, 0x00, sq, bytes_of reply)])"

text \<open>\<open>main\<close> of \<open>server.cpp\<close> up to the point where it waits for the user.\<close>

definition server_app_main :: "server_event list" where
  "server_app_main = [DoSetAuth (Some server_app_auth), DoStart (Some server_app_request)]"

definition client_app :: client where
  "client_app = Client_configured 5000 5000 10000 ''client_123''
     (Some (\<lambda>serverId. [])) (Some (\<lambda>packetId status sq payload. [])) (Some (\<lambda>sq. [])) False"

text \<open>The connect handler sends its request at time \<open>now\<close>.\<close>

definition client_app_onConnect :: "time \<Rightarrow> error_code \<Rightarrow> api_call list" where
  "client_app_onConnect now ec = (if ec \<noteq> None then [] else [ApiSendRequest (bytes_of ''hello_server'') now])"

definition client_app_main :: "time \<Rightarrow> client_event list" where
  "client_app_main now = [DoConnect ''127.0.0.1'' 9000 5000 (Some (client_app_onConnect now)) True]"

text \<open>The echo server after its first accept: a session that waits for its first header.\<close>

lemma server_app_session:
  "session_idle (Some server_app_auth) (Some server_app_request) 0
     (fst (run (Server_step h) (Server_new 10) (server_app_main @ [Accepted None])))"
  "\<not> se_authenticated (sv_objs (fst (run (Server_step h) (Server_new 10) (server_app_main @ [Accepted None]))) ! 0)"
  by (simp_all add: server_app_main_def session_idle_def Server_new_def Server_setAuthHandler_def Server_start_def
      Server_doAccept_def Server_onAccept_def Session_defs Session_new_def Let_def with_session_def)

section \<open>A session that is not bound is deaf\<close>

lemma session_spec_unbound:
  "list_all (\<lambda>f. f_pid f \<noteq> 0x01) fs \<Longrightarrow> run (session_spec a q i) False fs = (False, [])"
  by (induction fs) (simp_all add: prod_eq_iff)

text \<open>
  A session whose client sends no bind request ignores everything it receives: no callback
  is invoked and nothing is written, whatever the packets are.
\<close>

theorem server_ignores_unbound:
  assumes "session_idle a q i sv" and "\<not> se_authenticated (sv_objs sv ! i)"
    and "list_all wf_frame fs" and "list_all (\<lambda>f. f_pid f \<noteq> 0x01) fs"
  shows "\<exists>sv' os. feed (Session_want i) (Session_deliver h i) (2 * length fs) sv (wire encode_frame fs) = (sv', os, [])
    \<and> session_effects os = [] \<and> \<not> se_authenticated (sv_objs sv' ! i)"
  using session_reader.many_frames [OF assms(1,3), of h "[]"] assms(2)
  by (auto simp: session_effects_def sum_list_triv mult.commute session_spec_unbound [OF assms(4)])

theorem server_ignores_unbound_witness:
  "let sv = fst (run (Server_step LittleEndian) (Server_new 10) (server_app_main @ [Accepted None]));
       fs = [\<lparr>f_pid = 2, f_status = 0, f_seq = 1, f_body = [7]\<rparr>]
   in \<exists>sv' os. feed (Session_want 0) (Session_deliver LittleEndian 0) 2 sv (wire encode_frame fs) = (sv', os, [])
        \<and> session_effects os = []"
proof -
  let ?sv = "fst (run (Server_step LittleEndian) (Server_new 10) (server_app_main @ [Accepted None]))"
  let ?fs = "[\<lparr>f_pid = 2, f_status = 0, f_seq = 1, f_body = [7]\<rparr>]"
  have "session_idle (Some server_app_auth) (Some server_app_request) 0 ?sv" "\<not> se_authenticated (sv_objs ?sv ! 0)"
    using server_app_session by simp_all
  moreover have "list_all wf_frame ?fs" "list_all (\<lambda>f. f_pid f \<noteq> 0x01) ?fs" by (simp_all add: wf_frame_def)
  ultimately have "\<exists>sv' os. feed (Session_want 0) (Session_deliver LittleEndian 0) (2 * length ?fs) ?sv (wire encode_frame ?fs)
      = (sv', os, []) \<and> session_effects os = [] \<and> \<not> se_authenticated (sv_objs sv' ! 0)"
    by (rule server_ignores_unbound)
  then show ?thesis by (simp add: Let_def del: feed.simps run.simps) blast
qed

section \<open>End to end\<close>

text \<open>The messages written to session \<open>i\<close>.\<close>

fun written_to :: "nat \<Rightarrow> server_effect \<Rightarrow> bytes option" where
  "written_to i (SvWrite j m) = (if i = j then Some m else None)"
| "written_to i _ = None"

definition written :: "nat \<Rightarrow> server_effect list \<Rightarrow> bytes list" where
  "written i os = List.map_filter (written_to i) os"

lemma written_simps [simp]:
  "written i [] = []"
  "written i (x # os) = (case written_to i x of None \<Rightarrow> written i os | Some d \<Rightarrow> d # written i os)"
  "written i (os @ os') = written i os @ written i os'"
  by (auto simp: written_def List.map_filter_def split: option.splits)

lemma written_session_effects: "written i (session_effects os) = written i os"
proof (induction os)
  case (Cons x os)
  then show ?case by (cases x) (simp_all add: written_def List.map_filter_def)
qed (simp add: written_def List.map_filter_def)

text \<open>
  A client whose id the authentication callback accepts sends its bind request and then a
  request with the message \<open>msg\<close> to a session of the echo server; the session's answers reach the
  client. The client's callbacks report the server id \<open>test_server\<close> and the echoed message under
  the sequence number of the request. The hosts may have different byte orders.
\<close>

theorem echo_end_to_end:
  assumes "session_idle (Some server_app_auth) (Some server_app_request) i sv"
    and "\<not> se_authenticated (sv_objs sv ! i)" and "server_app_auth cid"
    and "receive_idle (Some b) (Some p) c" and "length msg < 4294967280"
  shows "\<exists>sv' os c' oc.
    feed (Session_want i) (Session_deliver hs i) 4 sv
      (sendPacket_pkt hc 0x01 0 s1 (bytes_of cid) @ sendPacket_pkt hc 0x02 0 s2 msg) = (sv', os, []) \<and>
    feed Client_want (Client_deliver hc) 4 c (concat (written i os)) = (c', oc, []) \<and>
    packet_calls oc = [CallBind server_id, CallPacket 0x81 0 s1 (bytes_of server_id),
                       CallPacket 0x82 0 s2 (bytes_of (''Echo: '' @ string_of msg))]"
proof -
  let ?a = "Some server_app_auth" and ?q = "Some server_app_request"
  let ?bind = "\<lparr>f_pid = 0x01, f_status = 0, f_seq = s1, f_body = bytes_of cid\<rparr>"
  let ?req = "\<lparr>f_pid = 0x02, f_status = 0, f_seq = s2, f_body = msg\<rparr>"
  let ?bound = "\<lparr>f_pid = 0x81, f_status = 0, f_seq = s1, f_body = bytes_of server_id\<rparr>"
  let ?echo = "\<lparr>f_pid = 0x82, f_status = 0, f_seq = s2, f_body = bytes_of (''Echo: '' @ string_of msg)\<rparr>"
  have "length cid < 100"
    using assms(3) by (auto simp: server_app_auth_def validClients_def)
  then have wf: "list_all wf_frame [?bind, ?req]" "list_all wf_frame [?bound, ?echo]"
    using assms(5) by (simp_all add: wf_frame_def server_id_def string_of_def)
  from session_reader.many_frames [OF assms(1) wf(1), of hs "[]"] obtain sv' os where
    1: "feed (Session_want i) (Session_deliver hs i) 4 sv (wire encode_frame [?bind, ?req]) = (sv', os, [])"
    and "session_effects os = snd (run (session_spec ?a ?q i) False [?bind, ?req])"
    using assms(2) by (auto simp: session_effects_def prod_eq_iff simp del: feed.simps wire_simps)
  then have "session_effects os = [SvAuth i cid True, SvWrite i (encode_frame ?bound), SvRequest i 0x02 0 s2 msg,
      SvWrite i (encode_frame ?echo)]"
    using assms(3) by (simp add: server_app_request_def)
  then have os: "concat (written i os) = wire encode_frame [?bound, ?echo]"
    by (subst written_session_effects [symmetric]) (simp add: written_def List.map_filter_def)
  from client_reader.many_frames [OF assms(4) wf(2), of hc "[]"] obtain c' oc where
    "feed Client_want (Client_deliver hc) 4 c (wire encode_frame [?bound, ?echo]) = (c', oc, [])"
    and "packet_calls oc = concat (map (callbacks_for (Some b) (Some p)) [?bound, ?echo])"
    by (auto simp: packet_calls_def run_callbacks simp del: feed.simps wire_simps)
  with 1 os show ?thesis
    by (intro exI conjI) (auto simp: sendPacket_pkt_frame callbacks_for_def simp del: feed.simps)
qed

lemma client_app_connected:
  "receive_idle (Some (\<lambda>serverId. [])) (Some (\<lambda>packetId status sq payload. []))
     (fst (run (Client_step h) client_app (client_app_main now @ [ConnectDone None])))"
  unfolding client_app_def client_app_main_def append_Cons append_Nil
  by (rule receive_idle_connected) (simp_all add: stays_open_def stays_open4_def client_app_onConnect_def)

theorem echo_end_to_end_witness:
  "let sv = fst (run (Server_step BigEndian) (Server_new 10) (server_app_main @ [Accepted None]));
       c = fst (run (Client_step LittleEndian) client_app (client_app_main 0 @ [ConnectDone None]))
   in \<exists>sv' os c' oc.
    feed (Session_want 0) (Session_deliver BigEndian 0) 4 sv
      (sendPacket_pkt LittleEndian 0x01 0 1 (bytes_of ''client_123'')
       @ sendPacket_pkt LittleEndian 0x02 0 2 (bytes_of ''hello_server'')) = (sv', os, []) \<and>
    feed Client_want (Client_deliver LittleEndian) 4 c (concat (written 0 os)) = (c', oc, []) \<and>
    packet_calls oc = [CallBind server_id, CallPacket 0x81 0 1 (bytes_of server_id),
                       CallPacket 0x82 0 2 (bytes_of (''Echo: '' @ string_of (bytes_of ''hello_server'')))]"
  unfolding Let_def
  by (rule echo_end_to_end [OF server_app_session _ client_app_connected])
    (simp_all add: server_app_auth_def validClients_def)

text \<open>
  The request of \<open>client.cpp\<close> is lost. Its connect handler sends it right after the bind
  request; both closures run before the first write can complete, and when it has, the bind
  request has been sent, the request has not, and nothing is left to send.
\<close>

theorem client_app_request_lost:
  "let es = client_app_main now @ [ConnectDone None, RunPosted, RunPosted, WriteDone None 20];
       (c, os) = run (Client_step h) client_app es
   in allowed Client_ok (Client_step h) client_app es \<and>
      posts os = [sendPacket_pkt h 0x01 0 1 (bytes_of ''client_123''), sendPacket_pkt h 0x02 0 2 (bytes_of ''hello_server'')] \<and>
      cl_sent c = sendPacket_pkt h 0x01 0 1 (bytes_of ''client_123'') \<and>
      cl_txBuffer c = [] \<and> cl_writing c = None \<and> cl_strand c = []"
  by (simp add: Let_def case_prod_beta client_app_def client_app_main_def client_app_onConnect_def
      Client_configured_defs Client_connect_def Client_onConnect_def Client_callback_def Client_doReadHeader_def
      Client_sendRequest_def Client_sendPacket_def Client_startResponseTimer_def Client_enqueue_def
      Client_doWrite_def Client_onWrite_def Client_timer_defs sendPacket_pkt_frame turbo.enc_nonempty)

end
