(* ===== verification/TurboNetwork.thy ===== *)
theory TurboNetwork
  imports TurboClientStream TurboServerStream Apps
begin

text \<open>
  A TurboNet client and a session of a TurboNet server, connected by TCP, in every pair of runs.
  What TCP guarantees is the only link between the two: the bytes one side has read are a prefix
  of the bytes the other side has written. The theorems combine what the client sends
  (\<open>TurboClientSend\<close>), what a session does with the packets it receives (\<open>TurboServerStream\<close>) and
  what the client does with those it receives (\<open>TurboClientStream\<close>).
\<close>

section \<open>Packets short enough for the length field\<close>

definition fits :: "bytes \<Rightarrow> bool" where
  "fits d \<longleftrightarrow> length d < 2 ^ 32"

lemma fits_wf: "list_all wf_frame fs" if "subseq (map encode_frame fs) ds" and "\<forall>d \<in> set ds. fits d"
proof -
  have "set (map encode_frame fs) \<subseteq> set ds" using that(1) by (rule subseq_set)
  with that(2) have "\<forall>f \<in> set fs. fits (encode_frame f)" by auto
  then show ?thesis by (simp add: list_all_iff fits_def wf_frame_def)
qed

section \<open>What a session writes\<close>

lemma written_effects_of: "written i (effects_of i os) = written i os"
proof (induction os)
  case (Cons x os)
  then show ?case by (cases x) auto
qed simp

lemma written_replies:
  "written i (map (\<lambda>(p, s, q, b). SvWrite i (g p s q b)) rs) = map (\<lambda>(p, s, q, b). g p s q b) rs"
  by (induction rs) auto

lemma session_spec_writes: "set (written i (snd (session_spec a q i s f))) \<subseteq> range encode_frame"
  by (cases s) (auto simp: written_replies Let_def split: option.split)

lemma session_run_writes: "set (written i (snd (run (session_spec a q i) s fs))) \<subseteq> range encode_frame"
  using session_spec_writes by (induction fs arbitrary: s) auto

section \<open>Both directions\<close>

text \<open>Connecting and then running on the connection is one run of the client.\<close>

lemma client_whole_run:
  assumes "allowed Client_ok (Client_step h) s es" and "run (Client_step h) s es = (c, os)"
    and "allowed one_connection (Client_step h) c es'" and "run (Client_step h) c es' = (c', os')"
  shows "run (Client_step h) s (es @ es') = (c', os @ os')" and "allowed Client_ok (Client_step h) s (es @ es')"
proof -
  show "run (Client_step h) s (es @ es') = (c', os @ os')" using assms(2,4) by (simp add: run_append)
  have "allowed Client_ok (Client_step h) c es'" if "allowed one_connection (Client_step h) c es'" for c
    using that by (induction es' arbitrary: c) (auto simp: one_connection_ok)
  with assms show "allowed Client_ok (Client_step h) s (es @ es')" by (simp add: allowed_append)
qed

text \<open>The packets of the client that a session has handled.\<close>

lemma requests_handled:
  assumes client: "allowed Client_ok (Client_step hc) (Client_configured r w t cid b p m k) es"
      "run (Client_step hc) (Client_configured r w t cid b p m k) es = (c, os)" "\<forall>d \<in> set (posts os). fits d"
    and server: "allowed Server_ok (Server_step hs) (Server_new n) ss" "sv = fst (run (Server_step hs) (Server_new n) ss)"
      "session_idle a q i sv" "allowed (same_handlers i) (Server_step hs) sv ss'" "run (Server_step hs) sv ss' = (sv', os')"
    and tcp: "prefix (received (got_of (Session_read i)) ss') (cl_sent c)"
  shows "\<exists>fs. subseq (map encode_frame fs) (posts os)
    \<and> (se_authenticated (sv_objs sv' ! i), effects_of i os') = run (session_spec a q i) (se_authenticated (sv_objs sv ! i)) fs"
proof -
  obtain fs where fs: "subseq (map encode_frame fs) (posts os)" "prefix (cl_sent c) (wire encode_frame fs)"
    using client_wire_frames [OF client(1,2)] by blast
  from session_run_handled [OF server(1-4) fits_wf [OF fs(1) client(3)] _ server(5)] tcp fs(2)
  obtain j where "(se_authenticated (sv_objs sv' ! i), effects_of i os')
      = run (session_spec a q i) (se_authenticated (sv_objs sv ! i)) (take j fs)"
    unfolding handled_def using prefix_order.trans by blast
  moreover have "subseq (map encode_frame (take j fs)) (posts os)"
    using fs(1) by (metis append_take_drop_id map_append subseq_appendD1)
  ultimately show ?thesis by blast
qed

text \<open>The packets of a session that the client has handled.\<close>

lemma replies_handled:
  assumes client: "allowed Client_ok (Client_step hc) (Client_configured r w t cid b p m k) (es @ [ConnectDone None])"
      "c = fst (run (Client_step hc) (Client_configured r w t cid b p m k) (es @ [ConnectDone None]))"
      "allowed one_connection (Client_step hc) c es'" "fails_for_good Client_read es'"
      "run (Client_step hc) c es' = (c', os)"
    and written: "set ds \<subseteq> range encode_frame" "\<forall>d \<in> set ds. fits d"
    and tcp: "prefix (received (got_of Client_read) es') (concat ds)"
  shows "\<exists>gs. prefix (map encode_frame gs) ds \<and> packet_calls os = concat (map (callbacks_for b p) gs)"
proof -
  obtain gs where gs: "map encode_frame gs = ds" using frames_of_posts [OF written(1)] by blast
  then have wf: "list_all wf_frame gs" using fits_wf [of gs ds] written(2) by simp
  have "prefix (received (got_of Client_read) es') (wire encode_frame gs)"
    using tcp gs by (simp add: wire_def)
  from client_run_handled [OF client(1-4) wf this client(5)] obtain j where
    "packet_calls os = concat (map (callbacks_for b p) (take j gs))"
    by (auto simp: handled_def run_callbacks)
  moreover have "prefix (map encode_frame (take j gs)) ds"
    using gs by (metis take_is_prefix take_map)
  ultimately show ?thesis by blast
qed


section \<open>The echo server and any client\<close>

text \<open>
  The replies of the echo server to a sequence of packets: nothing before the first bind request
  with a valid client id, then the bind response, then an echo of every packet.
\<close>

definition valid_bind :: "frame \<Rightarrow> bool" where
  "valid_bind f \<longleftrightarrow> f_pid f = 0x01 \<and> server_app_auth (string_of (f_body f))"

definition echo_of :: "frame \<Rightarrow> frame" where
  "echo_of f = \<lparr>f_pid = 0x82, f_status = 0, f_seq = f_seq f, f_body = bytes_of (''Echo: '' @ string_of (f_body f))\<rparr>"

fun echo_replies :: "frame list \<Rightarrow> frame list" where
  "echo_replies [] = []"
| "echo_replies (f # fs) =
     (if valid_bind f
      then \<lparr>f_pid = 0x81, f_status = 0, f_seq = f_seq f, f_body = bytes_of server_id\<rparr> # map echo_of fs
      else echo_replies fs)"

lemma echo_bound:
  "written i (snd (run (session_spec (Some server_app_auth) (Some server_app_request) i) True fs))
     = map (encode_frame \<circ> echo_of) fs"
  by (induction fs) (simp_all add: server_app_request_def echo_of_def)

lemma echo_written:
  "written i (snd (run (session_spec (Some server_app_auth) (Some server_app_request) i) False fs))
     = map encode_frame (echo_replies fs)"
  by (induction fs) (auto simp: valid_bind_def echo_bound Let_def)

lemma echo_replies_wf:
  assumes "\<forall>f \<in> set fs. length (f_body f) + 16 < 2 ^ 32"
  shows "list_all wf_frame (echo_replies fs)"
  using assms
  by (induction fs) (auto simp: wf_frame_def echo_of_def list_all_iff server_id_def string_of_def)


section \<open>A sample network\<close>

text \<open>
  A client that binds as \<open>client_123\<close>, sends one packet and reads two replies, and the echo server
  with a session for it.
\<close>

abbreviation net_client :: client where
  "net_client \<equiv> Client_configured 0 0 0 ''client_123'' (Some (\<lambda>s. [])) (Some (\<lambda>p s q d. [])) None False"

abbreviation net_bind :: frame where
  "net_bind \<equiv> \<lparr>f_pid = 1, f_status = 0, f_seq = 1, f_body = bytes_of ''client_123''\<rparr>"

abbreviation net_packet :: frame where
  "net_packet \<equiv> \<lparr>f_pid = 2, f_status = 0, f_seq = 9, f_body = bytes_of ''x''\<rparr>"

abbreviation net_bound :: frame where
  "net_bound \<equiv> \<lparr>f_pid = 0x81, f_status = 0, f_seq = 1, f_body = bytes_of server_id\<rparr>"

abbreviation net_echo :: frame where
  "net_echo \<equiv> \<lparr>f_pid = 0x82, f_status = 0, f_seq = 9, f_body = bytes_of ''Echo: x''\<rparr>"

abbreviation net_connect :: "client_event list" where
  "net_connect \<equiv> [DoConnect ''h'' 1 0 None True] @ [ConnectDone None]"

abbreviation net_talk :: "client_event list" where
  "net_talk \<equiv> [RunPosted, WriteDone None 20, DoCall (ApiSendPacket 2 0 9 (bytes_of ''x'')),
     HeaderRead None (header_of net_bound), RunPosted, BodyRead None (f_body net_bound), WriteDone None 11,
     HeaderRead None (header_of net_echo), BodyRead None (f_body net_echo)]"

abbreviation net_listen :: "server_event list" where
  "net_listen \<equiv> server_app_main @ [Accepted None]"

abbreviation net_serve :: "server_event list" where
  "net_serve \<equiv> [SHeaderRead 0 None (header_of net_bind), SBodyRead 0 None (f_body net_bind), SWriteDone 0,
     SHeaderRead 0 None (header_of net_packet), SBodyRead 0 None (f_body net_packet), SWriteDone 0]"

abbreviation net_connected :: client where
  "net_connected \<equiv> fst (run (Client_step LittleEndian) net_client net_connect)"

abbreviation net_server :: server where
  "net_server \<equiv> fst (run (Server_step BigEndian) (Server_new 10) net_listen)"

lemma net_client_runs:
  "allowed Client_ok (Client_step LittleEndian) net_client net_connect"
  "allowed one_connection (Client_step LittleEndian) net_connected net_talk"
  "fails_for_good Client_read net_talk"
  "packet_calls (snd (run (Client_step LittleEndian) net_connected net_talk)) =
     [CallBind server_id, CallPacket 0x81 0 1 (bytes_of server_id), CallPacket 0x82 0 9 (bytes_of ''Echo: x'')]"
  "map length (posts (snd (run (Client_step LittleEndian) net_client net_connect)
     @ snd (run (Client_step LittleEndian) net_connected net_talk))) = [20, 11]"
  by code_simp+

lemma net_server_runs:
  "allowed Server_ok (Server_step BigEndian) (Server_new 10) net_listen"
  "allowed (same_handlers 0) (Server_step BigEndian) net_server net_serve"
  "map length (written 0 (snd (run (Server_step BigEndian) net_server net_serve))) = [21, 17]"
  by code_simp+

lemma net_tcp:
  "prefix (received (got_of (Session_read 0)) net_serve)
     (cl_sent (fst (run (Client_step LittleEndian) net_connected net_talk)))"
  "prefix (received (got_of Client_read) net_talk)
     (concat (written 0 (snd (run (Server_step BigEndian) net_server net_serve))))"
  by code_simp+

lemma lengths_fit: "\<forall>d \<in> set ds. length d + 6 < 2 ^ 32" "\<forall>d \<in> set ds. fits d"
  if "map length ds = [m, n]" "m < 100" "n < 100"
proof -
  have "set (map length ds) = {m, n}" using that(1) by simp
  with that(2,3) have *: "\<forall>d \<in> set ds. length d < 100" by auto
  then show "\<forall>d \<in> set ds. length d + 6 < 2 ^ 32" "\<forall>d \<in> set ds. fits d" by (auto simp: fits_def)
qed

lemma net_session:
  "session_idle (Some server_app_auth) (Some server_app_request) 0 net_server"
  "\<not> se_authenticated (sv_objs net_server ! 0)"
  by (rule server_app_session)+

lemma net_fit:
  "\<forall>d \<in> set (posts (snd (run (Client_step LittleEndian) net_client net_connect)
     @ snd (run (Client_step LittleEndian) net_connected net_talk))). length d + 6 < 2 ^ 32"
  "\<forall>d \<in> set (posts (snd (run (Client_step LittleEndian) net_client net_connect)
     @ snd (run (Client_step LittleEndian) net_connected net_talk))). fits d"
  "\<forall>d \<in> set (written 0 (snd (run (Server_step BigEndian) net_server net_serve))). fits d"
  by (rule lengths_fit(1) [OF net_client_runs(5)], simp, simp, rule lengths_fit(2) [OF net_client_runs(5)], simp, simp,
      rule lengths_fit(2) [OF net_server_runs(3)], simp, simp)



end
