(* ===== verification/AsioPacket.thy ===== *)
theory AsioPacket
  imports ByteOrder Framing
begin

text \<open>
  The packets of \<open>claude/asio_server.cpp\<close> and \<open>claude/asio_client.cpp\<close> (both files declare the same
  structures). A packet is sent as the object representation of its header, with the two
  integers in network byte order, followed by the payload. The representation follows from the
  layout of the structure, which is computed here from the sizes and alignments of its members:
  two bytes of padding precede the sequence number, so the header has 12 bytes and not the 10 of
  the comment above it. The values of the padding bytes are not specified by the language; they
  are the parameters \<open>p1\<close> and \<open>p2\<close> of the definitions.
\<close>

section \<open>The layout of the header\<close>

definition align_up :: "nat \<Rightarrow> nat \<Rightarrow> nat" where
  "align_up n a = (n + a - 1) div a * a"

text \<open>Members are given by size and alignment; the result is their offsets and the end.\<close>

fun member_offsets :: "nat \<Rightarrow> (nat \<times> nat) list \<Rightarrow> nat list \<times> nat" where
  "member_offsets n [] = ([], n)"
| "member_offsets n ((sz, align) # ms) =
     (let off = align_up n align; (offs, e) = member_offsets (off + sz) ms in (off # offs, e))"

definition struct_size :: "(nat \<times> nat) list \<Rightarrow> nat" where
  "struct_size ms = align_up (snd (member_offsets 0 ms)) (foldr (max \<circ> snd) ms 1)"

definition PacketHeader_members :: "(nat \<times> nat) list" where
  "PacketHeader_members = [(4, 4), (1, 1), (1, 1), (4, 4)]"

definition sizeof_PacketHeader :: nat where
  "sizeof_PacketHeader = struct_size PacketHeader_members"

definition MAX_BUFFER_SIZE :: u32 where
  "MAX_BUFFER_SIZE = 16384"

section \<open>Headers and packets\<close>

record packet_header =
  ph_length :: u32
  ph_packetId :: u8
  ph_status :: u8
  ph_sequence :: u32

definition BIND :: u8 where "BIND = 0x01"
definition BIND_RESP :: u8 where "BIND_RESP = 0x81"
definition REQUEST :: u8 where "REQUEST = 0x02"
definition RESPONSE :: u8 where "RESPONSE = 0x82"

definition toNetworkByteOrder :: "endian \<Rightarrow> packet_header \<Rightarrow> packet_header" where
  "toNetworkByteOrder h hdr = hdr\<lparr>ph_length := htonl h (ph_length hdr), ph_sequence := htonl h (ph_sequence hdr)\<rparr>"

definition toHostByteOrder :: "endian \<Rightarrow> packet_header \<Rightarrow> packet_header" where
  "toHostByteOrder h hdr = hdr\<lparr>ph_length := ntohl h (ph_length hdr), ph_sequence := ntohl h (ph_sequence hdr)\<rparr>"

text \<open>The object representation of a header, and a header read from its representation.\<close>

definition header_mem :: "endian \<Rightarrow> u8 \<Rightarrow> u8 \<Rightarrow> packet_header \<Rightarrow> bytes" where
  "header_mem h p1 p2 hdr =
     mem_u32 h (ph_length hdr) @ [ph_packetId hdr, ph_status hdr, p1, p2] @ mem_u32 h (ph_sequence hdr)"

definition header_of_mem :: "endian \<Rightarrow> bytes \<Rightarrow> packet_header" where
  "header_of_mem h bs =
     \<lparr>ph_length = u32_mem h (take 4 bs), ph_packetId = bs ! 4, ph_status = bs ! 5,
      ph_sequence = u32_mem h (take 4 (drop 8 bs))\<rparr>"

record packet =
  pk_header :: packet_header
  pk_payload :: bytes

definition createPacket :: "u8 \<Rightarrow> u8 \<Rightarrow> u32 \<Rightarrow> bytes \<Rightarrow> packet" where
  "createPacket packetId status sq payload =
     \<lparr>pk_header = \<lparr>ph_length = of_nat (sizeof_PacketHeader + length payload), ph_packetId = packetId,
                   ph_status = status, ph_sequence = sq\<rparr>,
      pk_payload = payload\<rparr>"

definition createPacket_string :: "u8 \<Rightarrow> u8 \<Rightarrow> u32 \<Rightarrow> string \<Rightarrow> packet" where
  "createPacket_string packetId status sq data = createPacket packetId status sq (bytes_of data)"

definition serialize :: "endian \<Rightarrow> u8 \<Rightarrow> u8 \<Rightarrow> packet \<Rightarrow> bytes" where
  "serialize h p1 p2 p =
     (let buffer = replicate (sizeof_PacketHeader + length (pk_payload p)) 0;
          networkHeader = toNetworkByteOrder h (pk_header p);
          buffer = memcpy buffer 0 (header_mem h p1 p2 networkHeader)
      in if pk_payload p \<noteq> [] then memcpy buffer sizeof_PacketHeader (pk_payload p) else buffer)"

definition packetTypeToString :: "u8 \<Rightarrow> string" where
  "packetTypeToString packetId =
     (if packetId = BIND then ''BIND''
      else if packetId = BIND_RESP then ''BIND_RESP''
      else if packetId = REQUEST then ''REQUEST''
      else if packetId = RESPONSE then ''RESPONSE''
      else ''UNKNOWN'')"

lemmas packet_ids = BIND_def BIND_RESP_def REQUEST_def RESPONSE_def

section \<open>The format\<close>

definition header_wire :: "u8 \<Rightarrow> u8 \<Rightarrow> packet_header \<Rightarrow> bytes" where
  "header_wire p1 p2 hdr = be_bytes (ph_length hdr) @ [ph_packetId hdr, ph_status hdr, p1, p2] @ be_bytes (ph_sequence hdr)"

text \<open>Packets whose length field is right and which the receivers accept.\<close>

definition wf_packet :: "packet \<Rightarrow> bool" where
  "wf_packet p \<longleftrightarrow> ph_length (pk_header p) = of_nat (12 + length (pk_payload p)) \<and> 12 + length (pk_payload p) \<le> 16384"

definition decode_packet :: "bytes \<Rightarrow> (packet \<times> bytes) option" where
  "decode_packet bs =
     (if length bs < 12 then None
      else let hdr = \<lparr>ph_length = be_val (take 4 bs), ph_packetId = bs ! 4, ph_status = bs ! 5,
                     ph_sequence = be_val (take 4 (drop 8 bs))\<rparr>;
               n = unat (ph_length hdr)
           in if n < 12 \<or> 16384 < n \<or> length bs < n then None
              else Some (\<lparr>pk_header = hdr, pk_payload = take (n - 12) (drop 12 bs)\<rparr>, drop n bs))"

section \<open>Lemmas\<close>

lemma sizeof_PacketHeader [simp]: "sizeof_PacketHeader = 12"
  by (simp add: sizeof_PacketHeader_def struct_size_def PacketHeader_members_def align_up_def Let_def)

lemma PacketHeader_offsets: "fst (member_offsets 0 PacketHeader_members) = [0, 4, 5, 8]"
  by (simp add: PacketHeader_members_def align_up_def Let_def)

lemma length_header_mem [simp]: "length (header_mem h p1 p2 hdr) = 12"
  by (simp add: header_mem_def)

lemma length_header_wire [simp]: "length (header_wire p1 p2 hdr) = 12"
  by (simp add: header_wire_def)

lemma header_mem_network [codec_simps]: "header_mem h p1 p2 (toNetworkByteOrder h hdr) = header_wire p1 p2 hdr"
  by (simp add: header_mem_def toNetworkByteOrder_def header_wire_def)

lemma header_fields [simp]:
  "take 4 (header_wire p1 p2 hdr @ r) = be_bytes (ph_length hdr)"
  "(header_wire p1 p2 hdr @ r) ! 4 = ph_packetId hdr"
  "(header_wire p1 p2 hdr @ r) ! 5 = ph_status hdr"
  "take 4 (drop 8 (header_wire p1 p2 hdr @ r)) = be_bytes (ph_sequence hdr)"
  "take 4 (header_wire p1 p2 hdr) = be_bytes (ph_length hdr)"
  "header_wire p1 p2 hdr ! 4 = ph_packetId hdr"
  "header_wire p1 p2 hdr ! 5 = ph_status hdr"
  "take 4 (drop 8 (header_wire p1 p2 hdr)) = be_bytes (ph_sequence hdr)"
  by (simp_all add: header_wire_def nth_append)

lemma header_received [codec_simps]: "toHostByteOrder h (header_of_mem h (header_wire p1 p2 hdr)) = hdr"
  by (cases hdr) (simp add: toHostByteOrder_def header_of_mem_def)

lemma serialize_wire [codec_simps]: "serialize h p1 p2 p = header_wire p1 p2 (pk_header p) @ pk_payload p"
  by (simp add: serialize_def Let_def header_mem_network) (simp add: memcpy_def)

lemma length_serialize [simp]: "length (serialize h p1 p2 p) = 12 + length (pk_payload p)"
  by (simp add: serialize_wire)

lemma packet_eta [simp]: "\<lparr>pk_header = pk_header p, pk_payload = pk_payload p\<rparr> = p"
  by (cases p) simp

lemma packet_header_eta [simp]:
  "\<lparr>ph_length = ph_length d, ph_packetId = ph_packetId d, ph_status = ph_status d, ph_sequence = ph_sequence d\<rparr> = d"
  by (cases d) simp

lemma wf_packet_length: "wf_packet p \<Longrightarrow> unat (ph_length (pk_header p)) = 12 + length (pk_payload p)"
  by (simp only: wf_packet_def unat_of_nat) simp

lemma wf_createPacket: "length payload \<le> 16372 \<Longrightarrow> wf_packet (createPacket i s q payload)"
  by (simp add: wf_packet_def createPacket_def)

lemma decode_serialize: "wf_packet p \<Longrightarrow> decode_packet (serialize h p1 p2 p @ rest) = Some (p, rest)"
  using wf_packet_length [of p] by (simp add: decode_packet_def serialize_wire Let_def wf_packet_def)

lemma decode_packet_partial:
  assumes "wf_packet p" and "strict_prefix q (serialize h p1 p2 p)"
  shows "decode_packet q = None"
proof (cases "length q < 12")
  case True
  then show ?thesis by (simp add: decode_packet_def)
next
  case False
  from assms(2) obtain r where r: "serialize h p1 p2 p = q @ r" and short: "length q < length (serialize h p1 p2 p)"
    by (auto simp: strict_prefix_def prefix_def)
  have "take 4 q = take 4 (serialize h p1 p2 p)"
    using False by (simp add: r)
  then have "unat (be_val (take 4 q)) = length (serialize h p1 p2 p)"
    using wf_packet_length [OF assms(1)] by (simp add: serialize_wire)
  with short show ?thesis by (simp add: decode_packet_def Let_def)
qed

interpretation asio: framing "serialize h p1 p2" decode_packet wf_packet for h p1 p2
proof unfold_locales
  show "serialize h p1 p2 f \<noteq> []" for f
    using length_serialize [of h p1 p2 f] by fastforce
qed (simp_all add: decode_serialize decode_packet_partial)

text \<open>
  A stream of packets that one host has serialized, with whatever bytes in the padding,
  followed by a part of another packet, is cut back into the same packets, and the part is kept.
\<close>

theorem asio_stream_roundtrip:
  assumes "list_all wf_packet ps" and "wf_packet p" and "strict_prefix q (serialize h p1 p2 p)"
  shows "unframe decode_packet (wire (serialize h p1 p2) ps @ q) = (ps, q)"
  using assms by (rule asio.unframe_wire_partial)

theorem asio_stream_roundtrip_witness:
  "let p = createPacket_string REQUEST 0 7 ''ab'' in
   unframe decode_packet (wire (serialize LittleEndian 0xAA 0xBB) [p, p] @ [0, 0, 0]) = ([p, p], [0, 0, 0])"
proof -
  let ?p = "createPacket_string REQUEST 0 7 ''ab''"
  have wf: "wf_packet ?p" by (simp add: createPacket_string_def wf_createPacket)
  moreover have "strict_prefix [0, 0, 0] (serialize LittleEndian 0xAA 0xBB ?p)" by code_simp
  ultimately show ?thesis
    using asio_stream_roundtrip [of "[?p, ?p]" ?p "[0, 0, 0]" LittleEndian "0xAA" "0xBB"] by simp
qed

text \<open>
  On the ABI of the common 64-bit platforms (members aligned to their size) the header has
  12 bytes: the sequence number stands at offset 8, and every serialized packet is two bytes
  longer than the 10-byte header of its documentation would make it.
\<close>

theorem asio_header_is_padded:
  "member_offsets 0 PacketHeader_members = ([0, 4, 5, 8], 12) \<and>
   length (serialize h p1 p2 (createPacket i s q payload)) = 10 + length payload + 2 \<and>
   take 2 (drop 6 (serialize h p1 p2 (createPacket i s q payload))) = [p1, p2]"
  by (simp add: PacketHeader_members_def align_up_def Let_def serialize_wire createPacket_def header_wire_def)

end
