(* ===== verification/AsioTransport.thy ===== *)
theory AsioTransport
  imports AsioPacket Reader
begin

text \<open>
  The two halves of a connection that \<open>Connection\<close> (\<open>claude/asio_server.cpp\<close>) and \<open>TcpClient\<close>
  (\<open>claude/asio_client.cpp\<close>) have in common, in code and in members: the reader, which collects a
  header and then a payload, and the write queue. Both classes embed them; what differs, the
  reaction to errors and the treatment of packets, is left to the classes.
\<close>

section \<open>The reader\<close>

datatype read_state = HEADER | PAYLOAD

record packet_reader =
  rd_state :: read_state
  rd_header_bytes :: nat
  rd_payload_bytes :: nat
  rd_payload_size :: nat
  rd_header :: packet_header
  rd_payload :: bytes
  rd_buffer :: bytes
  \<comment> \<open>the read outstanding on the socket\<close>
  rd_wait :: "read_op option"

definition rd_new :: packet_reader where
  "rd_new = \<lparr>rd_state = HEADER, rd_header_bytes = 0, rd_payload_bytes = 0, rd_payload_size = 0,
     rd_header = \<lparr>ph_length = 0, ph_packetId = 0, ph_status = 0, ph_sequence = 0\<rparr>,
     rd_payload = [], rd_buffer = replicate 12 0, rd_wait = None\<rparr>"

text \<open>The number of bytes asked for: the rest of the header, the rest of the payload.\<close>

fun rd_want :: "packet_reader \<Rightarrow> nat option" where
  "rd_want r = (case rd_wait r of
     None \<Rightarrow> None
   | Some RdHeader \<Rightarrow> Some (sizeof_PacketHeader - rd_header_bytes r)
   | Some (RdBody n) \<Rightarrow> Some n)"

definition rd_readHeader :: "packet_reader \<Rightarrow> packet_reader" where
  "rd_readHeader r = r\<lparr>rd_wait := Some RdHeader\<rparr>"

definition rd_readPayload :: "packet_reader \<Rightarrow> packet_reader" where
  "rd_readPayload r = r\<lparr>rd_wait := Some (RdBody (rd_payload_size r - rd_payload_bytes r))\<rparr>"

text \<open>
  What a successful read leads to: the reader waits for more bytes, it has refused the length
  field, or it has a complete packet, which the class processes before it calls \<open>rd_next\<close>.
\<close>

datatype read_outcome = RoWait | RoInvalid u32 | RoPacket packet

definition rd_packet :: "packet_reader \<Rightarrow> packet" where
  "rd_packet r = \<lparr>pk_header = rd_header r, pk_payload = rd_payload r\<rparr>"

definition rd_onHeader :: "endian \<Rightarrow> bytes \<Rightarrow> packet_reader \<Rightarrow> packet_reader \<times> read_outcome" where
  "rd_onHeader h d r0 =
     (let r = r0\<lparr>rd_wait := None, rd_buffer := memcpy (rd_buffer r0) (rd_header_bytes r0) d,
                  rd_header_bytes := rd_header_bytes r0 + length d\<rparr>
      in if rd_header_bytes r = sizeof_PacketHeader
         then (let r = r\<lparr>rd_header := toHostByteOrder h (header_of_mem h (rd_buffer r))\<rparr>;
                   len = ph_length (rd_header r)
               in if unat len < sizeof_PacketHeader \<or> len > MAX_BUFFER_SIZE
                  then (r, RoInvalid len)
                  else (let r = r\<lparr>rd_payload_size := unat len - sizeof_PacketHeader\<rparr>
                        in if rd_payload_size r > 0
                           then (rd_readPayload (r\<lparr>rd_payload := resize (rd_payload_size r) (rd_payload r),
                                                   rd_payload_bytes := 0, rd_state := PAYLOAD\<rparr>), RoWait)
                           else (r, RoPacket (rd_packet r))))
         else (rd_readHeader r, RoWait))"

definition rd_onPayload :: "bytes \<Rightarrow> packet_reader \<Rightarrow> packet_reader \<times> read_outcome" where
  "rd_onPayload d r0 =
     (let r = r0\<lparr>rd_wait := None, rd_payload := memcpy (rd_payload r0) (rd_payload_bytes r0) d,
                  rd_payload_bytes := rd_payload_bytes r0 + length d\<rparr>
      in if rd_payload_bytes r = rd_payload_size r then (r, RoPacket (rd_packet r))
         else (rd_readPayload r, RoWait))"

definition rd_next :: "packet_reader \<Rightarrow> packet_reader" where
  "rd_next r = rd_readHeader (r\<lparr>rd_header_bytes := 0, rd_state := HEADER\<rparr>)"

section \<open>What the reader does with a packet\<close>

definition rd_inv :: "packet_reader \<Rightarrow> bool" where
  "rd_inv r \<longleftrightarrow> length (rd_buffer r) = 12
     \<and> (rd_wait r = Some RdHeader \<longrightarrow> rd_header_bytes r = 0 \<and> rd_state r = HEADER)
     \<and> (\<forall>n. rd_wait r = Some (RdBody n) \<longrightarrow> rd_state r = PAYLOAD \<and> rd_payload_bytes r = 0
          \<and> n = rd_payload_size r \<and> length (rd_payload r) = n \<and> 0 < n \<and> n \<le> 16372)"

definition rd_idle :: "packet_reader \<Rightarrow> bool" where
  "rd_idle r \<longleftrightarrow> rd_inv r \<and> rd_wait r = Some RdHeader"

lemma rd_inv_new: "rd_inv rd_new" "rd_idle (rd_readHeader rd_new)"
  by (simp_all add: rd_inv_def rd_new_def rd_idle_def rd_readHeader_def)

text \<open>A complete header, by the value of its length field.\<close>

lemma rd_onHeader_full:
  assumes "rd_inv r" and "rd_wait r = Some RdHeader" and "length d = 12"
    and "hdr = toHostByteOrder h (header_of_mem h d)" and "n = unat (ph_length hdr)"
  shows "rd_onHeader h d r =
    (if n < 12 \<or> 16384 < n
     then (r\<lparr>rd_wait := None, rd_buffer := d, rd_header_bytes := 12, rd_header := hdr\<rparr>, RoInvalid (ph_length hdr))
     else if n = 12
     then (r\<lparr>rd_wait := None, rd_buffer := d, rd_header_bytes := 12, rd_header := hdr, rd_payload_size := 0\<rparr>,
           RoPacket \<lparr>pk_header = hdr, pk_payload = rd_payload r\<rparr>)
     else (r\<lparr>rd_wait := Some (RdBody (n - 12)), rd_buffer := d, rd_header_bytes := 12, rd_header := hdr,
             rd_payload_size := n - 12, rd_payload := resize (n - 12) (rd_payload r), rd_payload_bytes := 0,
             rd_state := PAYLOAD\<rparr>, RoWait))"
  using assms(1-3) unfolding assms(4,5)
  by (simp add: rd_inv_def rd_onHeader_def rd_readPayload_def rd_packet_def Let_def word_less_nat_alt
      MAX_BUFFER_SIZE_def)

lemma rd_onHeader_buffer:
  "rd_inv r \<Longrightarrow> rd_wait r = Some RdHeader \<Longrightarrow> length d = 12 \<Longrightarrow> rd_buffer (fst (rd_onHeader h d r)) = d"
  by (simp add: rd_onHeader_full [OF _ _ _ refl refl])

lemma rd_onHeader_inv:
  assumes "rd_inv r" and "rd_wait r = Some RdHeader" and "length d = 12"
  shows "rd_inv (fst (rd_onHeader h d r))"
    and "snd (rd_onHeader h d r) = RoWait \<or> rd_wait (fst (rd_onHeader h d r)) = None"
  using assms(1,3) unfolding rd_onHeader_full [OF assms refl refl] by (auto simp: rd_inv_def)

lemma rd_onPayload_inv:
  assumes "rd_inv r" and "rd_wait r = Some (RdBody n)" and "length d = n"
  shows "rd_onPayload d r = (r\<lparr>rd_wait := None, rd_payload := d, rd_payload_bytes := n\<rparr>,
           RoPacket \<lparr>pk_header = rd_header r, pk_payload = d\<rparr>)"
  using assms by (simp add: rd_inv_def rd_onPayload_def rd_packet_def Let_def)

lemma rd_next_idle: "length (rd_buffer r) = 12 \<Longrightarrow> rd_idle (rd_next r)"
  by (simp add: rd_idle_def rd_inv_def rd_next_def rd_readHeader_def)

lemma rd_next_payload [simp]: "rd_payload (rd_next r) = rd_payload r" "rd_buffer (rd_next r) = rd_buffer r"
  by (simp_all add: rd_next_def rd_readHeader_def)

text \<open>The header of a packet with payload, and of one without.\<close>

lemma rd_onHeader_packet:
  assumes idle: "rd_idle r" and wf: "wf_packet p" and ne: "pk_payload p \<noteq> []"
  shows "\<exists>r'. rd_onHeader h (header_wire p1 p2 (pk_header p)) r = (r', RoWait) \<and> rd_inv r'
    \<and> rd_wait r' = Some (RdBody (length (pk_payload p))) \<and> rd_header r' = pk_header p"
proof -
  have "unat (ph_length (pk_header p)) = 12 + length (pk_payload p)" "12 + length (pk_payload p) \<le> 16384"
    using wf_packet_length [OF wf] wf by (simp_all add: wf_packet_def)
  then show ?thesis
    using idle ne header_received [of h p1 p2 "pk_header p"]
    by (simp add: rd_onHeader_full [OF _ _ _ refl refl] rd_idle_def) (simp add: rd_inv_def)
qed

lemma rd_onHeader_empty:
  assumes idle: "rd_idle r" and wf: "wf_packet p" and ne: "pk_payload p = []"
  shows "\<exists>r'. rd_onHeader h (header_wire p1 p2 (pk_header p)) r
      = (r', RoPacket \<lparr>pk_header = pk_header p, pk_payload = rd_payload r\<rparr>)
    \<and> length (rd_buffer r') = 12 \<and> rd_payload r' = rd_payload r"
proof -
  have "unat (ph_length (pk_header p)) = 12"
    using wf_packet_length [OF wf] ne by simp
  then show ?thesis
    using idle header_received [of h p1 p2 "pk_header p"]
    by (simp add: rd_onHeader_full [OF _ _ _ refl refl] rd_idle_def)
qed

text \<open>A length field outside the bounds is refused, and no read is started.\<close>

lemma rd_onHeader_invalid:
  assumes idle: "rd_idle r" and "length d = 12"
    and len: "n = ph_length (toHostByteOrder h (header_of_mem h d))" and bad: "unat n < 12 \<or> 16384 < unat n"
  shows "snd (rd_onHeader h d r) = RoInvalid n" and "rd_wait (fst (rd_onHeader h d r)) = None"
  using assms by (auto simp: rd_onHeader_full [OF _ _ _ refl refl] rd_idle_def)

text \<open>
  The packet a class gets to see: a packet without payload comes with the payload of the packet
  before it, since the buffer is neither resized nor cleared.
\<close>

definition seen_packet :: "bytes \<Rightarrow> packet \<Rightarrow> packet" where
  "seen_packet prev p = (if pk_payload p = [] then p\<lparr>pk_payload := prev\<rparr> else p)"

lemma seen_packet_simps [simp]:
  "pk_header (seen_packet prev p) = pk_header p"
  "pk_payload p \<noteq> [] \<Longrightarrow> seen_packet prev p = p"
  "pk_payload p = [] \<Longrightarrow> seen_packet prev p = \<lparr>pk_header = pk_header p, pk_payload = prev\<rparr>"
  by (cases p; simp add: seen_packet_def)+

section \<open>The reader in a class\<close>

text \<open>
  A class that has such a reader among its members and reacts to what the reader returns. If it
  goes on to read when the reader wants more, and handles a packet as a specification does, then
  it is a \<open>framed_reader\<close> of serialized packets, whatever the byte order and the padding of the
  sender.
\<close>

locale packet_host =
  fixes get :: "'s \<Rightarrow> packet_reader"
    and put :: "packet_reader \<Rightarrow> 's \<Rightarrow> 's"
    and host :: endian
    and after :: "read_outcome \<Rightarrow> 's \<Rightarrow> 's \<times> 'o list"
    and want :: "'s \<Rightarrow> nat option"
    and deliver :: "'s \<Rightarrow> bytes \<Rightarrow> 's \<times> 'o list"
    and idle :: "'s \<Rightarrow> bool"
    and abs :: "'s \<Rightarrow> 'a"
    and vis :: "'o \<Rightarrow> 'v option"
    and spec :: "'a \<Rightarrow> packet \<Rightarrow> 'a \<times> 'v list"
  assumes get_put: "get (put r s) = r" and put_put: "put r (put r' s) = put r s"
    and want_reader: "want s = rd_want (get s)"
    and deliver_header: "rd_wait (get s) = Some RdHeader \<Longrightarrow>
      deliver s d = (let (r, out) = rd_onHeader host d (get s) in after out (put r s))"
    and deliver_payload: "rd_wait (get s) = Some (RdBody n) \<Longrightarrow>
      deliver s d = (let (r, out) = rd_onPayload d (get s) in after out (put r s))"
    and after_wait: "fst (after RoWait s) = s" "List.map_filter vis (snd (after RoWait s)) = []"
    and idle_reader: "idle s \<Longrightarrow> rd_idle (get s)"
    and after_packet: "idle s \<Longrightarrow> length (rd_buffer r) = 12 \<Longrightarrow> rd_payload r = pk_payload q \<Longrightarrow>
      q = seen_packet (rd_payload (get s)) p \<Longrightarrow> s' = after (RoPacket q) (put r s) \<Longrightarrow>
      idle (fst s') \<and> (abs (fst s'), List.map_filter vis (snd s')) = spec (abs s) p"
begin

lemma packet_without_payload:
  assumes idle: "idle s" and wf: "wf_packet p" and empty: "pk_payload p = []"
  shows "\<exists>s' os. feed want deliver 1 s (serialize h p1 p2 p @ rest) = (s', os, rest)
    \<and> idle s' \<and> (abs s', List.map_filter vis os) = spec (abs s) p"
proof -
  let ?hdr = "header_wire p1 p2 (pk_header p)" and ?r = "get s" and ?q = "seen_packet (rd_payload (get s)) p"
  have ridle: "rd_idle ?r" by (rule idle_reader [OF idle])
  then have rw: "rd_wait ?r = Some RdHeader" "rd_header_bytes ?r = 0" by (simp_all add: rd_idle_def rd_inv_def)
  from rd_onHeader_empty [OF ridle wf empty, of host p1 p2] obtain r' where
    r': "rd_onHeader host ?hdr ?r = (r', RoPacket ?q)" "length (rd_buffer r') = 12" "rd_payload r' = pk_payload ?q"
    using empty by auto
  let ?out = "after (RoPacket ?q) (put r' s)"
  have "feed want deliver 1 s (serialize h p1 p2 p @ rest) = (fst ?out, snd ?out, rest)"
    using rw empty r'(1) by (simp add: want_reader serialize_wire deliver_header case_prod_beta)
  with after_packet [OF idle r'(2,3) refl refl] show ?thesis by blast
qed

lemma packet_with_payload:
  assumes idle: "idle s" and wf: "wf_packet p" and ne: "pk_payload p \<noteq> []"
  shows "\<exists>s' os. feed want deliver 2 s (serialize h p1 p2 p @ rest) = (s', os, rest)
    \<and> idle s' \<and> (abs s', List.map_filter vis os) = spec (abs s) p"
proof -
  let ?hdr = "header_wire p1 p2 (pk_header p)" and ?r = "get s" and ?q = "seen_packet (rd_payload (get s)) p"
  have ridle: "rd_idle ?r" by (rule idle_reader [OF idle])
  then have rw: "rd_wait ?r = Some RdHeader" "rd_header_bytes ?r = 0" by (simp_all add: rd_idle_def rd_inv_def)
  from rd_onHeader_packet [OF ridle wf ne, of host p1 p2] obtain r1 where
    r1: "rd_onHeader host ?hdr ?r = (r1, RoWait)" "rd_inv r1"
      "rd_wait r1 = Some (RdBody (length (pk_payload p)))" "rd_header r1 = pk_header p"
    by blast
  let ?s1 = "put r1 s" and ?r2 = "r1\<lparr>rd_wait := None, rd_payload := pk_payload p, rd_payload_bytes := length (pk_payload p)\<rparr>"
  let ?out = "after (RoPacket ?q) (put ?r2 s)"
  have d1: "deliver s ?hdr = (?s1, snd (after RoWait ?s1))"
    using rw r1(1) by (simp add: deliver_header) (simp add: prod_eq_iff after_wait(1))
  have "rd_onPayload (pk_payload p) r1 = (?r2, RoPacket ?q)"
    using rd_onPayload_inv [OF r1(2,3) refl] r1(4) ne by simp
  then have d2: "deliver ?s1 (pk_payload p) = ?out"
    using r1(3) by (simp add: deliver_payload [of _ "length (pk_payload p)"] get_put put_put)
  have f: "feed want deliver 2 s (serialize h p1 p2 p @ rest) = (fst ?out, snd (after RoWait ?s1) @ snd ?out, rest)"
    using rw r1(3) by (simp add: numeral_2_eq_2 want_reader get_put serialize_wire d1 d2 case_prod_beta)
  have r2: "length (rd_buffer ?r2) = 12" "rd_payload ?r2 = pk_payload ?q" using r1(2) ne by (simp_all add: rd_inv_def)
  from f after_packet [OF idle r2 refl refl] after_wait(2) [of ?s1] show ?thesis
    by - (rule exI [of _ "fst ?out"], rule exI [of _ "snd (after RoWait ?s1) @ snd ?out"], simp)
qed

end

sublocale packet_host \<subseteq> packets: framed_reader want deliver "serialize h p1 p2" wf_packet
    "\<lambda>p. if pk_payload p = [] then 1 else 2" idle abs vis spec
    for h p1 p2
  using packet_with_payload packet_without_payload by unfold_locales auto

section \<open>The write queue\<close>

record write_queue =
  wq_queue :: "bytes list"
  \<comment> \<open>the write outstanding on the socket, and the bytes the socket has taken\<close>
  wq_writing :: "bytes option"
  wq_sent :: bytes

definition wq_new :: write_queue where
  "wq_new = \<lparr>wq_queue = [], wq_writing = None, wq_sent = []\<rparr>"

definition wq_doWrite :: "(write_queue, bytes) proc" where
  "wq_doWrite q = (q\<lparr>wq_writing := Some (hd (wq_queue q))\<rparr>, [hd (wq_queue q)])"

text \<open>The closure that \<open>sendPacket\<close> posts.\<close>

definition wq_enqueue :: "bytes \<Rightarrow> (write_queue, bytes) proc" where
  "wq_enqueue serialized q =
     (let write_in_progress = wq_queue q \<noteq> [] in
      seqs [modify (\<lambda>q. q\<lparr>wq_queue := wq_queue q @ [serialized]\<rparr>), if_do (\<not> write_in_progress) wq_doWrite] q)"

text \<open>The completion of a write of which \<open>n\<close> bytes were taken, up to the reaction to errors.\<close>

definition wq_onWrite :: "error_code \<Rightarrow> nat \<Rightarrow> (write_queue, bytes) proc" where
  "wq_onWrite ec n =
     seqs [modify (\<lambda>q. q\<lparr>wq_sent := wq_sent q @ (case wq_writing q of None \<Rightarrow> [] | Some b \<Rightarrow> take n b), wq_writing := None\<rparr>),
           if_do (ec = None)
             (seqs [modify (\<lambda>q. q\<lparr>wq_queue := tl (wq_queue q)\<rparr>),
                    (\<lambda>q. if_do (wq_queue q \<noteq> []) wq_doWrite q)])]"

datatype wq_event = WqEnqueue bytes | WqDone error_code nat

fun wq_step :: "write_queue \<Rightarrow> wq_event \<Rightarrow> write_queue \<times> bytes list" where
  "wq_step q (WqEnqueue m) = wq_enqueue m q"
| "wq_step q (WqDone ec n) = wq_onWrite ec n q"

text \<open>A write completes only if it was started; it succeeds only with all bytes taken.\<close>

fun wq_ok :: "write_queue \<Rightarrow> wq_event \<Rightarrow> bool" where
  "wq_ok q (WqEnqueue m) = True"
| "wq_ok q (WqDone ec n) = (case wq_writing q of
     None \<Rightarrow> False | Some b \<Rightarrow> n \<le> length b \<and> (ec = None \<longrightarrow> n = length b))"

text \<open>
  The queue against the messages \<open>ms\<close> enqueued so far: those before the queue have been sent
  completely, and of the front of the queue some bytes may have been sent by a failed write.
\<close>

fun wq_split :: "bytes list \<Rightarrow> bytes list \<times> bytes option \<times> bytes \<Rightarrow> bool" where
  "wq_split dn (q, Some b, sent) = (q \<noteq> [] \<and> b = hd q \<and> sent = concat dn)"
| "wq_split dn (q, None, sent) = (prefix (concat dn) sent \<and> prefix sent (concat (dn @ take 1 q)))"

definition wq_view :: "write_queue \<Rightarrow> bytes list \<times> bytes option \<times> bytes" where
  "wq_view q = (wq_queue q, wq_writing q, wq_sent q)"

definition wq_inv :: "write_queue \<Rightarrow> bytes list \<Rightarrow> bool" where
  "wq_inv q ms \<longleftrightarrow> (\<exists>dn. ms = dn @ wq_queue q \<and> wq_split dn (wq_view q))"

lemma wq_inv_new: "wq_inv wq_new []"
  by (simp add: wq_inv_def wq_new_def wq_view_def)

lemma wq_enqueue_view:
  "wq_view (fst (wq_enqueue m q)) =
     (if wq_queue q = [] then ([m], Some m, wq_sent q) else (wq_queue q @ [m], wq_writing q, wq_sent q))"
  "snd (wq_enqueue m q) = (if wq_queue q = [] then [m] else [])"
  by (simp_all add: wq_enqueue_def wq_doWrite_def wq_view_def Let_def)

lemma wq_onWrite_view:
  assumes "wq_writing q = Some b"
  shows "wq_view (fst (wq_onWrite ec n q)) =
     (if ec = None
      then (tl (wq_queue q), if tl (wq_queue q) = [] then None else Some (hd (tl (wq_queue q))), wq_sent q @ take n b)
      else (wq_queue q, None, wq_sent q @ take n b))"
    and "snd (wq_onWrite ec n q) = (if ec = None \<and> tl (wq_queue q) \<noteq> [] then [hd (tl (wq_queue q))] else [])"
  using assms by (simp_all add: wq_onWrite_def wq_doWrite_def wq_view_def)

lemma wq_queue_view: "wq_queue q = fst (wq_view q)"
  by (simp add: wq_view_def)

lemma wq_split_writing:
  "wq_split dn (q, wr, sent) \<Longrightarrow> prefix (concat dn) sent \<and> prefix sent (concat (dn @ take 1 q))"
  by (cases wr) simp_all

lemma wq_inv_enqueue:
  assumes "wq_inv q ms"
  shows "wq_inv (fst (wq_enqueue m q)) (ms @ [m])"
proof -
  from assms obtain dn where dn: "ms = dn @ wq_queue q" "wq_split dn (wq_queue q, wq_writing q, wq_sent q)"
    by (auto simp: wq_inv_def wq_view_def)
  have "wq_split dn (wq_view (fst (wq_enqueue m q)))"
  proof (cases "wq_queue q = []")
    case True
    with wq_split_writing [OF dn(2)] show ?thesis
      by (simp add: wq_enqueue_view prefix_order.antisym)
  next
    case False
    then obtain x xs where "wq_queue q = x # xs" by (auto simp: neq_Nil_conv)
    with dn(2) show ?thesis by (cases "wq_writing q") (simp_all add: wq_enqueue_view)
  qed
  moreover have "ms @ [m] = dn @ wq_queue (fst (wq_enqueue m q))"
    using dn(1) by (simp add: wq_queue_view wq_enqueue_view)
  ultimately show ?thesis by (auto simp: wq_inv_def)
qed

lemma wq_inv_onWrite:
  assumes "wq_inv q ms" and "wq_ok q (WqDone ec n)"
  shows "wq_inv (fst (wq_onWrite ec n q)) ms"
proof -
  from assms(2) obtain b where b: "wq_writing q = Some b" "n \<le> length b" "ec = None \<longrightarrow> n = length b"
    by (auto split: option.splits)
  from assms(1) b(1) obtain dn rest where dn: "ms = dn @ wq_queue q" "wq_queue q = b # rest" "wq_sent q = concat dn"
    by (auto simp: wq_inv_def wq_view_def neq_Nil_conv)
  show ?thesis
  proof (cases "ec = None")
    case True
    with b dn have "wq_view (fst (wq_onWrite ec n q)) = (rest, if rest = [] then None else Some (hd rest), concat (dn @ [b]))"
      by (simp add: wq_onWrite_view)
    then have "wq_split (dn @ [b]) (wq_view (fst (wq_onWrite ec n q)))" "wq_queue (fst (wq_onWrite ec n q)) = rest"
      by (auto simp: wq_queue_view)
    with dn show ?thesis unfolding wq_inv_def by (intro exI [of _ "dn @ [b]"]) simp
  next
    case False
    with b dn have "wq_view (fst (wq_onWrite ec n q)) = (b # rest, None, concat dn @ take n b)"
      by (simp add: wq_onWrite_view)
    then have "wq_split dn (wq_view (fst (wq_onWrite ec n q)))" "wq_queue (fst (wq_onWrite ec n q)) = b # rest"
      by (simp_all add: wq_queue_view take_is_prefix)
    with dn show ?thesis unfolding wq_inv_def by (intro exI [of _ dn]) simp
  qed
qed

text \<open>What the invariant says of the bytes on the wire.\<close>

lemma wq_inv_sent:
  assumes "wq_inv q ms"
  shows "\<exists>dn. ms = dn @ wq_queue q \<and> prefix (concat dn) (wq_sent q) \<and> prefix (wq_sent q) (concat ms)"
proof -
  from assms obtain dn where dn: "ms = dn @ wq_queue q" "wq_split dn (wq_queue q, wq_writing q, wq_sent q)"
    by (auto simp: wq_inv_def wq_view_def)
  have "prefix (concat (dn @ take 1 (wq_queue q))) (concat ms)"
    unfolding dn(1) by (cases "wq_queue q") simp_all
  with wq_split_writing [OF dn(2)] have "prefix (concat dn) (wq_sent q)" "prefix (wq_sent q) (concat ms)"
    using prefix_order.trans by blast+
  with dn(1) show ?thesis by (intro exI [of _ dn]) simp
qed

text \<open>
  As long as no write has failed, a queue with messages has a write outstanding, so it drains;
  after a failed write the queue is never empty again and no write is started.
\<close>

definition wq_live :: "write_queue \<Rightarrow> bool" where
  "wq_live q \<longleftrightarrow> (wq_queue q \<noteq> [] \<longleftrightarrow> wq_writing q \<noteq> None)"

definition wq_stuck :: "write_queue \<Rightarrow> bool" where
  "wq_stuck q \<longleftrightarrow> wq_queue q \<noteq> [] \<and> wq_writing q = None"

lemma wq_live_step:
  "wq_live q \<Longrightarrow> wq_live (fst (wq_enqueue m q))"
  "wq_live q \<Longrightarrow> wq_live (fst (wq_onWrite None n q))"
  by (auto simp: wq_live_def wq_enqueue_def wq_onWrite_def wq_doWrite_def Let_def)

lemma wq_stuck_enqueue: "wq_stuck q \<Longrightarrow> wq_stuck (fst (wq_enqueue m q)) \<and> snd (wq_enqueue m q) = []"
  by (simp add: wq_stuck_def wq_enqueue_def Let_def)

lemma wq_stuck_error:
  "wq_inv q ms \<Longrightarrow> wq_writing q = Some b \<Longrightarrow> wq_stuck (fst (wq_onWrite (Some e) n q))"
  by (auto simp: wq_stuck_def wq_onWrite_def wq_inv_def wq_view_def)

end
