(* ===== verification/AsioConnection.thy ===== *)
theory AsioConnection
  imports AsioTransport
begin

text \<open>
  \<open>Connection\<close> of \<open>claude/asio_server.cpp\<close>: one accepted client. It reads packets, reports each to
  the packet callback, answers bind requests with the server id and echoes requests; packets to
  send are posted to its strand and written one at a time.

  The environment of a connection, which it only reads, is the record \<open>conn_env\<close>: the byte order
  of the host, the contents of the header's padding, and the id of the server it belongs to.
  Calls into the server and callbacks are effects.
\<close>

section \<open>State, effects and events\<close>

record conn_env =
  en_host :: endian
  en_pad1 :: u8
  en_pad2 :: u8
  en_serverId :: string

datatype conn_post = PostWrite bytes | PostClose

record connection =
  co_id :: int
  co_client_id :: string
  co_packetCallback :: bool
  co_closedCallback :: bool
  co_reader :: packet_reader
  co_writer :: write_queue
  \<comment> \<open>closures posted to the strand, and whether the socket is open\<close>
  co_posted :: "conn_post list"
  co_open :: bool

datatype conn_effect =
    CoStartRead nat
  | CoStartWrite bytes
  | CoPost conn_post
  | CoSocketClose
  | CoCallPacket int packet
  | CoUnregister int

type_synonym conn_proc = "(connection, conn_effect) proc"

definition Connection_create :: "int \<Rightarrow> connection" where
  "Connection_create i = \<lparr>co_id = i, co_client_id = ''unknown'', co_packetCallback = False,
     co_closedCallback = False, co_reader = rd_new, co_writer = wq_new, co_posted = [], co_open = True\<rparr>"

section \<open>Sending\<close>

definition Connection_post :: "conn_post \<Rightarrow> conn_proc" where
  "Connection_post p = seqs [modify (\<lambda>c. c\<lparr>co_posted := co_posted c @ [p]\<rparr>), emit (CoPost p)]"

definition Connection_sendPacket :: "conn_env \<Rightarrow> packet \<Rightarrow> conn_proc" where
  "Connection_sendPacket e p =
     (let serialized = serialize (en_host e) (en_pad1 e) (en_pad2 e) p in Connection_post (PostWrite serialized))"

definition Connection_sendData :: "conn_env \<Rightarrow> u8 \<Rightarrow> u8 \<Rightarrow> u32 \<Rightarrow> string \<Rightarrow> conn_proc" where
  "Connection_sendData e packetId status sq data =
     (let packet = createPacket_string packetId status sq data in Connection_sendPacket e packet)"

definition Connection_close :: conn_proc where
  "Connection_close = Connection_post PostClose"

definition Connection_onWrite :: "error_code \<Rightarrow> nat \<Rightarrow> conn_proc" where
  "Connection_onWrite ec n c =
     (let (w, started) = wq_onWrite ec n (co_writer c) in
      seqs [modify (\<lambda>c. c\<lparr>co_writer := w\<rparr>),
            seqs (map (\<lambda>b. emit (CoStartWrite b)) started),
            if_do (ec \<noteq> None \<and> ec \<noteq> Some operation_aborted) (emit (CoUnregister (co_id c)))] c)"

text \<open>The closures of \<open>sendPacket\<close> and \<open>close\<close>.\<close>

fun Connection_run :: "conn_post \<Rightarrow> conn_proc" where
  "Connection_run (PostWrite serialized) c =
     (let (w, started) = wq_enqueue serialized (co_writer c) in
      seqs [modify (\<lambda>c. c\<lparr>co_writer := w\<rparr>), seqs (map (\<lambda>b. emit (CoStartWrite b)) started)] c)"
| "Connection_run PostClose c =
     if_do (co_open c) (seqs [modify (\<lambda>c. c\<lparr>co_open := False\<rparr>), emit CoSocketClose]) c"

section \<open>Receiving\<close>

definition Connection_processPacket :: "conn_env \<Rightarrow> packet \<Rightarrow> conn_proc" where
  "Connection_processPacket e packet =
     seqs [(\<lambda>c. if_do (co_packetCallback c) (emit (CoCallPacket (co_id c) packet)) c),
           if ph_packetId (pk_header packet) = BIND
           then seqs [modify (\<lambda>c. c\<lparr>co_client_id := (if pk_payload packet = [] then ''unknown'' else string_of (pk_payload packet))\<rparr>),
                      Connection_sendData e BIND_RESP 0 (ph_sequence (pk_header packet)) (en_serverId e)]
           else if ph_packetId (pk_header packet) = REQUEST
           then Connection_sendData e RESPONSE 0 (ph_sequence (pk_header packet)) (string_of (pk_payload packet))
           else skip]"

text \<open>\<open>readHeader\<close> and \<open>readPayload\<close> start a read for the bytes the reader wants.\<close>

definition Connection_startRead :: conn_proc where
  "Connection_startRead c = (case rd_want (co_reader c) of None \<Rightarrow> skip c | Some n \<Rightarrow> emit (CoStartRead n) c)"

definition Connection_readHeader :: conn_proc where
  "Connection_readHeader =
     seqs [modify (\<lambda>c. c\<lparr>co_reader := rd_readHeader (co_reader c)\<rparr>), Connection_startRead]"

text \<open>What follows a successful read.\<close>

fun Connection_afterRead :: "conn_env \<Rightarrow> read_outcome \<Rightarrow> conn_proc" where
  "Connection_afterRead e RoWait c = Connection_startRead c"
| "Connection_afterRead e (RoInvalid len) c = Connection_close c"
| "Connection_afterRead e (RoPacket packet) c =
     seqs [Connection_processPacket e packet,
           modify (\<lambda>c. c\<lparr>co_reader := rd_next (co_reader c)\<rparr>),
           Connection_startRead] c"

definition Connection_readError :: "error_code \<Rightarrow> conn_proc" where
  "Connection_readError ec c =
     seqs [modify (\<lambda>c. c\<lparr>co_reader := (co_reader c)\<lparr>rd_wait := None\<rparr>\<rparr>),
           if_do (ec \<noteq> Some operation_aborted) (emit (CoUnregister (co_id c)))] c"

definition Connection_onHeader :: "conn_env \<Rightarrow> error_code \<Rightarrow> bytes \<Rightarrow> conn_proc" where
  "Connection_onHeader e ec d c =
     (if ec = None
      then (let (r, out) = rd_onHeader (en_host e) d (co_reader c) in
            seqs [modify (\<lambda>c. c\<lparr>co_reader := r\<rparr>), Connection_afterRead e out] c)
      else Connection_readError ec c)"

definition Connection_onPayload :: "conn_env \<Rightarrow> error_code \<Rightarrow> bytes \<Rightarrow> conn_proc" where
  "Connection_onPayload e ec d c =
     (if ec = None
      then (let (r, out) = rd_onPayload d (co_reader c) in
            seqs [modify (\<lambda>c. c\<lparr>co_reader := r\<rparr>), Connection_afterRead e out] c)
      else Connection_readError ec c)"

definition Connection_start :: "bool \<Rightarrow> bool \<Rightarrow> conn_proc" where
  "Connection_start packetCallback closedCallback =
     seqs [modify (\<lambda>c. c\<lparr>co_packetCallback := packetCallback, co_closedCallback := closedCallback\<rparr>),
           Connection_readHeader]"

section \<open>Events\<close>

datatype conn_event =
    CoStart bool bool
  | CoSend packet
  | CoClose
  | CoRunPosted
  | CoHeaderRead error_code bytes
  | CoPayloadRead error_code bytes
  | CoWriteDone error_code nat

fun Connection_step :: "conn_env \<Rightarrow> connection \<Rightarrow> conn_event \<Rightarrow> connection \<times> conn_effect list" where
  "Connection_step e c (CoStart pc cc) = Connection_start pc cc c"
| "Connection_step e c (CoSend p) = Connection_sendPacket e p c"
| "Connection_step e c CoClose = Connection_close c"
| "Connection_step e c CoRunPosted =
     (case co_posted c of
        [] \<Rightarrow> (c, [])
      | p # rest \<Rightarrow> seqs [modify (\<lambda>c. c\<lparr>co_posted := rest\<rparr>), Connection_run p] c)"
| "Connection_step e c (CoHeaderRead ec d) = Connection_onHeader e ec d c"
| "Connection_step e c (CoPayloadRead ec d) = Connection_onPayload e ec d c"
| "Connection_step e c (CoWriteDone ec n) = Connection_onWrite ec n c"

text \<open>A connection is started once; operations complete as Boost.Asio documents.\<close>

fun Connection_ok :: "connection \<Rightarrow> conn_event \<Rightarrow> bool" where
  "Connection_ok c (CoStart pc cc) = (co_reader c = rd_new)"
| "Connection_ok c CoRunPosted = (co_posted c \<noteq> [])"
| "Connection_ok c (CoHeaderRead ec d) =
     (rd_wait (co_reader c) = Some RdHeader \<and> (ec = None \<longrightarrow> rd_want (co_reader c) = Some (length d)))"
| "Connection_ok c (CoPayloadRead ec d) =
     ((case rd_wait (co_reader c) of Some (RdBody n) \<Rightarrow> True | _ \<Rightarrow> False) \<and> (ec = None \<longrightarrow> rd_want (co_reader c) = Some (length d)))"
| "Connection_ok c (CoWriteDone ec n) = wq_ok (co_writer c) (WqDone ec n)"
| "Connection_ok c _ = True"

section \<open>What the statements change\<close>

lemma Connection_send_fst [simp]:
  "fst (Connection_post p c) = c\<lparr>co_posted := co_posted c @ [p]\<rparr>"
  "snd (Connection_post p c) = [CoPost p]"
  by (simp_all add: Connection_post_def)

lemmas Connection_send_defs = Connection_sendPacket_def Connection_sendData_def Connection_close_def

lemma Connection_startRead_fst [simp]: "fst (Connection_startRead c) = c"
  by (simp add: Connection_startRead_def split: option.split)

lemma Connection_processPacket_fields [simp]:
  "co_reader (fst (Connection_processPacket e p c)) = co_reader c"
  "co_writer (fst (Connection_processPacket e p c)) = co_writer c"
  "co_id (fst (Connection_processPacket e p c)) = co_id c"
  "co_packetCallback (fst (Connection_processPacket e p c)) = co_packetCallback c"
  "co_open (fst (Connection_processPacket e p c)) = co_open c"
  by (simp_all add: Connection_processPacket_def Connection_send_defs Let_def)

lemma Connection_afterRead_writer [simp]: "co_writer (fst (Connection_afterRead e out c)) = co_writer c"
  by (cases out) (simp_all add: Connection_send_defs Let_def)

section \<open>Nothing is lost\<close>

fun posted_write :: "conn_post \<Rightarrow> bytes option" where
  "posted_write (PostWrite m) = Some m"
| "posted_write PostClose = None"

fun conn_posted :: "conn_effect \<Rightarrow> bytes option" where
  "conn_posted (CoPost p) = posted_write p"
| "conn_posted _ = None"

definition conn_posts :: "conn_effect list \<Rightarrow> bytes list" where
  "conn_posts os = List.map_filter conn_posted os"

definition strand_writes :: "connection \<Rightarrow> bytes list" where
  "strand_writes c = List.map_filter posted_write (co_posted c)"

lemma conn_posts_simps [simp]:
  "conn_posts [] = []"
  "conn_posts (x # os) = (case conn_posted x of None \<Rightarrow> conn_posts os | Some m \<Rightarrow> m # conn_posts os)"
  "conn_posts (os @ os') = conn_posts os @ conn_posts os'"
  by (auto simp: conn_posts_def List.map_filter_def split: option.splits)

lemma conn_posts_writes [simp]: "conn_posts (map CoStartWrite bs) = []"
  by (induction bs) simp_all

text \<open>A statement that posts what it adds to the strand and leaves the write queue alone.\<close>

definition posting :: "conn_proc \<Rightarrow> bool" where
  "posting p \<longleftrightarrow> (\<forall>c. strand_writes (fst (p c)) = strand_writes c @ conn_posts (snd (p c)) \<and> co_writer (fst (p c)) = co_writer c)"

lemma posting_post: "posting (Connection_post p)"
  by (auto simp: posting_def strand_writes_def List.map_filter_def split: option.splits)

lemma posting_startRead: "posting Connection_startRead"
  by (auto simp: posting_def Connection_startRead_def split: option.split)

lemma posting_seqs: "list_all posting ps \<Longrightarrow> posting (seqs ps)"
proof (induction ps)
  case Nil
  show ?case by (simp add: posting_def)
next
  case (Cons p ps)
  then have "posting p" "posting (seqs ps)" by simp_all
  then show ?case by (simp add: posting_def)
qed

lemma posting_modify:
  "(\<And>c. co_posted (f c) = co_posted c) \<Longrightarrow> (\<And>c. co_writer (f c) = co_writer c) \<Longrightarrow> posting (modify f)"
  by (simp add: posting_def strand_writes_def)

lemma posting_emit: "conn_posted x = None \<Longrightarrow> posting (emit x)"
  by (simp add: posting_def)

lemma posting_processPacket: "posting (Connection_processPacket e p)"
proof -
  have "posting (\<lambda>c. if_do (co_packetCallback c) (emit (CoCallPacket (co_id c) p)) c)"
    by (simp add: posting_def)
  moreover have "posting (Connection_sendData e i s q d)" for i s q d
    by (simp add: Connection_send_defs Let_def posting_post)
  moreover have "posting skip" by (simp add: posting_def)
  ultimately show ?thesis
    unfolding Connection_processPacket_def by (intro posting_seqs) (simp add: posting_seqs posting_modify)
qed

lemma posting_afterRead: "posting (Connection_afterRead e out)"
proof (cases out)
  case RoWait
  then show ?thesis using posting_startRead by (simp add: posting_def)
next
  case (RoInvalid n)
  then show ?thesis using posting_post by (simp add: posting_def Connection_close_def)
next
  case (RoPacket p)
  have "posting (seqs [Connection_processPacket e p, modify (\<lambda>c. c\<lparr>co_reader := rd_next (co_reader c)\<rparr>), Connection_startRead])"
    by (intro posting_seqs) (simp add: posting_processPacket posting_startRead posting_modify)
  with RoPacket show ?thesis by (simp add: posting_def)
qed

text \<open>Only the running of a posted write and the completion of a write move the queue.\<close>

lemma Connection_step_posting:
  assumes "e' \<noteq> CoRunPosted" and "\<And>ec n. e' \<noteq> CoWriteDone ec n"
  shows "strand_writes (fst (Connection_step e c e')) = strand_writes c @ conn_posts (snd (Connection_step e c e'))
    \<and> co_writer (fst (Connection_step e c e')) = co_writer c"
proof (cases e')
  case (CoStart pc cc)
  have "posting (Connection_start pc cc)"
    unfolding Connection_start_def Connection_readHeader_def
    by (intro posting_seqs) (simp add: posting_modify posting_seqs posting_startRead)
  with CoStart show ?thesis by (simp add: posting_def)
next
  case (CoSend p)
  then show ?thesis using posting_post by (simp add: posting_def Connection_send_defs Let_def)
next
  case CoClose
  then show ?thesis using posting_post by (simp add: posting_def Connection_close_def)
next
  case (CoHeaderRead ec d)
  let ?r = "rd_onHeader (en_host e) d (co_reader c)"
  have "posting (Connection_afterRead e (snd ?r))" by (rule posting_afterRead)
  with CoHeaderRead show ?thesis
    by (auto simp: posting_def Connection_onHeader_def Connection_readError_def case_prod_beta strand_writes_def)
next
  case (CoPayloadRead ec d)
  let ?r = "rd_onPayload d (co_reader c)"
  have "posting (Connection_afterRead e (snd ?r))" by (rule posting_afterRead)
  with CoPayloadRead show ?thesis
    by (auto simp: posting_def Connection_onPayload_def Connection_readError_def case_prod_beta strand_writes_def)
qed (use assms in simp_all)

definition conn_wire :: "connection \<Rightarrow> conn_effect list \<Rightarrow> bool" where
  "conn_wire c os \<longleftrightarrow> (\<exists>ms. conn_posts os = ms @ strand_writes c \<and> wq_inv (co_writer c) ms)"

lemma conn_wire_step:
  assumes wire: "conn_wire c os" and ok: "Connection_ok c ev"
  shows "conn_wire (fst (Connection_step e c ev)) (os @ snd (Connection_step e c ev))"
proof -
  from wire obtain ms where ms: "conn_posts os = ms @ strand_writes c" "wq_inv (co_writer c) ms"
    by (auto simp: conn_wire_def)
  consider "ev = CoRunPosted" | ec n where "ev = CoWriteDone ec n"
    | "ev \<noteq> CoRunPosted" "\<And>ec n. ev \<noteq> CoWriteDone ec n"
    by metis
  then show ?thesis
  proof cases
    case 1
    with ok obtain p rest where p: "co_posted c = p # rest" by (auto simp: neq_Nil_conv)
    show ?thesis
    proof (cases p)
      case (PostWrite m)
      with p 1 ms show ?thesis
        using wq_inv_enqueue [OF ms(2), of m]
        by (auto simp: conn_wire_def strand_writes_def case_prod_beta List.map_filter_def intro!: exI [of _ "ms @ [m]"])
    next
      case PostClose
      with p 1 ms show ?thesis
        by (auto simp: conn_wire_def strand_writes_def List.map_filter_def intro!: exI [of _ ms])
    qed
  next
    case (2 ec n)
    with ok have "wq_ok (co_writer c) (WqDone ec n)" by simp
    from wq_inv_onWrite [OF ms(2) this] ms(1) 2 show ?thesis
      by (auto simp: conn_wire_def Connection_onWrite_def case_prod_beta strand_writes_def intro!: exI [of _ ms])
  next
    case 3
    with Connection_step_posting [OF 3, of e c] ms show ?thesis
      unfolding conn_wire_def by (intro exI [of _ ms]) simp
  qed
qed

interpretation conn_wire: traced_machine "Connection_step e" Connection_ok conn_wire for e
  by unfold_locales (rule conn_wire_step)

lemma conn_posts_kept:
  assumes "allowed Connection_ok (Connection_step e) (Connection_create i) es"
    and "run (Connection_step e) (Connection_create i) es = (c, os)"
  shows "\<exists>dn. conn_posts os = dn @ wq_queue (co_writer c) @ strand_writes c
    \<and> prefix (concat dn) (wq_sent (co_writer c)) \<and> prefix (wq_sent (co_writer c)) (concat (conn_posts os))"
proof -
  have "conn_wire (Connection_create i) []"
    by (simp add: conn_wire_def Connection_create_def strand_writes_def List.map_filter_def wq_inv_new)
  from conn_wire.run_tinv [OF this assms(1)] obtain ms where
    ms: "conn_posts os = ms @ strand_writes c" "wq_inv (co_writer c) ms"
    using assms(2) by (auto simp: conn_wire_def)
  from wq_inv_sent [OF ms(2)] obtain dn where dn: "ms = dn @ wq_queue (co_writer c)"
    "prefix (concat dn) (wq_sent (co_writer c))" "prefix (wq_sent (co_writer c)) (concat ms)" by blast
  from dn(3) have "prefix (wq_sent (co_writer c)) (concat (conn_posts os))"
    unfolding ms(1) concat_append by (rule prefix_prefix)
  with dn ms(1) show ?thesis by (intro exI [of _ dn]) simp
qed

text \<open>
  C8: in every run that Boost.Asio allows, also with failing writes, a connection loses no
  packet and never reorders: the packets posted are, in order, packets sent completely, packets
  in the write queue and packets still in the strand, and the bytes on the wire are a prefix of
  the packets posted.
\<close>

theorem connection_loses_nothing:
  assumes "allowed Connection_ok (Connection_step e) (Connection_create i) es"
    and "run (Connection_step e) (Connection_create i) es = (c, os)"
  shows "\<exists>dn. conn_posts os = dn @ wq_queue (co_writer c) @ strand_writes c
    \<and> prefix (concat dn) (wq_sent (co_writer c)) \<and> prefix (wq_sent (co_writer c)) (concat (conn_posts os))"
  by (rule conn_posts_kept [OF assms])

text \<open>The environment, a packet and the connection of the concrete runs below.\<close>

abbreviation sample_env :: conn_env where
  "sample_env \<equiv> \<lparr>en_host = LittleEndian, en_pad1 = 0, en_pad2 = 0, en_serverId = ''S''\<rparr>"

abbreviation sample_packet :: packet where
  "sample_packet \<equiv> createPacket_string REQUEST 0 7 ''ab''"

theorem connection_loses_nothing_witness:
  "let (c, os) = run (Connection_step sample_env) (Connection_create 1)
         [CoSend sample_packet, CoSend sample_packet, CoRunPosted, CoRunPosted, CoWriteDone None 14]
   in length (conn_posts os) = 2 \<and> (\<exists>dn. conn_posts os = dn @ wq_queue (co_writer c) @ strand_writes c
        \<and> prefix (concat dn) (wq_sent (co_writer c)) \<and> prefix (wq_sent (co_writer c)) (concat (conn_posts os)))"
proof -
  let ?es = "[CoSend sample_packet, CoSend sample_packet, CoRunPosted, CoRunPosted, CoWriteDone None 14]"
  let ?r = "run (Connection_step sample_env) (Connection_create 1) ?es"
  have "allowed Connection_ok (Connection_step sample_env) (Connection_create 1) ?es"
    by (simp add: Connection_create_def Connection_send_defs Let_def wq_new_def case_prod_beta wq_enqueue_def
        wq_doWrite_def createPacket_string_def createPacket_def)
  moreover have "length (conn_posts (snd ?r)) = 2" by code_simp
  ultimately show ?thesis
    using connection_loses_nothing [of sample_env 1 ?es "fst ?r" "snd ?r"]
    by (simp only: Let_def case_prod_beta prod.collapse simp_thms)
qed

section \<open>Writes make progress\<close>

definition reliable_ok :: "connection \<Rightarrow> conn_event \<Rightarrow> bool" where
  "reliable_ok c ev \<longleftrightarrow> Connection_ok c ev \<and> (\<forall>ec n. ev = CoWriteDone ec n \<longrightarrow> ec = None)"

interpretation conn_live: machine "Connection_step e" reliable_ok "\<lambda>c. wq_live (co_writer c)" for e
proof
  fix c ev
  assume live: "wq_live (co_writer c)" and ok: "reliable_ok c ev"
  consider "ev = CoRunPosted" | n where "ev = CoWriteDone None n"
    | "ev \<noteq> CoRunPosted" "\<And>ec n. ev \<noteq> CoWriteDone ec n"
    using ok unfolding reliable_ok_def by metis
  then show "wq_live (co_writer (fst (Connection_step e c ev)))"
  proof cases
    case 1
    show ?thesis
    proof (cases "co_posted c")
      case (Cons p rest)
      with 1 live show ?thesis by (cases p) (simp_all add: wq_live_step case_prod_beta)
    qed (use 1 live in simp)
  next
    case (2 n)
    with live show ?thesis by (simp add: Connection_onWrite_def case_prod_beta wq_live_step)
  next
    case 3
    with live Connection_step_posting [OF 3, of e c] show ?thesis by simp
  qed
qed

text \<open>
  C32: as long as no write fails, a connection never stalls: it has a write outstanding exactly
  if its write queue is not empty, so every packet queued is written once the ones before it are.
\<close>

theorem connection_never_stalls:
  assumes "allowed reliable_ok (Connection_step e) (Connection_create i) es"
  shows "let c = fst (run (Connection_step e) (Connection_create i) es) in
    wq_queue (co_writer c) \<noteq> [] \<longleftrightarrow> wq_writing (co_writer c) \<noteq> None"
proof -
  have "wq_live (co_writer (Connection_create i))"
    by (simp add: wq_live_def Connection_create_def wq_new_def)
  from conn_live.run_inv [OF this assms] show ?thesis by (simp add: wq_live_def Let_def)
qed

theorem connection_never_stalls_witness:
  "let c = fst (run (Connection_step sample_env) (Connection_create 1) [CoSend sample_packet, CoRunPosted])
   in wq_queue (co_writer c) \<noteq> [] \<and> wq_writing (co_writer c) \<noteq> None"
proof -
  let ?es = "[CoSend sample_packet, CoRunPosted]"
  let ?c = "fst (run (Connection_step sample_env) (Connection_create 1) ?es)"
  have "allowed reliable_ok (Connection_step sample_env) (Connection_create 1) ?es"
    by (simp add: reliable_ok_def Connection_create_def Connection_send_defs Let_def)
  moreover have "wq_queue (co_writer ?c) \<noteq> []"
    by (simp add: Connection_create_def Connection_send_defs Let_def case_prod_beta wq_enqueue_def wq_doWrite_def)
  ultimately show ?thesis
    using connection_never_stalls [of sample_env 1 ?es] by (simp only: Let_def simp_thms)
qed

section \<open>A connection as a receiver of packets\<close>

text \<open>
  The specification. Its state is the payload of the last packet and the client id; a packet is
  reported with the payload it is seen with, a bind request sets the client id and is answered
  with the server id, a request is answered with its payload.
\<close>

definition reply_to :: "conn_env \<Rightarrow> packet \<Rightarrow> conn_effect list" where
  "reply_to e p =
     (if ph_packetId (pk_header p) = BIND
      then [CoPost (PostWrite (serialize (en_host e) (en_pad1 e) (en_pad2 e)
              (createPacket_string BIND_RESP 0 (ph_sequence (pk_header p)) (en_serverId e))))]
      else if ph_packetId (pk_header p) = REQUEST
      then [CoPost (PostWrite (serialize (en_host e) (en_pad1 e) (en_pad2 e)
              (createPacket RESPONSE 0 (ph_sequence (pk_header p)) (pk_payload p))))]
      else [])"

fun conn_spec :: "conn_env \<Rightarrow> bool \<Rightarrow> int \<Rightarrow> bytes \<times> string \<Rightarrow> packet \<Rightarrow> (bytes \<times> string) \<times> conn_effect list" where
  "conn_spec e cb i (prev, cid) p =
     (let q = seen_packet prev p in
      ((pk_payload q, if ph_packetId (pk_header p) \<noteq> BIND then cid
                      else if pk_payload q = [] then ''unknown'' else string_of (pk_payload q)),
       (if cb then [CoCallPacket i q] else []) @ reply_to e q))"

definition Connection_want :: "connection \<Rightarrow> nat option" where
  "Connection_want c = rd_want (co_reader c)"

definition Connection_deliver :: "conn_env \<Rightarrow> connection \<Rightarrow> bytes \<Rightarrow> connection \<times> conn_effect list" where
  "Connection_deliver e c d = (case rd_wait (co_reader c) of
     Some (RdBody n) \<Rightarrow> Connection_step e c (CoPayloadRead None d)
   | _ \<Rightarrow> Connection_step e c (CoHeaderRead None d))"

fun conn_visible :: "conn_effect \<Rightarrow> conn_effect option" where
  "conn_visible (CoStartRead n) = None"
| "conn_visible x = Some x"

definition conn_idle :: "bool \<Rightarrow> int \<Rightarrow> connection \<Rightarrow> bool" where
  "conn_idle cb i c \<longleftrightarrow> rd_idle (co_reader c) \<and> co_packetCallback c = cb \<and> co_id c = i"

definition conn_abs :: "connection \<Rightarrow> bytes \<times> string" where
  "conn_abs c = (rd_payload (co_reader c), co_client_id c)"

lemma Connection_processPacket_effects:
  "snd (Connection_processPacket e p c) = (if co_packetCallback c then [CoCallPacket (co_id c) p] else []) @ reply_to e p"
  "co_client_id (fst (Connection_processPacket e p c)) =
     (if ph_packetId (pk_header p) \<noteq> BIND then co_client_id c
      else if pk_payload p = [] then ''unknown'' else string_of (pk_payload p))"
  by (simp_all add: Connection_processPacket_def Connection_send_defs reply_to_def Let_def createPacket_string_def)

lemma conn_visible_startRead [simp]: "List.map_filter conn_visible (snd (Connection_startRead c)) = []"
  by (simp add: Connection_startRead_def List.map_filter_def split: option.split)

lemma conn_visible_effects [simp]:
  "List.map_filter conn_visible (reply_to e p) = reply_to e p"
  "List.map_filter conn_visible (if cb then [CoCallPacket i p] else []) = (if cb then [CoCallPacket i p] else [])"
  "List.map_filter conn_visible [CoCallPacket i p] = [CoCallPacket i p]" "List.map_filter conn_visible [] = []"
  by (simp_all add: List.map_filter_def reply_to_def)

text \<open>What a complete packet leads to.\<close>

lemma Connection_afterPacket:
  assumes "length (rd_buffer (co_reader c)) = 12" and "co_packetCallback c = cb" and "co_id c = i"
    and "rd_payload (co_reader c) = pk_payload q" and "q = seen_packet prev p"
  shows "conn_idle cb i (fst (Connection_afterRead e (RoPacket q) c))"
    and "(conn_abs (fst (Connection_afterRead e (RoPacket q) c)),
          List.map_filter conn_visible (snd (Connection_afterRead e (RoPacket q) c)))
        = conn_spec e cb i (prev, co_client_id c) p"
  using assms
  by (simp_all add: conn_idle_def rd_next_idle conn_abs_def Connection_processPacket_effects Let_def)

interpretation conn_reader: packet_host co_reader "\<lambda>r c. c\<lparr>co_reader := r\<rparr>" "en_host e" "Connection_afterRead e"
    Connection_want "Connection_deliver e" "conn_idle cb i" conn_abs conn_visible "conn_spec e cb i"
    for e cb i
proof
  fix s :: connection and d r q p s'
  show "rd_wait (co_reader s) = Some RdHeader \<Longrightarrow> Connection_deliver e s d =
      (let (r, out) = rd_onHeader (en_host e) d (co_reader s) in Connection_afterRead e out (s\<lparr>co_reader := r\<rparr>))"
    by (simp add: Connection_deliver_def Connection_onHeader_def prod_eq_iff case_prod_beta del: Connection_afterRead.simps)
  show "rd_wait (co_reader s) = Some (RdBody n) \<Longrightarrow> Connection_deliver e s d =
      (let (r, out) = rd_onPayload d (co_reader s) in Connection_afterRead e out (s\<lparr>co_reader := r\<rparr>))" for n
    by (simp add: Connection_deliver_def Connection_onPayload_def prod_eq_iff case_prod_beta del: Connection_afterRead.simps)
  assume "conn_idle cb i s" and "length (rd_buffer r) = 12" and "rd_payload r = pk_payload q"
    and "q = seen_packet (rd_payload (co_reader s)) p" and "s' = Connection_afterRead e (RoPacket q) (s\<lparr>co_reader := r\<rparr>)"
  then show "conn_idle cb i (fst s') \<and> (conn_abs (fst s'), List.map_filter conn_visible (snd s')) = conn_spec e cb i (conn_abs s) p"
    using Connection_afterPacket [of "s\<lparr>co_reader := r\<rparr>" cb i q "rd_payload (co_reader s)" p e]
    by (simp add: conn_idle_def conn_abs_def del: Connection_afterRead.simps conn_spec.simps)
qed (simp_all add: Connection_want_def conn_idle_def)

lemma Connection_started:
  "conn_idle cb i (fst (Connection_step e (Connection_create i) (CoStart cb cc)))"
  "conn_abs (fst (Connection_step e (Connection_create i) (CoStart cb cc))) = ([], ''unknown'')"
  by (simp_all add: conn_idle_def conn_abs_def Connection_start_def Connection_readHeader_def
      Connection_create_def rd_inv_new) (simp add: rd_readHeader_def rd_new_def)

lemma wire_two: "wire enc [p, q] = enc p @ enc q"
  by simp

text \<open>
  A connection that has been started handles every stream of packets as the specification
  does: each packet is reported once and in order, bind requests and requests are answered in
  order, exactly the bytes of the packets are taken off the stream, and the client id is that of
  the last bind request. The sender may have another byte order and other padding.
\<close>

theorem connection_refines_spec:
  assumes "list_all wf_packet ps"
    and "c = fst (Connection_step e (Connection_create i) (CoStart cb cc))"
  shows "\<exists>c' os. feed Connection_want (Connection_deliver e) (sum_list (map (\<lambda>p. if pk_payload p = [] then 1 else 2) ps)) c
      (wire (serialize h p1 p2) ps @ rest) = (c', os, rest)
    \<and> conn_idle cb i c'
    \<and> (conn_abs c', List.map_filter conn_visible os) = run (conn_spec e cb i) ([], ''unknown'') ps"
proof -
  have "conn_idle cb i c" "conn_abs c = ([], ''unknown'')"
    unfolding assms(2) by (rule Connection_started)+
  from conn_reader.packets.many_frames [OF this(1) assms(1), of e h p1 p2 rest] this(2) show ?thesis by simp
qed

theorem connection_refines_spec_witness:
  "let c = fst (Connection_step sample_env (Connection_create 1) (CoStart True True));
       ps = [createPacket_string BIND 0 1 ''me'', sample_packet]
   in \<exists>c' os. feed Connection_want (Connection_deliver sample_env) 4 c (wire (serialize BigEndian 7 8) ps @ [9]) = (c', os, [9])
     \<and> co_client_id c' = ''me''
     \<and> List.map_filter conn_visible os =
         [CoCallPacket 1 (createPacket_string BIND 0 1 ''me''),
          CoPost (PostWrite (serialize LittleEndian 0 0 (createPacket_string BIND_RESP 0 1 ''S''))),
          CoCallPacket 1 sample_packet,
          CoPost (PostWrite (serialize LittleEndian 0 0 (createPacket RESPONSE 0 7 (bytes_of ''ab''))))]"
proof -
  let ?c = "fst (Connection_step sample_env (Connection_create 1) (CoStart True True))"
  let ?ps = "[createPacket_string BIND 0 1 ''me'', sample_packet]"
  have wf: "list_all wf_packet ?ps" by (simp add: createPacket_string_def wf_createPacket)
  have ne: "pk_payload (createPacket_string a b q s) = bytes_of s" for a b q s
    by (simp add: createPacket_string_def createPacket_def)
  from connection_refines_spec [OF wf refl, of sample_env 1 True True BigEndian 7 8 "[9]"] obtain c' os where
    f: "feed Connection_want (Connection_deliver sample_env) (sum_list (map (\<lambda>p. if pk_payload p = [] then 1 else 2) ?ps)) ?c
      (wire (serialize BigEndian 7 8) ?ps @ [9]) = (c', os, [9])"
    and r: "(conn_abs c', List.map_filter conn_visible os) = run (conn_spec sample_env True 1) ([], ''unknown'') ?ps"
    by (elim exE conjE)
  have cost: "sum_list (map (\<lambda>p. if pk_payload p = [] then 1 else 2) ?ps) = (4 :: nat)"
    by (simp add: ne bytes_of_def)
  have "run (conn_spec sample_env True 1) ([], ''unknown'') ?ps = ((bytes_of ''ab'', ''me''),
      [CoCallPacket 1 (createPacket_string BIND 0 1 ''me''),
       CoPost (PostWrite (serialize LittleEndian 0 0 (createPacket_string BIND_RESP 0 1 ''S''))),
       CoCallPacket 1 sample_packet,
       CoPost (PostWrite (serialize LittleEndian 0 0 (createPacket RESPONSE 0 7 (bytes_of ''ab''))))])"
    by code_simp
  with f r cost have "feed Connection_want (Connection_deliver sample_env) 4 ?c (wire (serialize BigEndian 7 8) ?ps @ [9]) = (c', os, [9])"
    "co_client_id c' = ''me''" "List.map_filter conn_visible os =
         [CoCallPacket 1 (createPacket_string BIND 0 1 ''me''),
          CoPost (PostWrite (serialize LittleEndian 0 0 (createPacket_string BIND_RESP 0 1 ''S''))),
          CoCallPacket 1 sample_packet,
          CoPost (PostWrite (serialize LittleEndian 0 0 (createPacket RESPONSE 0 7 (bytes_of ''ab''))))]"
    by (simp_all only: prod.inject conn_abs_def)
  then show ?thesis unfolding Let_def by blast
qed

text \<open>
  A packet without payload is reported, and a request without payload is answered, with the
  payload of the packet before it: a client that sends an empty request is sent bytes that it did
  not send in that request.
\<close>

theorem connection_stale_payload:
  assumes "wf_packet p" and "pk_payload p \<noteq> []"
    and "c = fst (Connection_step e (Connection_create i) (CoStart True cc))"
  shows "\<exists>c' os. feed Connection_want (Connection_deliver e) 3 c
      (serialize h p1 p2 p @ serialize h p1 p2 (createPacket REQUEST 0 sq []) @ rest) = (c', os, rest)
    \<and> List.map_filter conn_visible os = CoCallPacket i p # reply_to e p
      @ [CoCallPacket i ((createPacket REQUEST 0 sq [])\<lparr>pk_payload := pk_payload p\<rparr>),
         CoPost (PostWrite (serialize (en_host e) (en_pad1 e) (en_pad2 e) (createPacket RESPONSE 0 sq (pk_payload p))))]"
proof -
  let ?ps = "[p, createPacket REQUEST 0 sq []]"
  have wf: "list_all wf_packet ?ps" using assms(1) by (simp add: wf_createPacket)
  have "conn_idle True i c" "conn_abs c = ([], ''unknown'')"
    unfolding assms(3) by (rule Connection_started)+
  from conn_reader.packets.many_frames [OF this(1) wf, of e h p1 p2 rest] this(2) obtain c' os where
    f: "feed Connection_want (Connection_deliver e) (sum_list (map (\<lambda>p. if pk_payload p = [] then 1 else 2) ?ps)) c
      (wire (serialize h p1 p2) ?ps @ rest) = (c', os, rest)"
    and r: "(conn_abs c', List.map_filter conn_visible os) = run (conn_spec e True i) ([], ''unknown'') ?ps"
    by (auto simp del: feed.simps run.simps list.map)
  have "REQUEST \<noteq> BIND" by (simp add: packet_ids)
  with r assms(2) have "List.map_filter conn_visible os = CoCallPacket i p # reply_to e p
      @ [CoCallPacket i ((createPacket REQUEST 0 sq [])\<lparr>pk_payload := pk_payload p\<rparr>),
         CoPost (PostWrite (serialize (en_host e) (en_pad1 e) (en_pad2 e) (createPacket RESPONSE 0 sq (pk_payload p))))]"
    by (simp add: run.simps(2) Let_def seen_packet_def reply_to_def createPacket_def)
  moreover have "sum_list (map (\<lambda>p. if pk_payload p = [] then 1 else 2) ?ps) = (3 :: nat)"
    using assms(2) by (simp add: createPacket_def)
  ultimately show ?thesis using f
    by - (rule exI [of _ c'], rule exI [of _ os], simp only: wire_two append_assoc simp_thms)
qed

theorem connection_stale_payload_witness:
  "let c = fst (Connection_step sample_env (Connection_create 1) (CoStart True True)) in
   \<exists>c' os. feed Connection_want (Connection_deliver sample_env) 3 c
      (serialize LittleEndian 0 0 sample_packet @ serialize LittleEndian 0 0 (createPacket REQUEST 0 8 []) @ []) = (c', os, [])
    \<and> List.map_filter conn_visible os = CoCallPacket 1 sample_packet # reply_to sample_env sample_packet
      @ [CoCallPacket 1 ((createPacket REQUEST 0 8 [])\<lparr>pk_payload := bytes_of ''ab''\<rparr>),
         CoPost (PostWrite (serialize LittleEndian 0 0 (createPacket RESPONSE 0 8 (bytes_of ''ab''))))]"
proof -
  have p: "pk_payload sample_packet = bytes_of ''ab''" by (simp add: createPacket_string_def createPacket_def)
  have wf: "wf_packet sample_packet" by (simp add: createPacket_string_def wf_createPacket)
  have ne: "pk_payload sample_packet \<noteq> []" by (simp add: p bytes_of_def)
  from connection_stale_payload [OF wf ne refl, of sample_env 1 True LittleEndian 0 0 8 "[]"]
  show ?thesis by (simp only: p Let_def conn_env.simps)
qed

section \<open>Bounds\<close>

definition conn_inv :: "connection \<Rightarrow> bool" where
  "conn_inv c \<longleftrightarrow> rd_inv (co_reader c) \<and> length (rd_payload (co_reader c)) \<le> 16372"

lemma conn_inv_reader: "conn_inv c \<Longrightarrow> co_reader c' = co_reader c \<Longrightarrow> conn_inv c'"
  by (simp add: conn_inv_def)

lemma Connection_afterRead_inv:
  assumes "rd_inv (co_reader c)" and "length (rd_payload (co_reader c)) \<le> 16372"
  shows "conn_inv (fst (Connection_afterRead e out c))"
proof (cases out)
  case (RoPacket p)
  have "rd_inv (rd_next (co_reader c))"
    using rd_next_idle [of "co_reader c"] assms(1) by (simp add: rd_idle_def rd_inv_def)
  with RoPacket assms show ?thesis by (simp add: conn_inv_def)
qed (use assms in \<open>simp_all add: conn_inv_def Connection_send_defs\<close>)

lemma rd_onHeader_payload:
  assumes "rd_inv r" and "rd_wait r = Some RdHeader" and "length d = 12" and "length (rd_payload r) \<le> 16372"
  shows "length (rd_payload (fst (rd_onHeader h d r))) \<le> 16372"
  using assms(4) unfolding rd_onHeader_full [OF assms(1-3) refl refl] by auto

interpretation conn: machine "Connection_step e" Connection_ok conn_inv for e
proof
  fix c ev
  assume inv: "conn_inv c" and ok: "Connection_ok c ev"
  show "conn_inv (fst (Connection_step e c ev))"
  proof (cases ev)
    case (CoStart pc cc)
    with ok show ?thesis
      using rd_inv_new(2) by (simp add: conn_inv_def Connection_start_def Connection_readHeader_def rd_idle_def)
        (simp add: rd_readHeader_def rd_new_def)
  next
    case CoRunPosted
    with inv show ?thesis
    proof (cases "co_posted c")
      case (Cons p rest)
      with CoRunPosted inv show ?thesis
        by (cases p) (auto simp: case_prod_beta intro: conn_inv_reader)
    qed simp
  next
    case (CoHeaderRead ec d)
    show ?thesis
    proof (cases "ec = None")
      case True
      with CoHeaderRead ok inv have "length d = 12" "rd_wait (co_reader c) = Some RdHeader" "rd_inv (co_reader c)"
        "length (rd_payload (co_reader c)) \<le> 16372"
        by (auto simp: conn_inv_def rd_inv_def)
      with True CoHeaderRead show ?thesis
        using rd_onHeader_inv(1) [of "co_reader c" d "en_host e"] rd_onHeader_payload [of "co_reader c" d "en_host e"]
        by (simp add: Connection_onHeader_def case_prod_beta Connection_afterRead_inv)
    qed (use CoHeaderRead inv in \<open>auto simp: Connection_onHeader_def Connection_readError_def conn_inv_def rd_inv_def\<close>)
  next
    case (CoPayloadRead ec d)
    show ?thesis
    proof (cases "ec = None")
      case True
      with CoPayloadRead ok obtain n where n: "rd_wait (co_reader c) = Some (RdBody n)" "length d = n"
        by (auto split: option.splits read_op.splits)
      with inv have "n \<le> 16372" "rd_inv (co_reader c)" by (auto simp: conn_inv_def rd_inv_def)
      with n True CoPayloadRead show ?thesis
        using rd_onPayload_inv [OF _ n]
        by (simp add: Connection_onPayload_def del: Connection_afterRead.simps)
          (rule Connection_afterRead_inv, simp_all add: rd_inv_def)
    qed (use CoPayloadRead inv in \<open>auto simp: Connection_onPayload_def Connection_readError_def conn_inv_def rd_inv_def\<close>)
  next
    case (CoWriteDone ec n)
    with inv show ?thesis by (auto simp: Connection_onWrite_def case_prod_beta intro: conn_inv_reader)
  qed (use inv in \<open>auto simp: Connection_send_defs Let_def intro: conn_inv_reader\<close>)
qed

text \<open>
  C33: whatever a client sends, a connection never holds more than 16372 bytes of payload, and a
  header whose length field is below 12 or above 16384 stops it: it posts the closing of its
  socket, reports nothing and reads no further.
\<close>

theorem connection_refuses_bad_lengths:
  assumes "allowed Connection_ok (Connection_step e) (Connection_create i) es"
    and "c = fst (run (Connection_step e) (Connection_create i) es)"
  shows "length (rd_payload (co_reader c)) \<le> 16372 \<and>
    (Connection_ok c (CoHeaderRead None d) \<longrightarrow>
     (let n = unat (be_val (take 4 d)) in n < 12 \<or> 16384 < n) \<longrightarrow>
     snd (Connection_step e c (CoHeaderRead None d)) = [CoPost PostClose] \<and>
     rd_wait (co_reader (fst (Connection_step e c (CoHeaderRead None d)))) = None)"
proof -
  have "conn_inv (Connection_create i)"
    by (simp add: conn_inv_def Connection_create_def rd_inv_new) (simp add: rd_new_def)
  from conn.run_inv [OF this assms(1)] assms(2) have inv: "conn_inv c" by simp
  moreover have "snd (Connection_step e c (CoHeaderRead None d)) = [CoPost PostClose] \<and>
     rd_wait (co_reader (fst (Connection_step e c (CoHeaderRead None d)))) = None"
    if ok: "Connection_ok c (CoHeaderRead None d)" and bad: "unat (be_val (take 4 d)) < 12 \<or> 16384 < unat (be_val (take 4 d))"
  proof -
    have idle: "rd_idle (co_reader c)" and len: "length d = 12"
      using inv ok by (auto simp: conn_inv_def rd_idle_def rd_inv_def)
    have n: "be_val (take 4 d) = ph_length (toHostByteOrder (en_host e) (header_of_mem (en_host e) d))"
      using len by (simp add: toHostByteOrder_def header_of_mem_def)
    from rd_onHeader_invalid [OF idle len n bad] show ?thesis
      by (simp add: Connection_onHeader_def case_prod_beta Connection_close_def)
  qed
  ultimately show ?thesis unfolding conn_inv_def Let_def by blast
qed

theorem connection_refuses_bad_lengths_witness:
  "let c = fst (run (Connection_step sample_env) (Connection_create 1) [CoStart True True]); d = replicate 12 0
   in snd (Connection_step sample_env c (CoHeaderRead None d)) = [CoPost PostClose]"
proof -
  let ?c = "fst (run (Connection_step sample_env) (Connection_create 1) [CoStart True True])"
  let ?d = "replicate 12 (0 :: u8)"
  have start: "allowed Connection_ok (Connection_step sample_env) (Connection_create 1) [CoStart True True]"
    by (simp add: Connection_create_def)
  have "Connection_ok ?c (CoHeaderRead None ?d)"
    by (simp add: Connection_create_def Connection_start_def Connection_readHeader_def rd_readHeader_def rd_new_def)
  moreover have "unat (be_val (take 4 ?d)) < 12" by code_simp
  ultimately show ?thesis
    using connection_refuses_bad_lengths [OF start refl, of ?d] unfolding Let_def by blast
qed

end
