(* ===== verification/AsioStream.thy ===== *)
theory AsioStream
  imports AsioConnection
begin

text \<open>
  A connection of the Asio server in arbitrary runs: reads complete among writes, calls of the
  server and closures of the strand.

  \<^item> What goes out is typed: whatever a client sends, a connection only ever writes well-formed
    packets, those of the server and its own replies.
  \<^item> What comes in is handled as the specification \<open>conn_spec\<close> of \<open>AsioConnection\<close> says, in
    every run, as far as the bytes have arrived.
\<close>

section \<open>What a connection writes\<close>

text \<open>The packets the server passes to \<open>sendPacket\<close> are well formed.\<close>

fun typed_event :: "conn_event \<Rightarrow> bool" where
  "typed_event (CoSend p) = wf_packet p"
| "typed_event _ = True"

abbreviation conn_enc :: "conn_env \<Rightarrow> packet \<Rightarrow> bytes" where
  "conn_enc e \<equiv> serialize (en_host e) (en_pad1 e) (en_pad2 e)"

fun typed_effect :: "conn_env \<Rightarrow> conn_effect \<Rightarrow> bool" where
  "typed_effect e (CoPost (PostWrite m)) \<longleftrightarrow> m \<in> conn_enc e ` Collect wf_packet"
| "typed_effect e _ \<longleftrightarrow> True"

definition typed_ok :: "connection \<Rightarrow> conn_event \<Rightarrow> bool" where
  "typed_ok c ev \<longleftrightarrow> Connection_ok c ev \<and> typed_event ev"

lemma allowed_typed: "allowed typed_ok step c es \<longleftrightarrow> allowed Connection_ok step c es \<and> list_all typed_event es"
  unfolding typed_ok_def [abs_def] by (rule allowed_events)

interpretation typed: machine "Connection_step e" typed_ok conn_inv for e
  by unfold_locales (simp add: typed_ok_def conn.step_inv)

lemma typed_reply:
  assumes "length (pk_payload p) \<le> 16372" and "length (en_serverId e) \<le> 16372"
  shows "list_all (typed_effect e) (reply_to e p)"
  using assms by (auto simp: reply_to_def createPacket_string_def wf_createPacket)

lemma typed_startRead: "list_all (typed_effect e) (snd (Connection_startRead c))"
  by (simp add: Connection_startRead_def split: option.split)

lemma typed_afterRead:
  assumes "\<And>p. out = RoPacket p \<Longrightarrow> length (pk_payload p) \<le> 16372" and "length (en_serverId e) \<le> 16372"
  shows "list_all (typed_effect e) (snd (Connection_afterRead e out c))"
  using assms
  by (cases out) (auto simp: Connection_close_def typed_startRead Connection_processPacket_effects typed_reply)

lemma typed_header:
  assumes "conn_inv c" and "Connection_ok c (CoHeaderRead None d)" and "snd (rd_onHeader h d (co_reader c)) = RoPacket p"
  shows "length (pk_payload p) \<le> 16372"
proof -
  have "rd_inv (co_reader c)" "rd_wait (co_reader c) = Some RdHeader" "length d = 12"
    and "length (rd_payload (co_reader c)) \<le> 16372"
    using assms(1,2) by (auto simp: conn_inv_def rd_inv_def)
  with assms(3) show ?thesis
    by (auto simp: rd_onHeader_full [OF _ _ _ refl refl] split: if_splits)
qed

lemma typed_payload:
  assumes "conn_inv c" and "Connection_ok c (CoPayloadRead None d)" and "snd (rd_onPayload d (co_reader c)) = RoPacket p"
  shows "length (pk_payload p) \<le> 16372"
proof -
  from assms(2) obtain n where n: "rd_wait (co_reader c) = Some (RdBody n)" "length d = n"
    by (auto split: option.splits read_op.splits)
  with assms(1) have "rd_inv (co_reader c)" "n \<le> 16372" by (auto simp: conn_inv_def rd_inv_def)
  with assms(3) n show ?thesis by (auto simp: rd_onPayload_inv)
qed

lemma typed_step:
  assumes inv: "conn_inv c" and ok: "typed_ok c ev" and sid: "length (en_serverId e) \<le> 16372"
  shows "list_all (typed_effect e) (snd (Connection_step e c ev))"
proof -
  have ev: "Connection_ok c ev" "typed_event ev" using ok by (simp_all add: typed_ok_def)
  show ?thesis
  proof (cases ev)
    case (CoHeaderRead ec d)
    with ev(1) typed_header [OF inv, of d "en_host e"] show ?thesis
      by (auto simp: Connection_onHeader_def Connection_readError_def case_prod_beta
          simp del: Connection_afterRead.simps intro!: typed_afterRead sid)
  next
    case (CoPayloadRead ec d)
    with ev(1) typed_payload [OF inv, of d] show ?thesis
      by (auto simp: Connection_onPayload_def Connection_readError_def case_prod_beta
          simp del: Connection_afterRead.simps intro!: typed_afterRead sid)
  next
    case CoRunPosted
    then show ?thesis
      by (cases "co_posted c"; cases "hd (co_posted c)") (auto simp: case_prod_beta list_all_iff)
  next
    case (CoStart pc cc)
    then show ?thesis by (simp add: Connection_start_def Connection_readHeader_def typed_startRead)
  qed (use ev in \<open>auto simp: Connection_send_defs Let_def Connection_onWrite_def case_prod_beta list_all_iff\<close>)
qed

lemma typed_posts: "list_all (typed_effect e) os \<Longrightarrow> \<exists>ps. list_all wf_packet ps \<and> conn_posts os = map (conn_enc e) ps"
proof (induction os)
  case (Cons x os)
  then obtain ps where ps: "list_all wf_packet ps" "conn_posts os = map (conn_enc e) ps" by auto
  show ?case
  proof (cases "conn_posted x")
    case None
    with ps show ?thesis by auto
  next
    case (Some m)
    then have "x = CoPost (PostWrite m)" by (cases x rule: conn_posted.cases; cases "the (Some m)") (auto elim: posted_write.elims)
    with Cons.prems obtain p where "wf_packet p" "m = conn_enc e p" by auto
    with ps Some show ?thesis by (intro exI [of _ "p # ps"]) simp
  qed
qed simp

lemma connection_posts_typed:
  assumes "allowed Connection_ok (Connection_step e) (Connection_create i) es" and "list_all typed_event es"
    and "length (en_serverId e) \<le> 16372"
    and "run (Connection_step e) (Connection_create i) es = (c, os)"
  shows "\<exists>ps. list_all wf_packet ps \<and> conn_posts os = map (conn_enc e) ps
    \<and> prefix (wq_sent (co_writer c)) (wire (conn_enc e) ps)
    \<and> prefix (fst (unframe decode_packet (wq_sent (co_writer c)))) ps"
proof -
  have "conn_inv (Connection_create i)"
    by (simp add: conn_inv_def Connection_create_def rd_inv_new) (simp add: rd_new_def)
  with typed.run_outputs [of e "typed_effect e" "Connection_create i" es] typed_step assms
  have "list_all (typed_effect e) os" by (force simp: list_all_iff allowed_typed)
  from typed_posts [OF this] obtain ps where ps: "list_all wf_packet ps" "conn_posts os = map (conn_enc e) ps" by blast
  from conn_posts_kept [OF assms(1,4)] ps(2) have sent: "prefix (wq_sent (co_writer c)) (wire (conn_enc e) ps)"
    by (auto simp: wire_def)
  from asio.unframe_prefix [OF ps(1) this] have "prefix (fst (unframe decode_packet (wq_sent (co_writer c)))) ps"
    by (auto intro: take_is_prefix)
  with ps sent show ?thesis by blast
qed

text \<open>
  C10: a connection only writes well-formed packets. In every run that Boost.Asio allows, whatever
  bytes the client sends and however reads and writes fail, if the server passes well-formed
  packets to \<open>sendPacket\<close> and the server id fits a packet, then every buffer posted to the strand
  is a serialized packet with the right length field, accepted by every receiver, and the bytes
  on the wire are a prefix of such packets: a receiver parses them into the first packets posted
  and a rest that is a proper part of a packet.
\<close>

theorem connection_output_typed:
  assumes "allowed Connection_ok (Connection_step e) (Connection_create i) es" and "list_all typed_event es"
    and "length (en_serverId e) \<le> 16372"
    and "run (Connection_step e) (Connection_create i) es = (c, os)"
  shows "\<exists>ps. list_all wf_packet ps \<and> conn_posts os = map (conn_enc e) ps
    \<and> prefix (wq_sent (co_writer c)) (wire (conn_enc e) ps)
    \<and> prefix (fst (unframe decode_packet (wq_sent (co_writer c)))) ps"
  by (rule connection_posts_typed [OF assms])

theorem connection_output_typed_witness:
  "let (c, os) = run (Connection_step sample_env) (Connection_create 1)
         [CoStart True True, CoHeaderRead None (take 12 (conn_enc sample_env sample_packet)), CoSend sample_packet,
          CoPayloadRead None (bytes_of ''ab''), CoRunPosted, CoRunPosted, CoWriteDone None 14]
   in length (conn_posts os) = 2 \<and> (\<exists>ps. list_all wf_packet ps \<and> conn_posts os = map (conn_enc sample_env) ps
     \<and> prefix (wq_sent (co_writer c)) (wire (conn_enc sample_env) ps)
     \<and> prefix (fst (unframe decode_packet (wq_sent (co_writer c)))) ps)"
proof -
  let ?es = "[CoStart True True, CoHeaderRead None (take 12 (conn_enc sample_env sample_packet)), CoSend sample_packet,
    CoPayloadRead None (bytes_of ''ab''), CoRunPosted, CoRunPosted, CoWriteDone None 14]"
  let ?r = "run (Connection_step sample_env) (Connection_create 1) ?es"
  have 1: "allowed Connection_ok (Connection_step sample_env) (Connection_create 1) ?es" by code_simp
  have 2: "list_all typed_event ?es" by (simp add: createPacket_string_def wf_createPacket)
  have 3: "length (en_serverId sample_env) \<le> 16372" by simp
  have "length (conn_posts (snd ?r)) = 2" by code_simp
  with connection_output_typed [OF 1 2 3 prod.collapse [symmetric]]
  show ?thesis by (simp only: Let_def case_prod_beta simp_thms)
qed

section \<open>Packets among other events\<close>

text \<open>
  A class that has a packet reader among its members, in arbitrary runs. \<open>reads e\<close> is the outcome
  of the read that completes with \<open>e\<close>; \<open>view\<close> is what a packet may change. A good read goes
  through the reader, a failed one stops it, and other events leave it alone. The specification
  has the payload of the last packet in its state, which the class loses while it reads the next
  payload: the run is paired with that payload.
\<close>

definition good_bytes :: "('e \<Rightarrow> (error_code \<times> bytes) option) \<Rightarrow> 'e \<Rightarrow> bytes" where
  "good_bytes reads e = (case reads e of Some (None, d) \<Rightarrow> d | _ \<Rightarrow> [])"

definition paired :: "('s \<Rightarrow> packet_reader) \<Rightarrow> ('s \<Rightarrow> 'e \<Rightarrow> 's \<times> 'o list) \<Rightarrow> 's \<times> bytes \<Rightarrow> 'e \<Rightarrow> ('s \<times> bytes) \<times> 'o list" where
  "paired get step sp e = (let s' = fst (step (fst sp) e) in
     ((s', if rd_wait (get s') = Some RdHeader then rd_payload (get s') else snd sp), snd (step (fst sp) e)))"

definition reading :: "('s \<Rightarrow> packet_reader) \<Rightarrow> endian \<Rightarrow> 's \<times> bytes \<Rightarrow> bytes \<Rightarrow> bool" where
  "reading get host sp p \<longleftrightarrow> (let r = get (fst sp) in rd_inv r \<and>
     (rd_wait r = Some RdHeader \<and> p = [] \<and> snd sp = rd_payload r
      \<or> (\<exists>n. rd_wait r = Some (RdBody n) \<and> p = rd_buffer r \<and> unat (ph_length (rd_header r)) = 12 + n
           \<and> rd_header r = toHostByteOrder host (header_of_mem host p))))"

lemma fst_paired:
  "fst (fst (paired get step sp e)) = fst (step (fst sp) e)" "snd (paired get step sp e) = snd (step (fst sp) e)"
  "snd (fst (paired get step sp e)) = (if rd_wait (get (fst (step (fst sp) e))) = Some RdHeader
     then rd_payload (get (fst (step (fst sp) e))) else snd sp)"
  by (simp_all add: paired_def Let_def)

lemma run_paired:
  "fst (fst (run (paired get step) sp es)) = fst (run step (fst sp) es) \<and>
   snd (run (paired get step) sp es) = snd (run step (fst sp) es)"
  by (induction es arbitrary: sp) (simp_all add: fst_paired)

lemma run_paired_payload:
  "(rd_wait (get (fst sp)) = Some RdHeader \<longrightarrow> snd sp = rd_payload (get (fst sp))) \<Longrightarrow> t = fst (run (paired get step) sp es) \<Longrightarrow>
     rd_wait (get (fst t)) = Some RdHeader \<Longrightarrow> snd t = rd_payload (get (fst t))"
  by (induction es arbitrary: sp) (auto simp: fst_paired)

lemma allowed_paired: "allowed (\<lambda>sp. ok (fst sp)) (paired get step) sp es \<longleftrightarrow> allowed ok step (fst sp) es"
  by (induction es arbitrary: sp) (simp_all add: fst_paired)

locale packet_run =
  fixes get :: "'s \<Rightarrow> packet_reader"
    and put :: "packet_reader \<Rightarrow> 's \<Rightarrow> 's"
    and host :: endian
    and after :: "read_outcome \<Rightarrow> 's \<Rightarrow> 's \<times> 'o list"
    and step :: "'s \<Rightarrow> 'e \<Rightarrow> 's \<times> 'o list"
    and ok :: "'s \<Rightarrow> 'e \<Rightarrow> bool"
    and reads :: "'e \<Rightarrow> (error_code \<times> bytes) option"
    and rx :: "'s \<Rightarrow> bool"
    and view :: "'s \<Rightarrow> 'a"
    and vis :: "'o \<Rightarrow> 'v option"
    and spec :: "bytes \<times> 'a \<Rightarrow> packet \<Rightarrow> (bytes \<times> 'a) \<times> 'v list"
  assumes get_put: "get (put r s) = r" and put_keeps: "view (put r s) = view s" "rx (put r s) = rx s"
    and rx_step: "rx s \<Longrightarrow> ok s e \<Longrightarrow> rx (fst (step s e))"
    and other_event: "rx s \<Longrightarrow> ok s e \<Longrightarrow> reads e = None \<Longrightarrow>
      get (fst (step s e)) = get s \<and> view (fst (step s e)) = view s \<and> List.map_filter vis (snd (step s e)) = []"
    and failed_read: "rx s \<Longrightarrow> ok s e \<Longrightarrow> reads e = Some (Some x, d) \<Longrightarrow>
      get (fst (step s e)) = (get s)\<lparr>rd_wait := None\<rparr> \<and> view (fst (step s e)) = view s
        \<and> List.map_filter vis (snd (step s e)) = []"
    and good_read: "rx s \<Longrightarrow> ok s e \<Longrightarrow> reads e = Some (None, d) \<Longrightarrow> rd_want (get s) = Some (length d) \<and>
      step s e = (let (r, out) = (if rd_wait (get s) = Some RdHeader then rd_onHeader host d (get s) else rd_onPayload d (get s))
                  in after out (put r s))"
    and after_wait: "get (fst (after RoWait s)) = get s" "view (fst (after RoWait s)) = view s"
      "List.map_filter vis (snd (after RoWait s)) = []"
    and after_packet: "rx s \<Longrightarrow> rd_payload (get s) = pk_payload q \<Longrightarrow> get (fst (after (RoPacket q) s)) = rd_next (get s)
      \<and> (q = seen_packet prev p \<longrightarrow>
          ((pk_payload q, view (fst (after (RoPacket q) s))), List.map_filter vis (snd (after (RoPacket q) s))) = spec (prev, view s) p)"
begin

text \<open>The ways in which an event can go on with the packet \<open>p\<close> of which the header is to come or has come.\<close>

lemma header_arrives:
  assumes inv: "rx s" "rd_idle (get s)" and ok: "ok s e" and rd: "reads e = Some (None, header_wire p1 p2 (pk_header p))"
    and wf: "wf_packet p" and ne: "pk_payload p \<noteq> []"
  shows "reading get host (fst (step s e), prev) (header_wire p1 p2 (pk_header p)) \<and> view (fst (step s e)) = view s
    \<and> List.map_filter vis (snd (step s e)) = []"
proof -
  let ?d = "header_wire p1 p2 (pk_header p)"
  have r: "rd_inv (get s)" "rd_wait (get s) = Some RdHeader" using inv(2) by (simp_all add: rd_idle_def)
  have len: "unat (ph_length (pk_header p)) = 12 + length (pk_payload p)" "length (pk_payload p) \<le> 16372"
    using wf_packet_length [OF wf] wf by (simp_all add: wf_packet_def)
  from rd_onHeader_packet [OF inv(2) wf ne, of host p1 p2] rd_onHeader_buffer [OF r, of ?d host] obtain r' where
    r': "rd_onHeader host ?d (get s) = (r', RoWait)" "rd_inv r'" "rd_wait r' = Some (RdBody (length (pk_payload p)))"
      "rd_header r' = pk_header p" "rd_buffer r' = ?d" by auto
  with good_read [OF inv(1) ok rd] r(2) have "step s e = after RoWait (put r' s)" by simp
  with r' len show ?thesis
    by (simp add: reading_def after_wait get_put put_keeps Let_def header_received)
qed

lemma empty_packet_arrives:
  assumes inv: "rx s" "rd_idle (get s)" and ok: "ok s e" and rd: "reads e = Some (None, header_wire p1 p2 (pk_header p))"
    and wf: "wf_packet p" and empty: "pk_payload p = []"
  shows "rd_idle (get (fst (step s e))) \<and>
    ((rd_payload (get (fst (step s e))), view (fst (step s e))), List.map_filter vis (snd (step s e)))
      = spec (rd_payload (get s), view s) p"
proof -
  let ?q = "seen_packet (rd_payload (get s)) p"
  from rd_onHeader_empty [OF inv(2) wf empty, of host p1 p2] empty obtain r' where
    r': "rd_onHeader host (header_wire p1 p2 (pk_header p)) (get s) = (r', RoPacket ?q)"
      "length (rd_buffer r') = 12" "rd_payload r' = pk_payload ?q" by auto
  with good_read [OF inv(1) ok rd] inv(2) have "step s e = after (RoPacket ?q) (put r' s)" by (simp add: rd_idle_def)
  with after_packet [of "put r' s" ?q "rd_payload (get s)" p] r' inv(1) show ?thesis
    by (simp add: get_put put_keeps rd_next_idle)
qed

lemma payload_arrives:
  assumes inv: "rx s" "rd_inv (get s)" "rd_wait (get s) = Some (RdBody (length (pk_payload p)))"
      "rd_header (get s) = pk_header p"
    and ok: "ok s e" and rd: "reads e = Some (None, pk_payload p)"
  shows "rd_idle (get (fst (step s e))) \<and>
    ((rd_payload (get (fst (step s e))), view (fst (step s e))), List.map_filter vis (snd (step s e))) = spec (prev, view s) p"
proof -
  let ?r = "(get s)\<lparr>rd_wait := None, rd_payload := pk_payload p, rd_payload_bytes := length (pk_payload p)\<rparr>"
  have ne: "pk_payload p \<noteq> []" and buf: "length (rd_buffer (get s)) = 12" using inv(2,3) by (auto simp: rd_inv_def)
  have "step s e = after (RoPacket p) (put ?r s)"
    using good_read [OF inv(1) ok rd] rd_onPayload_inv [OF inv(2,3) refl] inv(3,4) by simp
  with after_packet [of "put ?r s" p prev p] inv(1) ne buf show ?thesis
    by (simp add: get_put put_keeps rd_next_idle)
qed

text \<open>What a good read has brought, from what the receiver asked for.\<close>

lemma reading_cases:
  assumes "rx (fst sp)" and "reading get host sp b" and ok: "ok (fst sp) e" and rd: "reads e = Some (None, d)"
    and wf: "wf_packet p" and b: "prefix b (serialize h p1 p2 p)" and bd: "prefix (b @ d) (serialize h p1 p2 p @ rest)"
  obtains "b = []" "d = header_wire p1 p2 (pk_header p)" "rd_idle (get (fst sp))" "snd sp = rd_payload (get (fst sp))"
  | "b = header_wire p1 p2 (pk_header p)" "d = pk_payload p" "rd_inv (get (fst sp))" "rd_header (get (fst sp)) = pk_header p"
    "rd_wait (get (fst sp)) = Some (RdBody (length (pk_payload p)))"
proof -
  let ?r = "get (fst sp)"
  have inv: "rd_inv ?r" using assms(2) by (simp add: reading_def Let_def)
  have want: "rd_want ?r = Some (length d)" using good_read [OF assms(1) ok rd] by simp
  from assms(2) consider "rd_wait ?r = Some RdHeader" "b = []" "snd sp = rd_payload ?r"
    | n where "rd_wait ?r = Some (RdBody n)" "b = rd_buffer ?r" "unat (ph_length (rd_header ?r)) = 12 + n"
      "rd_header ?r = toHostByteOrder host (header_of_mem host b)"
    by (auto simp: reading_def Let_def)
  then show thesis
  proof cases
    case 1
    with inv want have "length d = 12" by (simp add: rd_inv_def)
    with bd 1(2) have "d = header_wire p1 p2 (pk_header p)"
      by (auto simp: serialize_wire prefix_def append_eq_append_conv)
    with 1 inv that(1) show thesis by (simp add: rd_idle_def)
  next
    case 2
    with inv have "length b = 12" by (simp add: rd_inv_def)
    with b have hdr: "b = header_wire p1 p2 (pk_header p)" by (auto simp: serialize_wire prefix_def append_eq_append_conv)
    then have ph: "rd_header ?r = pk_header p" unfolding 2(4) by (simp add: header_received)
    with 2 wf_packet_length [OF wf] have n: "n = length (pk_payload p)" by simp
    with want 2 have "length d = length (pk_payload p)" by simp
    with bd hdr have "d = pk_payload p" by (auto simp: serialize_wire prefix_def append_eq_append_conv)
    with hdr inv ph n 2 that(2) show thesis by simp
  qed
qed

lemma paired_step:
  assumes rdg: "rx (fst sp) \<and> reading get host sp b" and ok: "ok (fst sp) e"
    and wf: "wf_packet p" and b: "prefix b (serialize h p1 p2 p)"
    and bd: "prefix (b @ good_bytes reads e) (serialize h p1 p2 p @ rest)" and t: "t = paired get step sp e"
  shows "prefix (b @ good_bytes reads e) (serialize h p1 p2 p)
      \<and> (rx (fst (fst t)) \<and> reading get host (fst t) (b @ good_bytes reads e) \<or> rx (fst (fst t)) \<and> rd_wait (get (fst (fst t))) = None)
      \<and> (snd (fst t), view (fst (fst t))) = (snd sp, view (fst sp)) \<and> List.map_filter vis (snd t) = []
    \<or> b @ good_bytes reads e = serialize h p1 p2 p
      \<and> (rx (fst (fst t)) \<and> reading get host (fst t) [] \<or> rx (fst (fst t)) \<and> rd_wait (get (fst (fst t))) = None)
      \<and> ((snd (fst t), view (fst (fst t))), List.map_filter vis (snd t)) = spec (snd sp, view (fst sp)) p"
  (is "?within \<or> ?packet")
proof -
  have rx: "rx (fst sp)" "rx (fst (step (fst sp) e))" using rdg ok rx_step by simp_all
  note simps = t fst_paired good_bytes_def
  show ?thesis
  proof (cases "reads e")
    case None
    with other_event [OF rx(1) ok None] rdg rx b have ?within by (auto simp: simps reading_def Let_def)
    then show ?thesis ..
  next
    case (Some r)
    obtain ec d where r: "r = (ec, d)" by (cases r)
    show ?thesis
    proof (cases ec)
      case (Some x)
      with failed_read [OF rx(1) ok, of x d] r \<open>reads e = Some r\<close> rx b have ?within by (auto simp: simps)
      then show ?thesis ..
    next
      case None
      with r \<open>reads e = Some r\<close> have rd: "reads e = Some (None, d)" by simp
      with bd have bd': "prefix (b @ d) (serialize h p1 p2 p @ rest)" by (simp add: good_bytes_def)
      from reading_cases [OF rx(1) conjunct2 [OF rdg] ok rd wf b bd'] show ?thesis
      proof cases
        case 1
        show ?thesis
        proof (cases "pk_payload p = []")
          case True
          with empty_packet_arrives [OF rx(1) 1(3) ok _ wf True] rd 1 rx(2) have ?packet
            by (simp add: simps reading_def rd_idle_def Let_def serialize_wire)
          then show ?thesis ..
        next
          case False
          with header_arrives [OF rx(1) 1(3) ok _ wf False, of p1 p2 "snd sp"] rd 1 rx(2) have ?within
            by (auto simp: simps reading_def Let_def serialize_wire header_wire_def)
          then show ?thesis ..
        qed
      next
        case 2
        with payload_arrives [OF rx(1) 2(3,5,4) ok, of "snd sp"] rd rx(2) have ?packet
          by (simp add: simps reading_def rd_idle_def Let_def serialize_wire)
        then show ?thesis ..
      qed
    qed
  qed
qed

lemma paired_stopped:
  assumes "rx (fst sp) \<and> rd_wait (get (fst sp)) = None" and ok: "ok (fst sp) e" and t: "t = paired get step sp e"
  shows "good_bytes reads e = [] \<and> (rx (fst (fst t)) \<and> rd_wait (get (fst (fst t))) = None)
    \<and> (snd (fst t), view (fst (fst t))) = (snd sp, view (fst sp)) \<and> List.map_filter vis (snd t) = []"
proof -
  have rx: "rx (fst sp)" "rx (fst (step (fst sp) e))" and stop: "rd_wait (get (fst sp)) = None"
    using assms(1) ok rx_step by simp_all
  consider "reads e = None" | x d where "reads e = Some (Some x, d)" | d where "reads e = Some (None, d)"
    by (cases "reads e") (auto, metis option.exhaust)
  then show ?thesis
  proof cases
    case 1
    with other_event [OF rx(1) ok 1] rx stop show ?thesis by (simp add: t fst_paired good_bytes_def)
  next
    case (2 x d)
    with failed_read [OF rx(1) ok 2] rx stop show ?thesis by (simp add: t fst_paired good_bytes_def)
  next
    case (3 d)
    with good_read [OF rx(1) ok 3] stop show ?thesis by simp
  qed
qed

end

sublocale packet_run \<subseteq> rx: machine step ok rx
  by unfold_locales (rule rx_step)

sublocale packet_run \<subseteq> stream: interleaved_reader "paired get step" "\<lambda>sp. ok (fst sp)" "good_bytes reads"
    "serialize h p1 p2" wf_packet "\<lambda>sp b. rx (fst sp) \<and> reading get host sp b"
    "\<lambda>sp. rx (fst sp) \<and> rd_wait (get (fst sp)) = None" "\<lambda>sp. (snd sp, view (fst sp))" vis spec
    for h p1 p2
proof
  show "\<exists>f. wf_packet f \<and> serialize h p1 p2 f \<noteq> []"
    using wf_createPacket [of "[]"] asio.enc_nonempty by fastforce
  show "rx (fst sp) \<and> reading get host sp b \<Longrightarrow> \<not> (rx (fst sp) \<and> rd_wait (get (fst sp)) = None)" for sp b
    by (auto simp: reading_def Let_def)
  show "rx (fst sp) \<and> reading get host sp b \<Longrightarrow> rx (fst sp) \<and> reading get host sp b' \<Longrightarrow> b = b'" for sp b b'
    by (auto simp: reading_def Let_def)
qed (use paired_step [OF _ _ _ _ _ refl] paired_stopped [OF _ _ refl] in blast)+

context packet_run
begin

text \<open>
  Every run that starts between two packets: the packets whose bytes have arrived are handled as
  the specification does. Between two packets nothing else has arrived.
\<close>

theorem run_packets:
  assumes "rx s" and "rd_idle (get s)" and "allowed ok step s es" and "list_all wf_packet ps"
    and "prefix (received (good_bytes reads) es) (wire (serialize h p1 p2) ps)"
    and "(s', os) = run step s es"
  shows "\<exists>n prev. handled (serialize h p1 p2) spec (rd_payload (get s), view s) ps (received (good_bytes reads) es)
    (rd_idle (get s')) ((prev, view s'), List.map_filter vis os) n"
proof -
  let ?sp = "(s, rd_payload (get s))"
  let ?t = "run (paired get step) ?sp es"
  have "rx (fst ?sp) \<and> reading get host ?sp []" using assms(1,2) by (simp add: reading_def rd_idle_def)
  from stream.run_handled [OF this _ assms(4), of es h p1 p2] assms(3,5) obtain n where
    n: "handled (serialize h p1 p2) spec (rd_payload (get s), view s) ps (received (good_bytes reads) es)
      (rx (fst (fst ?t)) \<and> reading get host (fst ?t) []) ((snd (fst ?t), view (fst (fst ?t))), List.map_filter vis (snd ?t)) n"
    by (auto simp: allowed_paired)
  have t: "fst (fst ?t) = s'" "snd ?t = os" using run_paired [of get step ?sp es] assms(6) by (simp_all add: prod_eq_iff)
  have "rx s'" using rx.run_inv [OF assms(1,3)] assms(6) by (simp add: prod_eq_iff)
  then have "rx s' \<and> reading get host (fst ?t) []" if "rd_idle (get s')"
    using that run_paired_payload [of get ?sp "fst ?t" step es] t by (simp add: reading_def rd_idle_def Let_def)
  with n t show ?thesis by (intro exI [of _ n] exI [of _ "snd (fst ?t)"]) (auto simp: handled_def)
qed

end

section \<open>A connection among other events\<close>

fun conn_reads :: "conn_event \<Rightarrow> (error_code \<times> bytes) option" where
  "conn_reads (CoHeaderRead ec d) = Some (ec, d)"
| "conn_reads (CoPayloadRead ec d) = Some (ec, d)"
| "conn_reads _ = None"

text \<open>
  What a connection does of its own: the packets it reports and the packets it sends in reply. The
  packets the server sends through it are left out.
\<close>

fun conn_told :: "conn_effect \<Rightarrow> conn_effect option" where
  "conn_told (CoCallPacket i p) = Some (CoCallPacket i p)"
| "conn_told (CoPost (PostWrite m)) = Some (CoPost (PostWrite m))"
| "conn_told _ = None"

definition own_step :: "conn_env \<Rightarrow> connection \<Rightarrow> conn_event \<Rightarrow> connection \<times> conn_effect list" where
  "own_step e c ev = (fst (Connection_step e c ev), case ev of CoSend p \<Rightarrow> [] | _ \<Rightarrow> snd (Connection_step e c ev))"

lemma run_own: "fst (run (own_step e) c es) = fst (run (Connection_step e) c es)"
  by (induction es arbitrary: c) (simp_all add: own_step_def del: Connection_step.simps)

lemma allowed_own: "allowed ok (own_step e) c es \<longleftrightarrow> allowed ok (Connection_step e) c es"
  by (induction es arbitrary: c) (simp_all add: own_step_def del: Connection_step.simps)

text \<open>A connection is started once.\<close>

fun started_event :: "conn_event \<Rightarrow> bool" where
  "started_event (CoStart pc cc) = False"
| "started_event _ = True"

definition conn_rx :: "bool \<Rightarrow> int \<Rightarrow> connection \<Rightarrow> bool" where
  "conn_rx cb i c \<longleftrightarrow> co_packetCallback c = cb \<and> co_id c = i"

declare List.map_filter_simps [simp]

lemma conn_told_others [simp]:
  "List.map_filter conn_told (snd (Connection_startRead c)) = []"
  "List.map_filter conn_told (map CoStartWrite bs) = []"
  "List.map_filter conn_told (reply_to e p) = reply_to e p"
  by (simp_all add: Connection_startRead_def reply_to_def split: option.split) (induction bs; simp)

lemma own_afterPacket:
  assumes "conn_rx cb i c" and "rd_payload (co_reader c) = pk_payload q"
  shows "co_reader (fst (Connection_afterRead e (RoPacket q) c)) = rd_next (co_reader c)
    \<and> (q = seen_packet prev p \<longrightarrow>
        ((pk_payload q, co_client_id (fst (Connection_afterRead e (RoPacket q) c))),
         List.map_filter conn_told (snd (Connection_afterRead e (RoPacket q) c))) = conn_spec e cb i (prev, co_client_id c) p)"
  using assms by (auto simp: conn_rx_def Connection_processPacket_effects Let_def)

text \<open>What the other events and failed reads leave alone.\<close>

lemma own_other:
  assumes "conn_reads ev = None" and "started_event ev"
  shows "co_reader (fst (own_step e c ev)) = co_reader c \<and> co_client_id (fst (own_step e c ev)) = co_client_id c
    \<and> co_packetCallback (fst (own_step e c ev)) = co_packetCallback c \<and> co_id (fst (own_step e c ev)) = co_id c
    \<and> List.map_filter conn_told (snd (own_step e c ev)) = []"
proof (cases ev)
  case CoRunPosted
  then show ?thesis
    by (cases "co_posted c"; cases "hd (co_posted c)") (auto simp: own_step_def case_prod_beta)
qed (use assms in \<open>auto simp: own_step_def Connection_send_defs Connection_onWrite_def case_prod_beta Let_def\<close>)

lemma own_failed:
  assumes "conn_reads ev = Some (Some x, d)"
  shows "own_step e c ev = Connection_readError (Some x) c"
  using assms by (cases ev) (auto simp: own_step_def Connection_onHeader_def Connection_onPayload_def)

lemma own_good:
  assumes "conn_reads ev = Some (None, d)" and "Connection_ok c ev"
  shows "rd_want (co_reader c) = Some (length d) \<and> own_step e c ev =
    (let (r, out) = (if rd_wait (co_reader c) = Some RdHeader then rd_onHeader (en_host e) d (co_reader c)
                     else rd_onPayload d (co_reader c))
     in Connection_afterRead e out (c\<lparr>co_reader := r\<rparr>))"
  using assms
  by (cases ev) (auto simp: own_step_def Connection_onHeader_def Connection_onPayload_def prod_eq_iff case_prod_beta
      simp del: Connection_afterRead.simps split: option.splits read_op.splits)

lemma own_rx:
  assumes "conn_rx cb i c" and "Connection_ok c ev" and "started_event ev"
  shows "conn_rx cb i (fst (own_step e c ev))"
proof -
  have after: "co_packetCallback (fst (Connection_afterRead e out c)) = co_packetCallback c"
    "co_id (fst (Connection_afterRead e out c)) = co_id c" for out c
    by (cases out; simp add: Connection_send_defs)+
  consider "conn_reads ev = None" | x d where "conn_reads ev = Some (Some x, d)" | d where "conn_reads ev = Some (None, d)"
    by (cases "conn_reads ev") (auto, metis option.exhaust)
  then show ?thesis
  proof cases
    case 1
    with own_other [OF 1 assms(3), of e c] assms(1) show ?thesis by (simp add: conn_rx_def)
  next
    case 2
    with assms(1) show ?thesis by (simp add: own_failed [OF 2] conn_rx_def Connection_readError_def)
  next
    case 3
    with own_good [OF 3 assms(2), of e] assms(1) show ?thesis by (simp add: case_prod_beta conn_rx_def after)
  qed
qed

interpretation conn_stream: packet_run co_reader "\<lambda>r c. c\<lparr>co_reader := r\<rparr>" "en_host e" "Connection_afterRead e"
    "own_step e" "\<lambda>c ev. Connection_ok c ev \<and> started_event ev" conn_reads "conn_rx cb i" co_client_id conn_told
    "conn_spec e cb i"
    for e cb i
proof (unfold_locales, goal_cases)
  case (4 s ev)
  then show ?case by (simp add: own_rx)
next
  case (5 s ev)
  then show ?case using own_other [of ev e s] by simp
next
  case (6 s ev x d)
  then show ?case by (simp add: own_failed [of ev x d] Connection_readError_def)
next
  case (7 s ev d)
  then show ?case using own_good [of ev d s e] by simp
next
  case (11 s q prev p)
  then show ?case by (rule own_afterPacket)
qed (simp_all add: conn_rx_def)

lemma connection_run_packets:
  assumes "c = fst (Connection_step e (Connection_create i) (CoStart cb cc))"
    and "allowed Connection_ok (Connection_step e) c es" and "list_all started_event es" and "list_all wf_packet ps"
    and "prefix (received (good_bytes conn_reads) es) (wire (serialize h p1 p2) ps)"
    and "c' = fst (run (Connection_step e) c es)" and "os = snd (run (own_step e) c es)"
  shows "\<exists>n prev. handled (serialize h p1 p2) (conn_spec e cb i) ([], ''unknown'') ps (received (good_bytes conn_reads) es)
    (rd_idle (co_reader c')) ((prev, co_client_id c'), List.map_filter conn_told os) n"
proof -
  have c: "conn_rx cb i c" "rd_idle (co_reader c)" "rd_payload (co_reader c) = []" "co_client_id c = ''unknown''"
    using Connection_started [where e = e and cb = cb and i = i and cc = cc]
    by (simp_all add: assms(1) conn_idle_def conn_abs_def conn_rx_def del: Connection_step.simps)
  have "allowed (\<lambda>c ev. Connection_ok c ev \<and> started_event ev) (own_step e) c es"
    using assms(2,3) by (simp add: allowed_own allowed_events)
  from conn_stream.run_packets [OF c(1,2) this assms(4,5), of c' os] c(3,4) show ?thesis
    by (simp add: assms(6,7) run_own prod_eq_iff)
qed

text \<open>
  C9: in every run of a started connection, whatever else happens between its reads (packets the
  server sends, writes that succeed or fail, closures of the strand, closing), the connection
  handles the packets a client sends as the specification does: if what has arrived is the
  beginning of a stream of well-formed packets, there is a number of packets such that exactly
  these have arrived completely, each of them has been reported once and in order, each bind
  request and request among them has been answered in order, and the client id is that of the
  last bind request among them. When the connection waits for a header, all that has arrived is
  handled. A read that fails ends this, with the packets handled so far.
\<close>

theorem connection_refines_spec_in_any_run:
  assumes "c = fst (Connection_step e (Connection_create i) (CoStart cb cc))"
    and "allowed Connection_ok (Connection_step e) c es" and "list_all started_event es" and "list_all wf_packet ps"
    and "prefix (received (good_bytes conn_reads) es) (wire (serialize h p1 p2) ps)"
    and "c' = fst (run (Connection_step e) c es)" and "os = snd (run (own_step e) c es)"
  shows "\<exists>n prev. handled (serialize h p1 p2) (conn_spec e cb i) ([], ''unknown'') ps (received (good_bytes conn_reads) es)
    (rd_idle (co_reader c')) ((prev, co_client_id c'), List.map_filter conn_told os) n"
  by (rule connection_run_packets [OF assms])

text \<open>A client binds and sends a request while the server sends it a packet.\<close>

abbreviation sample_stream :: "packet list" where
  "sample_stream \<equiv> [createPacket_string BIND 0 1 ''me'', sample_packet]"

abbreviation sample_reads :: "conn_event list" where
  "sample_reads \<equiv> [CoSend sample_packet, CoHeaderRead None (header_wire 7 8 (pk_header (sample_stream ! 0))), CoRunPosted,
     CoPayloadRead None (bytes_of ''me''), CoWriteDone (Some (other_error 1)) 3,
     CoHeaderRead None (header_wire 7 8 (pk_header sample_packet)), CoClose, CoPayloadRead None (bytes_of ''ab'')]"

theorem connection_refines_spec_in_any_run_witness:
  "let c = fst (Connection_step sample_env (Connection_create 1) (CoStart True True));
       c' = fst (run (Connection_step sample_env) c sample_reads); os = snd (run (own_step sample_env) c sample_reads)
   in rd_idle (co_reader c') \<and> (\<exists>n prev. handled (serialize BigEndian 7 8) (conn_spec sample_env True 1) ([], ''unknown'')
       sample_stream (received (good_bytes conn_reads) sample_reads) (rd_idle (co_reader c'))
       ((prev, co_client_id c'), List.map_filter conn_told os) n)"
proof -
  let ?c = "fst (Connection_step sample_env (Connection_create 1) (CoStart True True))"
  let ?d = "fst (run (Connection_step sample_env) ?c sample_reads)"
  have 1: "allowed Connection_ok (Connection_step sample_env) ?c sample_reads" by code_simp
  have 2: "list_all started_event sample_reads" by simp
  have 3: "list_all wf_packet sample_stream" by (simp add: createPacket_string_def wf_createPacket)
  have 4: "prefix (received (good_bytes conn_reads) sample_reads) (wire (serialize BigEndian 7 8) sample_stream)"
    by (simp add: good_bytes_def serialize_wire createPacket_string_def createPacket_def)
  have "rd_wait (co_reader ?d) = Some RdHeader" "rd_header_bytes (co_reader ?d) = 0" "rd_state (co_reader ?d) = HEADER"
    "length (rd_buffer (co_reader ?d)) = 12" by code_simp+
  then have "rd_idle (co_reader ?d)" by (simp only: rd_idle_def rd_inv_def) simp
  with connection_refines_spec_in_any_run [OF refl 1 2 3 4 refl refl] show ?thesis unfolding Let_def by blast
qed

end
