(* ===== verification/AsioRequests.thy ===== *)
theory AsioRequests
  imports Prelude
begin

text \<open>
  Pending requests of the Boost.Asio programs: \<open>pendingRequests_\<close> of \<open>TcpServer\<close> and
  \<open>pending_requests_\<close> of \<open>TcpClient\<close>, both a \<open>std::map\<close> from sequence numbers to records with an
  expiry time. The two classes search it for expired requests, and erase them, in the same way;
  the record is a parameter of this theory, given by its expiry time.

  The specification is a map of outstanding requests. Every request leaves it once, by an
  answer, by being cancelled or by timing out, and a sweep takes out exactly the requests that
  have expired, in ascending order of their numbers.
\<close>

section \<open>The table\<close>

text \<open>The loop over the map that collects the numbers of expired requests.\<close>

definition expired_sequences :: "('r \<Rightarrow> time) \<Rightarrow> time \<Rightarrow> (u32, 'r) omap \<Rightarrow> u32 list" where
  "expired_sequences expiry now m = map fst (filter (\<lambda>(sequence, request). now \<ge> expiry request) m)"

text \<open>The loop that erases them.\<close>

definition erase_sequences :: "u32 list \<Rightarrow> (u32, 'r) omap \<Rightarrow> (u32, 'r) omap" where
  "erase_sequences ss m = fold AList.delete ss m"

lemma set_expired:
  assumes "omap_inv m"
  shows "set (expired_sequences expiry now m) = {s. \<exists>r. map_of m s = Some r \<and> expiry r \<le> now}"
  using omap_inv_distinct [OF assms] by (force simp: expired_sequences_def map_of_eq_Some_iff)

lemma sorted_expired: "omap_inv m \<Longrightarrow> sorted_wrt (<) (expired_sequences expiry now m)"
  unfolding omap_inv_def expired_sequences_def by (induction m) (auto simp: sorted_wrt_map)

lemma expired_sorted_list:
  assumes "omap_inv m"
  shows "expired_sequences expiry now m = sorted_list_of_set {s. \<exists>r. map_of m s = Some r \<and> expiry r \<le> now}"
proof -
  have "sorted (expired_sequences expiry now m)" "distinct (expired_sequences expiry now m)"
    using sorted_expired [OF assms, of expiry now] strict_sorted_iff by blast+
  then show ?thesis
    unfolding set_expired [OF assms, symmetric] by (simp add: sorted_list_of_set.idem_if_sorted_distinct)
qed

lemma erase_expired:
  assumes "omap_inv m"
  shows "omap_inv (erase_sequences (expired_sequences expiry now m) m)"
    and "map_of (erase_sequences (expired_sequences expiry now m) m) =
      (\<lambda>s. case map_of m s of None \<Rightarrow> None | Some r \<Rightarrow> if expiry r \<le> now then None else Some r)"
  unfolding erase_sequences_def using assms
  by (auto simp: omap.inv_fold_del omap.look_fold_del set_expired restrict_map_def fun_eq_iff split: option.splits)

section \<open>The specification\<close>

datatype 'r request_event =
    RqSend u32 'r
  | RqAnswer u32
  | RqCancel u32
  | RqSweep time
  | RqOther

datatype 'r request_out = RqAnswered u32 'r | RqTimedOut u32

fun request_spec :: "('r \<Rightarrow> time) \<Rightarrow> (u32 \<rightharpoonup> 'r) \<Rightarrow> 'r request_event \<Rightarrow> (u32 \<rightharpoonup> 'r) \<times> 'r request_out list" where
  "request_spec expiry m (RqSend s r) = (m(s \<mapsto> r), [])"
| "request_spec expiry m (RqAnswer s) =
     (m(s := None), case m s of None \<Rightarrow> [] | Some r \<Rightarrow> [RqAnswered s r])"
| "request_spec expiry m (RqCancel s) = (m(s := None), [])"
| "request_spec expiry m (RqSweep now) =
     ((\<lambda>s. case m s of None \<Rightarrow> None | Some r \<Rightarrow> if expiry r \<le> now then None else Some r),
      map RqTimedOut (sorted_list_of_set {s. \<exists>r. m s = Some r \<and> expiry r \<le> now}))"
| "request_spec expiry m RqOther = (m, [])"

definition requests_rel :: "(u32, 'r) omap \<Rightarrow> (u32 \<rightharpoonup> 'r) \<Rightarrow> bool" where
  "requests_rel t m \<longleftrightarrow> omap_inv t \<and> map_of t = m"

lemma requests_rel_empty: "requests_rel [] Map.empty"
  by (simp add: requests_rel_def omap_inv_def)

lemma requests_rel_put: "requests_rel t m \<Longrightarrow> requests_rel (omap_put s r t) (m(s \<mapsto> r))"
  by (simp add: requests_rel_def omap.inv_put omap.look_put)

lemma requests_rel_delete: "requests_rel t m \<Longrightarrow> requests_rel (AList.delete s t) (m(s := None))"
  by (simp add: requests_rel_def omap.inv_del omap.look_del)

lemma requests_rel_sweep:
  assumes "requests_rel t m"
  shows "requests_rel (erase_sequences (expired_sequences expiry now t) t) (fst (request_spec expiry m (RqSweep now)))"
    and "map RqTimedOut (expired_sequences expiry now t) = snd (request_spec expiry m (RqSweep now))"
  using assms erase_expired [of t expiry now] expired_sorted_list [of t expiry now]
  by (auto simp: requests_rel_def)

text \<open>
  A request has one fate: after it has been answered, cancelled or timed out, a second answer
  finds nothing.
\<close>

lemma request_spec_answer_once:
  "snd (request_spec expiry (fst (request_spec expiry m (RqAnswer s))) (RqAnswer s)) = []"
  "snd (request_spec expiry (fst (request_spec expiry m (RqCancel s))) (RqAnswer s)) = []"
  by simp_all

end
