(* ===== verification/AsioClient.thy ===== *)
theory AsioClient
  imports AsioTransport AsioRequests
begin

text \<open>
  \<open>TcpClient\<close> of \<open>claude/asio_client.cpp\<close>: connecting and reconnecting, requests with responses and
  timeouts, and the same reader and write queue as the server's connections.

  The closures posted to the strand are values of \<open>tcp_post\<close>; the operations outstanding at
  Boost.Asio are counted in the state: setting a timer again leaves the completion of the wait it
  cancels outstanding. User callbacks are recorded as effects; a response callback
  is named by a number.
\<close>

section \<open>State, effects and events\<close>

record client_request =
  cr_expiryTime :: time
  cr_callback :: "nat option"

datatype tcp_post = PostConnect | PostPacket bytes | PostStartTimer

record tcp_client =
  tc_client_id :: string
  tc_connected :: bool
  tc_reconnect_enabled :: bool
  tc_next_sequence :: u32
  tc_packet_callback :: bool
  tc_status_callback :: bool
  tc_timeout_callback :: bool
  tc_reader :: packet_reader
  tc_writer :: write_queue
  tc_pending :: "(u32, client_request) omap"
  \<comment> \<open>held by Boost.Asio: posted closures, how many operations of each kind are outstanding,
    whether the socket is open\<close>
  tc_posted :: "tcp_post list"
  tc_resolving :: nat
  tc_connecting :: nat
  tc_timer :: nat
  tc_reconnect_timer :: nat
  tc_open :: bool

datatype tcp_effect =
    TcPost tcp_post
  | TcResolve
  | TcAsyncConnect
  | TcSocketClose
  | TcStartRead nat
  | TcStartWrite bytes
  | TcTimerCancel
  | TcTimerWait
  | TcReconnectCancel
  | TcReconnectWait
  | TcCallStatus bool
  | TcCallPacket packet
  | TcCallResponse nat packet
  | TcCallTimeout u32

type_synonym tcp_client_proc = "(tcp_client, tcp_effect) proc"

record tcp_env =
  te_host :: endian
  te_pad1 :: u8
  te_pad2 :: u8

definition TcpClient_new :: "string \<Rightarrow> tcp_client" where
  "TcpClient_new clientId = \<lparr>tc_client_id = clientId, tc_connected = False, tc_reconnect_enabled = False,
     tc_next_sequence = 1, tc_packet_callback = False, tc_status_callback = False, tc_timeout_callback = False,
     tc_reader = rd_new, tc_writer = wq_new, tc_pending = [], tc_posted = [], tc_resolving = 0,
     tc_connecting = 0, tc_timer = 0, tc_reconnect_timer = 0, tc_open = False\<rparr>"

definition TcpClient_setPacketCallback :: "bool \<Rightarrow> tcp_client \<Rightarrow> tcp_client" where
  "TcpClient_setPacketCallback cb c = c\<lparr>tc_packet_callback := cb\<rparr>"

definition TcpClient_setConnectionStatusCallback :: "bool \<Rightarrow> tcp_client \<Rightarrow> tcp_client" where
  "TcpClient_setConnectionStatusCallback cb c = c\<lparr>tc_status_callback := cb\<rparr>"

definition TcpClient_setTimeoutCallback :: "bool \<Rightarrow> tcp_client \<Rightarrow> tcp_client" where
  "TcpClient_setTimeoutCallback cb c = c\<lparr>tc_timeout_callback := cb\<rparr>"

definition TcpClient_getClientId :: "tcp_client \<Rightarrow> string" where
  "TcpClient_getClientId c = tc_client_id c"

definition TcpClient_setAutoReconnect :: "bool \<Rightarrow> tcp_client \<Rightarrow> tcp_client" where
  "TcpClient_setAutoReconnect enabled c = c\<lparr>tc_reconnect_enabled := enabled\<rparr>"

definition TcpClient_isConnected :: "tcp_client \<Rightarrow> bool" where
  "TcpClient_isConnected c = tc_connected c"

definition TcpClient_getNextSequence :: "tcp_client \<Rightarrow> u32 \<times> tcp_client" where
  "TcpClient_getNextSequence c = (tc_next_sequence c, c\<lparr>tc_next_sequence := tc_next_sequence c + 1\<rparr>)"

section \<open>Sending\<close>

definition TcpClient_post :: "tcp_post \<Rightarrow> tcp_client_proc" where
  "TcpClient_post p = seqs [modify (\<lambda>c. c\<lparr>tc_posted := tc_posted c @ [p]\<rparr>), emit (TcPost p)]"

definition TcpClient_sendPacket :: "tcp_env \<Rightarrow> packet \<Rightarrow> tcp_client \<Rightarrow> bool \<times> tcp_client \<times> tcp_effect list" where
  "TcpClient_sendPacket e packet c =
     (if \<not> tc_connected c then (False, c, [])
      else (True, TcpClient_post (PostPacket (serialize (te_host e) (te_pad1 e) (te_pad2 e) packet)) c))"

definition TcpClient_startTimeoutTimer :: tcp_client_proc where
  "TcpClient_startTimeoutTimer = TcpClient_post PostStartTimer"

definition TcpClient_sendRequest ::
  "tcp_env \<Rightarrow> string \<Rightarrow> time \<Rightarrow> nat option \<Rightarrow> time \<Rightarrow> tcp_client \<Rightarrow> u32 \<times> tcp_client \<times> tcp_effect list" where
  "TcpClient_sendRequest e data timeout responseCallback now c =
     (if \<not> tc_connected c then (0, c, [])
      else (let (sq, c1) = TcpClient_getNextSequence c;
                packet = createPacket_string REQUEST 0 sq data;
                (sent, c2, os) = TcpClient_sendPacket e packet c1
            in if \<not> sent then (0, c2, os)
               else (let request = \<lparr>cr_expiryTime = now + timeout, cr_callback = responseCallback\<rparr>;
                         (c3, os') = seqs
                           [modify (\<lambda>c. c\<lparr>tc_pending := omap_put sq request (tc_pending c)\<rparr>),
                            TcpClient_startTimeoutTimer] c2
                     in (sq, c3, os @ os'))))"

definition TcpClient_cancelRequest :: "u32 \<Rightarrow> tcp_client \<Rightarrow> bool \<times> tcp_client" where
  "TcpClient_cancelRequest sq c = (map_of (tc_pending c) sq \<noteq> None, c\<lparr>tc_pending := AList.delete sq (tc_pending c)\<rparr>)"

text \<open>
  \<open>sendRequestSync\<close> blocks its thread in \<open>wait_for\<close>. What the io thread does meanwhile is given by
  \<open>wait\<close>: the packet that the promise was given, or \<open>None\<close> if the wait has timed out, the state and
  the effects. The result is the packet or the message of the exception; \<open>cb\<close> names the closure that
  fulfils the promise.
\<close>

definition TcpClient_sendRequestSync ::
  "tcp_env \<Rightarrow> string \<Rightarrow> time \<Rightarrow> nat \<Rightarrow> time \<Rightarrow> (tcp_client \<Rightarrow> packet option \<times> tcp_client \<times> tcp_effect list) \<Rightarrow> tcp_client \<Rightarrow>
     (string + packet) \<times> tcp_client \<times> tcp_effect list" where
  "TcpClient_sendRequestSync e data timeout cb now wait c =
     (let (sq, c1, os) = TcpClient_sendRequest e data timeout (Some cb) now c in
      if sq = 0 then (Inl ''Failed to send request: not connected'', c1, os)
      else (let (answer, c2, os') = wait c1 in
            case answer of
              None \<Rightarrow> (Inl ''Request timed out'', snd (TcpClient_cancelRequest sq c2), os @ os')
            | Some packet \<Rightarrow> (Inr packet, c2, os @ os')))"

definition TcpClient_sendBindPacket :: "tcp_env \<Rightarrow> tcp_client_proc" where
  "TcpClient_sendBindPacket e c =
     (let (sq, c1) = TcpClient_getNextSequence c;
          packet = createPacket_string BIND 0 sq (tc_client_id c)
      in snd (TcpClient_sendPacket e packet c1))"

section \<open>Connecting and disconnecting\<close>

definition TcpClient_close :: tcp_client_proc where
  "TcpClient_close c = if_do (tc_open c) (seqs [modify (\<lambda>c. c\<lparr>tc_open := False\<rparr>), emit TcSocketClose]) c"

definition TcpClient_notifyConnectionStatus :: "bool \<Rightarrow> tcp_client_proc" where
  "TcpClient_notifyConnectionStatus connected c = if_do (tc_status_callback c) (emit (TcCallStatus connected)) c"

definition TcpClient_connect :: tcp_client_proc where
  "TcpClient_connect = TcpClient_post PostConnect"

definition TcpClient_scheduleReconnect :: tcp_client_proc where
  "TcpClient_scheduleReconnect c =
     if_do (tc_reconnect_enabled c)
       (seqs [modify (\<lambda>c. c\<lparr>tc_reconnect_timer := tc_reconnect_timer c + 1\<rparr>), emit TcReconnectWait]) c"

definition TcpClient_handleDisconnect :: tcp_client_proc where
  "TcpClient_handleDisconnect c =
     if_do (tc_connected c)
       (seqs [modify (\<lambda>c. c\<lparr>tc_connected := False\<rparr>),
              TcpClient_notifyConnectionStatus False,
              modify (\<lambda>c. c\<lparr>tc_pending := []\<rparr>),
              TcpClient_scheduleReconnect]) c"

definition TcpClient_onReconnectTimer :: "error_code \<Rightarrow> tcp_client_proc" where
  "TcpClient_onReconnectTimer ec c =
     seqs [modify (\<lambda>c. c\<lparr>tc_reconnect_timer := tc_reconnect_timer c - 1\<rparr>),
           if_do (ec = None \<and> tc_reconnect_enabled c) TcpClient_connect] c"

text \<open>The closure of \<open>connect\<close>, and the handlers of the resolution and of the connection.\<close>

definition TcpClient_runConnect :: tcp_client_proc where
  "TcpClient_runConnect =
     seqs [TcpClient_close,
           modify (\<lambda>c. c\<lparr>tc_connected := False,
                         tc_reader := (tc_reader c)\<lparr>rd_state := HEADER, rd_header_bytes := 0, rd_payload_bytes := 0\<rparr>,
                         tc_resolving := tc_resolving c + 1\<rparr>),
           emit TcResolve]"

definition TcpClient_onResolve :: "error_code \<Rightarrow> tcp_client_proc" where
  "TcpClient_onResolve ec =
     seqs [modify (\<lambda>c. c\<lparr>tc_resolving := tc_resolving c - 1\<rparr>),
           if ec = None
           then seqs [modify (\<lambda>c. c\<lparr>tc_connecting := tc_connecting c + 1, tc_open := True\<rparr>), emit TcAsyncConnect]
           else TcpClient_scheduleReconnect]"

definition TcpClient_startReading :: tcp_client_proc where
  "TcpClient_startReading c = (case rd_want (tc_reader c) of None \<Rightarrow> skip c | Some n \<Rightarrow> emit (TcStartRead n) c)"

definition TcpClient_readHeader :: tcp_client_proc where
  "TcpClient_readHeader =
     seqs [modify (\<lambda>c. c\<lparr>tc_reader := rd_readHeader (tc_reader c)\<rparr>), TcpClient_startReading]"

definition TcpClient_onConnect :: "tcp_env \<Rightarrow> error_code \<Rightarrow> tcp_client_proc" where
  "TcpClient_onConnect e ec =
     seqs [modify (\<lambda>c. c\<lparr>tc_connecting := tc_connecting c - 1\<rparr>),
           if ec = None
           then seqs [modify (\<lambda>c. c\<lparr>tc_connected := True\<rparr>),
                      TcpClient_notifyConnectionStatus True,
                      TcpClient_readHeader,
                      TcpClient_sendBindPacket e]
           else TcpClient_scheduleReconnect]"

definition TcpClient_start :: tcp_client_proc where
  "TcpClient_start = TcpClient_connect"

definition TcpClient_stop :: tcp_client_proc where
  "TcpClient_stop =
     seqs [modify (\<lambda>c. c\<lparr>tc_reconnect_enabled := False\<rparr>), emit TcTimerCancel, emit TcReconnectCancel, TcpClient_close]"

text \<open>The destructor.\<close>

definition TcpClient_destroy :: tcp_client_proc where
  "TcpClient_destroy = TcpClient_stop"

section \<open>Receiving\<close>

definition TcpClient_processPacket :: "packet \<Rightarrow> tcp_client_proc" where
  "TcpClient_processPacket packet =
     seqs [(\<lambda>c. if ph_packetId (pk_header packet) = RESPONSE
                then (case map_of (tc_pending c) (ph_sequence (pk_header packet)) of
                        None \<Rightarrow> skip c
                      | Some request \<Rightarrow>
                          seqs [modify (\<lambda>c. c\<lparr>tc_pending := AList.delete (ph_sequence (pk_header packet)) (tc_pending c)\<rparr>),
                                case cr_callback request of None \<Rightarrow> skip | Some cb \<Rightarrow> emit (TcCallResponse cb packet)] c)
                else skip c),
           (\<lambda>c. if_do (tc_packet_callback c) (emit (TcCallPacket packet)) c)]"

fun TcpClient_afterRead :: "read_outcome \<Rightarrow> tcp_client_proc" where
  "TcpClient_afterRead RoWait c = TcpClient_startReading c"
| "TcpClient_afterRead (RoInvalid len) c = TcpClient_close c"
| "TcpClient_afterRead (RoPacket packet) c =
     seqs [TcpClient_processPacket packet,
           modify (\<lambda>c. c\<lparr>tc_reader := rd_next (tc_reader c)\<rparr>),
           TcpClient_startReading] c"

definition TcpClient_readError :: "error_code \<Rightarrow> tcp_client_proc" where
  "TcpClient_readError ec =
     seqs [modify (\<lambda>c. c\<lparr>tc_reader := (tc_reader c)\<lparr>rd_wait := None\<rparr>\<rparr>),
           if_do (ec \<noteq> Some operation_aborted) TcpClient_handleDisconnect]"

definition TcpClient_onHeader :: "tcp_env \<Rightarrow> error_code \<Rightarrow> bytes \<Rightarrow> tcp_client_proc" where
  "TcpClient_onHeader e ec d c =
     (if ec = None
      then (let (r, out) = rd_onHeader (te_host e) d (tc_reader c) in
            seqs [modify (\<lambda>c. c\<lparr>tc_reader := r\<rparr>), TcpClient_afterRead out] c)
      else TcpClient_readError ec c)"

definition TcpClient_onPayload :: "error_code \<Rightarrow> bytes \<Rightarrow> tcp_client_proc" where
  "TcpClient_onPayload ec d c =
     (if ec = None
      then (let (r, out) = rd_onPayload d (tc_reader c) in
            seqs [modify (\<lambda>c. c\<lparr>tc_reader := r\<rparr>), TcpClient_afterRead out] c)
      else TcpClient_readError ec c)"

definition TcpClient_onWrite :: "error_code \<Rightarrow> nat \<Rightarrow> tcp_client_proc" where
  "TcpClient_onWrite ec n c =
     (let (w, started) = wq_onWrite ec n (tc_writer c) in
      seqs [modify (\<lambda>c. c\<lparr>tc_writer := w\<rparr>),
            seqs (map (\<lambda>b. emit (TcStartWrite b)) started),
            if_do (ec \<noteq> None \<and> ec \<noteq> Some operation_aborted) TcpClient_handleDisconnect] c)"

section \<open>Timeouts\<close>

definition TcpClient_runStartTimer :: tcp_client_proc where
  "TcpClient_runStartTimer c =
     if_do (tc_pending c \<noteq> [])
       (seqs [emit TcTimerCancel, modify (\<lambda>c. c\<lparr>tc_timer := tc_timer c + 1\<rparr>), emit TcTimerWait]) c"

definition TcpClient_checkTimeouts :: "time \<Rightarrow> tcp_client_proc" where
  "TcpClient_checkTimeouts now c =
     (let expired = expired_sequences cr_expiryTime now (tc_pending c) in
      seqs [modify (\<lambda>c. c\<lparr>tc_pending := erase_sequences expired (tc_pending c)\<rparr>),
            (\<lambda>c. if_do (expired \<noteq> [] \<and> tc_timeout_callback c) (seqs (map (\<lambda>s. emit (TcCallTimeout s)) expired)) c),
            (\<lambda>c. if_do (tc_pending c \<noteq> []) (seqs [modify (\<lambda>c. c\<lparr>tc_timer := tc_timer c + 1\<rparr>), emit TcTimerWait]) c)] c)"

definition TcpClient_onTimer :: "error_code \<Rightarrow> time \<Rightarrow> tcp_client_proc" where
  "TcpClient_onTimer ec now =
     seqs [modify (\<lambda>c. c\<lparr>tc_timer := tc_timer c - 1\<rparr>), if_do (ec = None) (TcpClient_checkTimeouts now)]"

section \<open>Events\<close>

fun TcpClient_run :: "tcp_post \<Rightarrow> tcp_client_proc" where
  "TcpClient_run PostConnect c = TcpClient_runConnect c"
| "TcpClient_run (PostPacket serialized) c =
     (let (w, started) = wq_enqueue serialized (tc_writer c) in
      seqs [modify (\<lambda>c. c\<lparr>tc_writer := w\<rparr>), seqs (map (\<lambda>b. emit (TcStartWrite b)) started)] c)"
| "TcpClient_run PostStartTimer c = TcpClient_runStartTimer c"

datatype tcp_event =
    TcStart
  | TcStop
  | TcSetAutoReconnect bool
  | TcSendPacket packet
  | TcSendRequest string time "nat option" time
  | TcCancelRequest u32
  | TcRunPosted
  | TcResolved error_code
  | TcConnected error_code
  | TcHeaderRead error_code bytes
  | TcPayloadRead error_code bytes
  | TcWriteDone error_code nat
  | TcTimerFired error_code time
  | TcReconnectFired error_code

fun TcpClient_step :: "tcp_env \<Rightarrow> tcp_client \<Rightarrow> tcp_event \<Rightarrow> tcp_client \<times> tcp_effect list" where
  "TcpClient_step e c TcStart = TcpClient_start c"
| "TcpClient_step e c TcStop = TcpClient_stop c"
| "TcpClient_step e c (TcSetAutoReconnect b) = (TcpClient_setAutoReconnect b c, [])"
| "TcpClient_step e c (TcSendPacket p) = snd (TcpClient_sendPacket e p c)"
| "TcpClient_step e c (TcSendRequest data t cb now) = snd (TcpClient_sendRequest e data t cb now c)"
| "TcpClient_step e c (TcCancelRequest sq) = (snd (TcpClient_cancelRequest sq c), [])"
| "TcpClient_step e c TcRunPosted =
     (case tc_posted c of
        [] \<Rightarrow> (c, [])
      | p # rest \<Rightarrow> seqs [modify (\<lambda>c. c\<lparr>tc_posted := rest\<rparr>), TcpClient_run p] c)"
| "TcpClient_step e c (TcResolved ec) = TcpClient_onResolve ec c"
| "TcpClient_step e c (TcConnected ec) = TcpClient_onConnect e ec c"
| "TcpClient_step e c (TcHeaderRead ec d) = TcpClient_onHeader e ec d c"
| "TcpClient_step e c (TcPayloadRead ec d) = TcpClient_onPayload ec d c"
| "TcpClient_step e c (TcWriteDone ec n) = TcpClient_onWrite ec n c"
| "TcpClient_step e c (TcTimerFired ec now) = TcpClient_onTimer ec now c"
| "TcpClient_step e c (TcReconnectFired ec) = TcpClient_onReconnectTimer ec c"

text \<open>
  Operations complete only if they were started, as Boost.Asio documents. Closing the socket queues
  the completions of its outstanding reads and writes in the strand, ahead of that of the next
  connection.
\<close>

fun TcpClient_ok :: "tcp_client \<Rightarrow> tcp_event \<Rightarrow> bool" where
  "TcpClient_ok c TcRunPosted = (tc_posted c \<noteq> [])"
| "TcpClient_ok c (TcResolved ec) = (0 < tc_resolving c)"
| "TcpClient_ok c (TcConnected ec) =
     (0 < tc_connecting c \<and> rd_wait (tc_reader c) = None \<and> wq_writing (tc_writer c) = None)"
| "TcpClient_ok c (TcHeaderRead ec d) =
     (rd_wait (tc_reader c) = Some RdHeader \<and> (ec = None \<longrightarrow> rd_want (tc_reader c) = Some (length d)))"
| "TcpClient_ok c (TcPayloadRead ec d) =
     ((case rd_wait (tc_reader c) of Some (RdBody n) \<Rightarrow> True | _ \<Rightarrow> False) \<and> (ec = None \<longrightarrow> rd_want (tc_reader c) = Some (length d)))"
| "TcpClient_ok c (TcWriteDone ec n) = wq_ok (tc_writer c) (WqDone ec n)"
| "TcpClient_ok c (TcTimerFired ec now) = (0 < tc_timer c)"
| "TcpClient_ok c (TcReconnectFired ec) = (0 < tc_reconnect_timer c)"
| "TcpClient_ok c _ = True"

section \<open>The write queue survives a reconnection\<close>

text \<open>Statements that leave the write queue alone and start no write.\<close>

definition off_writer :: "tcp_client \<times> tcp_effect list \<Rightarrow> tcp_client \<Rightarrow> bool" where
  "off_writer r c \<longleftrightarrow> tc_writer (fst r) = tc_writer c \<and> (\<forall>b. TcStartWrite b \<notin> set (snd r))"

lemmas TcpClient_connect_defs = TcpClient_close_def TcpClient_notifyConnectionStatus_def TcpClient_connect_def
  TcpClient_scheduleReconnect_def TcpClient_handleDisconnect_def TcpClient_onReconnectTimer_def
  TcpClient_runConnect_def TcpClient_onResolve_def TcpClient_startReading_def TcpClient_readHeader_def
  TcpClient_start_def TcpClient_stop_def TcpClient_post_def

lemma off_writer_disconnect: "off_writer (TcpClient_handleDisconnect c) c"
  by (auto simp: off_writer_def TcpClient_connect_defs)

lemma off_writer_processPacket:
  "tc_writer (fst (TcpClient_processPacket p c)) = tc_writer c"
  "TcStartWrite b \<notin> set (snd (TcpClient_processPacket p c))"
  by (auto simp: TcpClient_processPacket_def split: option.split)

lemma off_writer_afterRead: "off_writer (TcpClient_afterRead out c) c"
  by (cases out) (auto simp: off_writer_def TcpClient_connect_defs off_writer_processPacket split: option.split)

lemma off_writer_readError: "off_writer (TcpClient_readError ec c) c"
  using off_writer_disconnect [of "c\<lparr>tc_reader := (tc_reader c)\<lparr>rd_wait := None\<rparr>\<rparr>"]
  by (auto simp: off_writer_def TcpClient_readError_def)

lemma off_writer_sendPacket: "off_writer (snd (TcpClient_sendPacket e p c)) c"
  by (auto simp: off_writer_def TcpClient_sendPacket_def TcpClient_post_def)

lemma off_writer_step:
  assumes "\<And>m rest. ev = TcRunPosted \<Longrightarrow> tc_posted c \<noteq> PostPacket m # rest" and "\<And>ec n. ev \<noteq> TcWriteDone ec n"
  shows "off_writer (TcpClient_step e c ev) c"
proof (cases ev)
  case (TcSendRequest data t cb now)
  then show ?thesis
    by (auto simp: off_writer_def TcpClient_sendRequest_def TcpClient_sendPacket_def TcpClient_getNextSequence_def
        TcpClient_startTimeoutTimer_def TcpClient_post_def Let_def case_prod_beta)
next
  case TcRunPosted
  show ?thesis
  proof (cases "tc_posted c")
    case Nil
    with TcRunPosted show ?thesis by (simp add: off_writer_def)
  next
    case (Cons p rest)
    with TcRunPosted assms(1) show ?thesis
      by (cases p) (auto simp: off_writer_def TcpClient_connect_defs TcpClient_runStartTimer_def)
  qed
next
  case (TcConnected ec)
  then show ?thesis
    by (auto simp: off_writer_def TcpClient_onConnect_def TcpClient_connect_defs TcpClient_sendBindPacket_def
        TcpClient_sendPacket_def TcpClient_getNextSequence_def Let_def split: option.split)
next
  case (TcHeaderRead ec d)
  with off_writer_readError [of ec c] show ?thesis
    using off_writer_afterRead [of "snd (rd_onHeader (te_host e) d (tc_reader c))"
        "c\<lparr>tc_reader := fst (rd_onHeader (te_host e) d (tc_reader c))\<rparr>"]
    by (auto simp: off_writer_def TcpClient_onHeader_def case_prod_beta)
next
  case (TcPayloadRead ec d)
  with off_writer_readError [of ec c] show ?thesis
    using off_writer_afterRead [of "snd (rd_onPayload d (tc_reader c))" "c\<lparr>tc_reader := fst (rd_onPayload d (tc_reader c))\<rparr>"]
    by (auto simp: off_writer_def TcpClient_onPayload_def case_prod_beta)
next
  case (TcTimerFired ec now)
  then show ?thesis by (auto simp: off_writer_def TcpClient_onTimer_def TcpClient_checkTimeouts_def Let_def)
next
  case (TcSendPacket p)
  then show ?thesis by (simp add: off_writer_sendPacket)
qed (use assms(2) in \<open>auto simp: off_writer_def TcpClient_connect_defs TcpClient_setAutoReconnect_def
    TcpClient_cancelRequest_def\<close>)

lemma stuck_step:
  assumes stuck: "wq_stuck (tc_writer c)" and ok: "TcpClient_ok c ev"
  shows "wq_stuck (tc_writer (fst (TcpClient_step e c ev))) \<and> TcStartWrite b \<notin> set (snd (TcpClient_step e c ev))"
proof -
  consider m rest where "ev = TcRunPosted" "tc_posted c = PostPacket m # rest"
    | ec n where "ev = TcWriteDone ec n"
    | "\<And>m rest. ev = TcRunPosted \<Longrightarrow> tc_posted c \<noteq> PostPacket m # rest" "\<And>ec n. ev \<noteq> TcWriteDone ec n"
    by blast
  then show ?thesis
  proof cases
    case (1 m rest)
    with wq_stuck_enqueue [OF stuck, of m] show ?thesis by (simp add: case_prod_beta)
  next
    case (2 ec n)
    with stuck ok show ?thesis by (simp add: wq_stuck_def)
  next
    case 3
    with off_writer_step [OF 3, of e] stuck show ?thesis by (simp add: off_writer_def)
  qed
qed

interpretation tcp_stuck: machine "TcpClient_step e" TcpClient_ok "\<lambda>c. wq_stuck (tc_writer c)" for e
  by unfold_locales (use stuck_step in blast)

text \<open>The queue against all runs, for the invariant that a write in progress has a message.\<close>

definition tcp_wq_inv :: "tcp_client \<Rightarrow> bool" where
  "tcp_wq_inv c \<longleftrightarrow> (\<exists>ms. wq_inv (tc_writer c) ms)"

interpretation tcp_wq: machine "TcpClient_step e" TcpClient_ok tcp_wq_inv for e
proof
  fix c ev
  assume inv: "tcp_wq_inv c" and ok: "TcpClient_ok c ev"
  consider m rest where "ev = TcRunPosted" "tc_posted c = PostPacket m # rest"
    | ec n where "ev = TcWriteDone ec n"
    | "\<And>m rest. ev = TcRunPosted \<Longrightarrow> tc_posted c \<noteq> PostPacket m # rest" "\<And>ec n. ev \<noteq> TcWriteDone ec n"
    by blast
  then show "tcp_wq_inv (fst (TcpClient_step e c ev))"
  proof cases
    case (1 m rest)
    with inv wq_inv_enqueue show ?thesis by (auto simp: tcp_wq_inv_def case_prod_beta)
  next
    case (2 ec n)
    have "tc_writer (fst (TcpClient_onWrite ec n c)) = fst (wq_onWrite ec n (tc_writer c))"
      using off_writer_disconnect [of "c\<lparr>tc_writer := fst (wq_onWrite ec n (tc_writer c))\<rparr>"]
      by (simp add: TcpClient_onWrite_def case_prod_beta off_writer_def)
    moreover from 2 ok have "wq_ok (tc_writer c) (WqDone ec n)" by simp
    with inv wq_inv_onWrite have "\<exists>ms. wq_inv (fst (wq_onWrite ec n (tc_writer c))) ms"
      unfolding tcp_wq_inv_def by blast
    ultimately show ?thesis using 2 by (simp add: tcp_wq_inv_def)
  next
    case 3
    with off_writer_step [OF 3, of e] inv show ?thesis by (simp add: off_writer_def tcp_wq_inv_def)
  qed
qed

text \<open>
  Once a write has failed, the client never writes again: its queue keeps the message that
  failed, \<open>connect\<close> does not clear it, and a nonempty queue is taken for a write in progress. In
  every continuation, with any number of successful reconnections, no write is started, not even
  that of the bind request.
\<close>

theorem tcp_client_mute_after_reconnect:
  assumes "allowed TcpClient_ok (TcpClient_step e) (TcpClient_new cid) (evs @ [TcWriteDone (Some err) n] @ evs')"
    and "c = fst (run (TcpClient_step e) (TcpClient_new cid) (evs @ [TcWriteDone (Some err) n]))"
  shows "TcStartWrite b \<notin> set (snd (run (TcpClient_step e) c evs'))"
proof -
  let ?c1 = "fst (run (TcpClient_step e) (TcpClient_new cid) evs)"
  have ok: "allowed TcpClient_ok (TcpClient_step e) (TcpClient_new cid) evs" "TcpClient_ok ?c1 (TcWriteDone (Some err) n)"
    and rest: "allowed TcpClient_ok (TcpClient_step e) (fst (TcpClient_step e ?c1 (TcWriteDone (Some err) n))) evs'"
    using assms(1) by (simp_all add: allowed_append del: TcpClient_step.simps TcpClient_ok.simps)
  have c: "c = fst (TcpClient_step e ?c1 (TcWriteDone (Some err) n))"
    using assms(2) by (simp add: run_append case_prod_beta del: TcpClient_step.simps)
  have "tcp_wq_inv (TcpClient_new cid)"
    unfolding tcp_wq_inv_def by (rule exI [of _ "[]"]) (simp add: TcpClient_new_def wq_inv_new)
  from tcp_wq.run_inv [OF this ok(1)] obtain ms where ms: "wq_inv (tc_writer ?c1) ms"
    by (auto simp: tcp_wq_inv_def)
  from ok(2) obtain w where w: "wq_writing (tc_writer ?c1) = Some w" by (auto split: option.splits)
  have "tc_writer (fst (TcpClient_onWrite (Some err) n ?c1)) = fst (wq_onWrite (Some err) n (tc_writer ?c1))"
    using off_writer_disconnect [of "?c1\<lparr>tc_writer := fst (wq_onWrite (Some err) n (tc_writer ?c1))\<rparr>"]
    by (simp add: TcpClient_onWrite_def case_prod_beta off_writer_def)
  with wq_stuck_error [OF ms w] have stuck: "wq_stuck (tc_writer c)" by (simp add: c)
  show ?thesis
  proof
    assume "TcStartWrite b \<in> set (snd (run (TcpClient_step e) c evs'))"
    with tcp_stuck.run_outputs [of e "\<lambda>x. x \<noteq> TcStartWrite b", OF _ stuck rest [folded c]]
    show False using stuck_step by blast
  qed
qed

text \<open>The environment and the events of a client that connects and sends its bind request.\<close>

abbreviation sample_tcp_env :: tcp_env where
  "sample_tcp_env \<equiv> \<lparr>te_host = LittleEndian, te_pad1 = 0, te_pad2 = 0\<rparr>"

abbreviation connect_events :: "tcp_event list" where
  "connect_events \<equiv> [TcRunPosted, TcResolved None, TcConnected None, TcRunPosted]"

theorem tcp_client_mute_after_reconnect_witness:
  "let e = sample_tcp_env; evs = [TcSetAutoReconnect True, TcStart] @ connect_events;
       evs' = [TcReconnectFired None, TcRunPosted, TcHeaderRead (Some operation_aborted) [],
               TcResolved None, TcConnected None, TcRunPosted];
       c = fst (run (TcpClient_step e) (TcpClient_new ''c'') (evs @ [TcWriteDone (Some (other_error 1)) 0]));
       c' = fst (run (TcpClient_step e) c evs')
   in tc_connected c' \<and> tc_posted c' = [] \<and> TcStartWrite (hd (wq_queue (tc_writer c'))) \<notin> set (snd (run (TcpClient_step e) c evs'))"
proof -
  let ?e = sample_tcp_env and ?evs = "[TcSetAutoReconnect True, TcStart] @ connect_events"
  let ?evs' = "[TcReconnectFired None, TcRunPosted, TcHeaderRead (Some operation_aborted) [],
    TcResolved None, TcConnected None, TcRunPosted]" and ?w = "TcWriteDone (Some (other_error 1)) 0"
  let ?c = "fst (run (TcpClient_step ?e) (TcpClient_new ''c'') (?evs @ [?w]))"
  let ?c' = "fst (run (TcpClient_step ?e) ?c ?evs')"
  have ok: "allowed TcpClient_ok (TcpClient_step ?e) (TcpClient_new ''c'') (?evs @ [?w] @ ?evs')" by code_simp
  have "tc_connected ?c'" "tc_posted ?c' = []" by code_simp+
  then show ?thesis
    using tcp_client_mute_after_reconnect [OF ok refl, of "hd (wq_queue (tc_writer ?c'))"] by (simp only: Let_def simp_thms)
qed

section \<open>Losing a connection\<close>

text \<open>
  When a read or a write fails, the client reports that it is disconnected and forgets all
  its pending requests: no response or timeout callback is ever invoked for them. It schedules a
  reconnection exactly if that is enabled.
\<close>

theorem tcp_client_disconnect_drops_requests:
  assumes "tc_connected c" and "ec \<noteq> None" and "ec \<noteq> Some operation_aborted"
  shows "let (c', os) = TcpClient_step e c (TcHeaderRead ec d) in
    \<not> tc_connected c' \<and> tc_pending c' = [] \<and>
    os = (if tc_status_callback c then [TcCallStatus False] else []) @ (if tc_reconnect_enabled c then [TcReconnectWait] else [])"
  using assms by (auto simp: TcpClient_onHeader_def TcpClient_readError_def TcpClient_connect_defs case_prod_beta)

theorem tcp_client_disconnect_drops_requests_witness:
  "let c = fst (run (TcpClient_step sample_tcp_env) (TcpClient_new ''c'')
             ([TcStart] @ connect_events @ [TcSendRequest ''q'' 50 (Some 3) 0]));
       (c', os) = TcpClient_step sample_tcp_env c (TcHeaderRead (Some (other_error 1)) [])
   in tc_pending c \<noteq> [] \<and> tc_pending c' = [] \<and> os = []"
proof -
  let ?c = "fst (run (TcpClient_step sample_tcp_env) (TcpClient_new ''c'')
             ([TcStart] @ connect_events @ [TcSendRequest ''q'' 50 (Some 3) 0]))"
  have "tc_connected ?c" "\<not> tc_status_callback ?c" "\<not> tc_reconnect_enabled ?c" "tc_pending ?c \<noteq> []" by code_simp+
  then show ?thesis
    using tcp_client_disconnect_drops_requests [of ?c "Some (other_error 1)" sample_tcp_env "[]"]
    by (simp add: Let_def case_prod_beta del: TcpClient_step.simps fst_run_Cons)
qed

text \<open>
  After a header with a length out of bounds the client closes its socket but still takes
  itself for connected: nothing is read any more, no reconnection is scheduled, no status is
  reported, and \<open>sendPacket\<close> goes on to report success.
\<close>

theorem tcp_client_zombie_after_bad_length:
  assumes "rd_idle (tc_reader c)" and "tc_connected c" and "tc_open c" and "length d = 12"
    and "unat (be_val (take 4 d)) < 12 \<or> 16384 < unat (be_val (take 4 d))"
  shows "let (c', os) = TcpClient_step e c (TcHeaderRead None d) in
    os = [TcSocketClose] \<and> \<not> tc_open c' \<and> rd_wait (tc_reader c') = None \<and>
    TcpClient_isConnected c' \<and> fst (TcpClient_sendPacket e p c')"
proof -
  have n: "be_val (take 4 d) = ph_length (toHostByteOrder (te_host e) (header_of_mem (te_host e) d))"
    using assms(4) by (simp add: toHostByteOrder_def header_of_mem_def)
  from rd_onHeader_invalid [OF assms(1,4) n assms(5)] assms(2,3) show ?thesis
    by (simp add: TcpClient_onHeader_def case_prod_beta TcpClient_close_def TcpClient_isConnected_def
        TcpClient_sendPacket_def)
qed

theorem tcp_client_zombie_after_bad_length_witness:
  "let c = fst (run (TcpClient_step sample_tcp_env) (TcpClient_new ''c'') ([TcStart] @ connect_events));
       (c', os) = TcpClient_step sample_tcp_env c (TcHeaderRead None (replicate 12 0))
   in os = [TcSocketClose] \<and> TcpClient_isConnected c'"
proof -
  let ?c = "fst (run (TcpClient_step sample_tcp_env) (TcpClient_new ''c'') ([TcStart] @ connect_events))"
  let ?d = "replicate 12 (0 :: u8)"
  have "tc_reader ?c = rd_readHeader rd_new" by code_simp
  then have "rd_idle (tc_reader ?c)" by (simp only: rd_inv_new)
  moreover have "tc_connected ?c" "tc_open ?c" "length ?d = 12" "unat (be_val (take 4 ?d)) < 12" by code_simp+
  ultimately show ?thesis
    using tcp_client_zombie_after_bad_length [of ?c ?d sample_tcp_env "createPacket 0 0 0 []"]
    by (simp add: Let_def case_prod_beta del: TcpClient_step.simps fst_run_Cons)
qed

section \<open>The client as a receiver of packets\<close>

text \<open>
  The specification: the payload of the last packet and the pending requests. A response invokes
  the callback of its request and takes the request out; every packet reaches the packet callback.
\<close>

fun tcp_receive_spec :: "bool \<Rightarrow> bytes \<times> (u32 \<rightharpoonup> client_request) \<Rightarrow> packet \<Rightarrow> (bytes \<times> (u32 \<rightharpoonup> client_request)) \<times> tcp_effect list" where
  "tcp_receive_spec cb (prev, m) p =
     (let q = seen_packet prev p; sq = ph_sequence (pk_header p) in
      if ph_packetId (pk_header p) = RESPONSE
      then ((pk_payload q, m(sq := None)),
            (case m sq of None \<Rightarrow> [] | Some r \<Rightarrow> (case cr_callback r of None \<Rightarrow> [] | Some f \<Rightarrow> [TcCallResponse f q]))
            @ (if cb then [TcCallPacket q] else []))
      else ((pk_payload q, m), if cb then [TcCallPacket q] else []))"

definition TcpClient_want :: "tcp_client \<Rightarrow> nat option" where
  "TcpClient_want c = rd_want (tc_reader c)"

definition TcpClient_deliver :: "tcp_env \<Rightarrow> tcp_client \<Rightarrow> bytes \<Rightarrow> tcp_client \<times> tcp_effect list" where
  "TcpClient_deliver e c d = (case rd_wait (tc_reader c) of
     Some (RdBody n) \<Rightarrow> TcpClient_step e c (TcPayloadRead None d)
   | _ \<Rightarrow> TcpClient_step e c (TcHeaderRead None d))"

fun tcp_visible :: "tcp_effect \<Rightarrow> tcp_effect option" where
  "tcp_visible (TcStartRead n) = None"
| "tcp_visible x = Some x"

definition tcp_idle :: "bool \<Rightarrow> tcp_client \<Rightarrow> bool" where
  "tcp_idle cb c \<longleftrightarrow> rd_idle (tc_reader c) \<and> tc_packet_callback c = cb \<and> omap_inv (tc_pending c)"

definition tcp_abs :: "tcp_client \<Rightarrow> bytes \<times> (u32 \<rightharpoonup> client_request)" where
  "tcp_abs c = (rd_payload (tc_reader c), map_of (tc_pending c))"

declare List.map_filter_simps [simp]

lemma tcp_visible_startReading [simp]: "List.map_filter tcp_visible (snd (TcpClient_startReading c)) = []"
  by (simp add: TcpClient_startReading_def split: option.split)

lemma TcpClient_startReading_fst [simp]: "fst (TcpClient_startReading c) = c"
  by (simp add: TcpClient_startReading_def split: option.split)

lemma TcpClient_processPacket_fields [simp]:
  "tc_reader (fst (TcpClient_processPacket p c)) = tc_reader c"
  "tc_packet_callback (fst (TcpClient_processPacket p c)) = tc_packet_callback c"
  by (simp_all add: TcpClient_processPacket_def split: option.split)

lemma TcpClient_processPacket_spec:
  assumes "omap_inv (tc_pending c)" and "q = seen_packet prev p"
  shows "omap_inv (tc_pending (fst (TcpClient_processPacket q c)))"
    and "((pk_payload q, map_of (tc_pending (fst (TcpClient_processPacket q c)))),
          List.map_filter tcp_visible (snd (TcpClient_processPacket q c)))
        = tcp_receive_spec (tc_packet_callback c) (prev, map_of (tc_pending c)) p"
  using assms
  by (auto simp: TcpClient_processPacket_def Let_def omap.inv_del omap.look_del fun_upd_idem split: option.split)

lemma TcpClient_afterPacket:
  assumes "length (rd_buffer (tc_reader c)) = 12" and "tc_packet_callback c = cb" and "omap_inv (tc_pending c)"
    and "rd_payload (tc_reader c) = pk_payload q" and "q = seen_packet prev p"
  shows "tcp_idle cb (fst (TcpClient_afterRead (RoPacket q) c))"
    and "(tcp_abs (fst (TcpClient_afterRead (RoPacket q) c)),
          List.map_filter tcp_visible (snd (TcpClient_afterRead (RoPacket q) c)))
        = tcp_receive_spec cb (prev, map_of (tc_pending c)) p"
  using assms TcpClient_processPacket_spec [OF assms(3,5)]
  by (simp_all add: tcp_idle_def rd_next_idle tcp_abs_def del: tcp_receive_spec.simps)

interpretation tcp_reader: packet_host tc_reader "\<lambda>r c. c\<lparr>tc_reader := r\<rparr>" "te_host e" TcpClient_afterRead
    TcpClient_want "TcpClient_deliver e" "tcp_idle cb" tcp_abs tcp_visible "tcp_receive_spec cb"
    for e cb
proof
  fix s :: tcp_client and d r q p s'
  show "rd_wait (tc_reader s) = Some RdHeader \<Longrightarrow> TcpClient_deliver e s d =
      (let (r, out) = rd_onHeader (te_host e) d (tc_reader s) in TcpClient_afterRead out (s\<lparr>tc_reader := r\<rparr>))"
    by (simp add: TcpClient_deliver_def TcpClient_onHeader_def prod_eq_iff case_prod_beta del: TcpClient_afterRead.simps)
  show "rd_wait (tc_reader s) = Some (RdBody n) \<Longrightarrow> TcpClient_deliver e s d =
      (let (r, out) = rd_onPayload d (tc_reader s) in TcpClient_afterRead out (s\<lparr>tc_reader := r\<rparr>))" for n
    by (simp add: TcpClient_deliver_def TcpClient_onPayload_def prod_eq_iff case_prod_beta del: TcpClient_afterRead.simps)
  assume "tcp_idle cb s" and "length (rd_buffer r) = 12" and "rd_payload r = pk_payload q"
    and "q = seen_packet (rd_payload (tc_reader s)) p" and "s' = TcpClient_afterRead (RoPacket q) (s\<lparr>tc_reader := r\<rparr>)"
  then show "tcp_idle cb (fst s') \<and> (tcp_abs (fst s'), List.map_filter tcp_visible (snd s')) = tcp_receive_spec cb (tcp_abs s) p"
    using TcpClient_afterPacket [of "s\<lparr>tc_reader := r\<rparr>" cb q "rd_payload (tc_reader s)" p]
    by (simp add: tcp_idle_def tcp_abs_def del: TcpClient_afterRead.simps tcp_receive_spec.simps)
qed (simp_all add: TcpClient_want_def tcp_idle_def)

text \<open>
  C12: a client that is idle in its reader handles every stream of packets as the specification
  does: each response invokes the callback of its request, at most once, and no other; each packet
  is reported once and in order; exactly the bytes of the packets are taken off the stream. The
  sender may have another byte order and other padding.
\<close>

theorem tcp_client_receives_stream:
  assumes "tcp_idle cb c" and "list_all wf_packet ps"
  shows "\<exists>c' os. feed TcpClient_want (TcpClient_deliver e) (sum_list (map (\<lambda>p. if pk_payload p = [] then 1 else 2) ps)) c
      (wire (serialize h p1 p2) ps @ rest) = (c', os, rest)
    \<and> tcp_idle cb c' \<and> (tcp_abs c', List.map_filter tcp_visible os) = run (tcp_receive_spec cb) (tcp_abs c) ps"
  by (rule tcp_reader.packets.many_frames [OF assms])

theorem tcp_client_receives_stream_witness:
  "let c = fst (run (TcpClient_step sample_tcp_env) (TcpClient_new ''c'')
             ([TcStart] @ connect_events @ [TcSendRequest ''q'' 50 (Some 3) 0]));
       r = createPacket_string RESPONSE 0 2 ''r''
   in \<exists>c' os. feed TcpClient_want (TcpClient_deliver sample_tcp_env) 4 c (wire (serialize BigEndian 7 8) [r, r] @ [9]) = (c', os, [9])
     \<and> tcp_abs c' = (bytes_of ''r'', Map.empty) \<and> List.map_filter tcp_visible os = [TcCallResponse 3 r]"
proof -
  let ?c = "fst (run (TcpClient_step sample_tcp_env) (TcpClient_new ''c'')
             ([TcStart] @ connect_events @ [TcSendRequest ''q'' 50 (Some 3) 0]))"
  let ?r = "createPacket_string RESPONSE 0 2 ''r''"
  have rd: "tc_reader ?c = rd_readHeader rd_new" and cb: "tc_packet_callback ?c = False"
    and pe: "tc_pending ?c = [(2, \<lparr>cr_expiryTime = 50, cr_callback = Some 3\<rparr>)]" by code_simp+
  have idle: "tcp_idle False ?c" unfolding tcp_idle_def rd cb pe by (simp add: rd_inv_new omap_inv_def)
  have abs: "tcp_abs ?c = ([], [2 \<mapsto> \<lparr>cr_expiryTime = 50, cr_callback = Some 3\<rparr>])"
    unfolding tcp_abs_def rd pe by (simp add: rd_readHeader_def rd_new_def)
  have wf: "list_all wf_packet [?r, ?r]" by (simp add: createPacket_string_def wf_createPacket)
  have r: "pk_payload ?r = bytes_of ''r''" "ph_packetId (pk_header ?r) = RESPONSE" "ph_sequence (pk_header ?r) = 2"
    by (simp_all add: createPacket_string_def createPacket_def)
  then have cost: "sum_list (map (\<lambda>p. if pk_payload p = [] then 1 else 2) [?r, ?r]) = (4 :: nat)" by (simp add: bytes_of_def)
  have "bytes_of ''r'' \<noteq> []" by (simp add: bytes_of_def)
  with r have "run (tcp_receive_spec False) (tcp_abs ?c) [?r, ?r] = ((bytes_of ''r'', Map.empty), [TcCallResponse 3 ?r])"
    unfolding abs by (simp add: run.simps(2) Let_def)
  with tcp_client_receives_stream [OF idle wf, of sample_tcp_env BigEndian 7 8 "[9]"]
  show ?thesis unfolding cost Let_def by (simp only: prod.inject) blast
qed

end
