(* ===== verification/AsioNetwork.thy ===== *)
theory AsioNetwork
  imports AsioStream AsioClient
begin

text \<open>
  The Asio client and a connection of the Asio server, joined by TCP: what \<open>TcpClient\<close> of
  \<open>claude/asio_client.cpp\<close> writes is what a \<open>Connection\<close> of \<open>claude/asio_server.cpp\<close> reads, and the
  other way round. Each side runs among its own events; of TCP it is only assumed that what one
  side has read is a beginning of what the other has written.
\<close>

section \<open>What the client writes\<close>

fun posted_packet :: "tcp_post \<Rightarrow> bytes option" where
  "posted_packet (PostPacket m) = Some m"
| "posted_packet _ = None"

fun tcp_posted :: "tcp_effect \<Rightarrow> bytes option" where
  "tcp_posted (TcPost p) = posted_packet p"
| "tcp_posted _ = None"

definition tcp_posts :: "tcp_effect list \<Rightarrow> bytes list" where
  "tcp_posts os = List.map_filter tcp_posted os"

definition tcp_strand :: "tcp_client \<Rightarrow> bytes list" where
  "tcp_strand c = List.map_filter posted_packet (tc_posted c)"

lemma tcp_posts_simps [simp]:
  "tcp_posts [] = []" "tcp_posts (x # os) = (case tcp_posted x of None \<Rightarrow> tcp_posts os | Some m \<Rightarrow> m # tcp_posts os)"
  "tcp_posts (os @ os') = tcp_posts os @ tcp_posts os'"
  by (auto simp: tcp_posts_def List.map_filter_def split: option.splits)

lemma tcp_posts_none [simp]:
  "tcp_posts (map TcStartWrite bs) = []" "tcp_posts (map TcCallTimeout ss) = []"
  by (induction bs; simp) (induction ss; simp)

definition tcp_wire :: "tcp_client \<Rightarrow> tcp_effect list \<Rightarrow> bool" where
  "tcp_wire c os \<longleftrightarrow> (\<exists>ms. tcp_posts os = ms @ tcp_strand c \<and> wq_inv (tc_writer c) ms)"

text \<open>A statement that adds to the strand exactly the packets it posts.\<close>

definition tcp_posting :: "tcp_client \<Rightarrow> tcp_client \<times> tcp_effect list \<Rightarrow> bool" where
  "tcp_posting c r \<longleftrightarrow> tcp_strand (fst r) = tcp_strand c @ tcp_posts (snd r)"

lemma tcp_posting_processPacket: "tc_posted (fst (TcpClient_processPacket p c)) = tc_posted c"
  "tcp_posts (snd (TcpClient_processPacket p c)) = []"
  by (auto simp: TcpClient_processPacket_def split: option.split)

lemma tcp_posting_afterRead: "tcp_posting c (TcpClient_afterRead out c)"
  by (cases out) (auto simp: tcp_posting_def tcp_strand_def TcpClient_connect_defs tcp_posting_processPacket split: option.split)

lemma tcp_posting_disconnect: "tcp_posting c (TcpClient_handleDisconnect c)"
  by (auto simp: tcp_posting_def tcp_strand_def TcpClient_connect_defs)

lemma tcp_posting_readError: "tcp_posting c (TcpClient_readError ec c)"
  using tcp_posting_disconnect [of "c\<lparr>tc_reader := (tc_reader c)\<lparr>rd_wait := None\<rparr>\<rparr>"]
  by (auto simp: tcp_posting_def TcpClient_readError_def tcp_strand_def)

lemma tcp_posting_sendPacket: "tcp_posting c (snd (TcpClient_sendPacket e p c))"
  by (auto simp: tcp_posting_def TcpClient_sendPacket_def TcpClient_post_def tcp_strand_def)

lemma tcp_posting_step:
  assumes "\<And>m rest. ev = TcRunPosted \<Longrightarrow> tc_posted c \<noteq> PostPacket m # rest"
  shows "tcp_posting c (TcpClient_step e c ev)"
proof (cases ev)
  case (TcSendRequest data t cb now)
  then show ?thesis
    by (auto simp: tcp_posting_def tcp_strand_def TcpClient_sendRequest_def TcpClient_sendPacket_def
        TcpClient_getNextSequence_def TcpClient_startTimeoutTimer_def TcpClient_post_def Let_def case_prod_beta)
next
  case TcRunPosted
  show ?thesis
  proof (cases "tc_posted c")
    case Nil
    with TcRunPosted show ?thesis by (simp add: tcp_posting_def tcp_strand_def)
  next
    case (Cons p rest)
    with TcRunPosted assms show ?thesis
      by (cases p) (auto simp: tcp_posting_def tcp_strand_def TcpClient_connect_defs TcpClient_runStartTimer_def)
  qed
next
  case (TcConnected ec)
  then show ?thesis
    by (auto simp: tcp_posting_def tcp_strand_def TcpClient_onConnect_def TcpClient_connect_defs
        TcpClient_sendBindPacket_def TcpClient_sendPacket_def TcpClient_getNextSequence_def Let_def split: option.split)
next
  case (TcHeaderRead ec d)
  with tcp_posting_readError [of c ec] show ?thesis
    using tcp_posting_afterRead [of "c\<lparr>tc_reader := fst (rd_onHeader (te_host e) d (tc_reader c))\<rparr>"]
    by (auto simp: tcp_posting_def tcp_strand_def TcpClient_onHeader_def case_prod_beta)
next
  case (TcPayloadRead ec d)
  with tcp_posting_readError [of c ec] show ?thesis
    using tcp_posting_afterRead [of "c\<lparr>tc_reader := fst (rd_onPayload d (tc_reader c))\<rparr>"]
    by (auto simp: tcp_posting_def tcp_strand_def TcpClient_onPayload_def case_prod_beta)
next
  case (TcWriteDone ec n)
  then show ?thesis
    using tcp_posting_disconnect [of "c\<lparr>tc_writer := fst (wq_onWrite ec n (tc_writer c))\<rparr>"]
    by (auto simp: tcp_posting_def tcp_strand_def TcpClient_onWrite_def case_prod_beta)
next
  case (TcTimerFired ec now)
  then show ?thesis
    by (auto simp: tcp_posting_def tcp_strand_def TcpClient_onTimer_def TcpClient_checkTimeouts_def Let_def)
next
  case (TcSendPacket p)
  then show ?thesis by (simp add: tcp_posting_sendPacket)
qed (auto simp: tcp_posting_def tcp_strand_def TcpClient_connect_defs TcpClient_setAutoReconnect_def
    TcpClient_cancelRequest_def)

lemma TcpClient_onWrite_writer: "tc_writer (fst (TcpClient_onWrite ec n c)) = fst (wq_onWrite ec n (tc_writer c))"
  using off_writer_disconnect [of "c\<lparr>tc_writer := fst (wq_onWrite ec n (tc_writer c))\<rparr>"]
  by (simp add: TcpClient_onWrite_def case_prod_beta off_writer_def)

interpretation tcp_wire: traced_machine "TcpClient_step e" TcpClient_ok tcp_wire for e
proof
  fix c os ev
  assume wire: "tcp_wire c os" and ok: "TcpClient_ok c ev"
  from wire obtain ms where ms: "tcp_posts os = ms @ tcp_strand c" "wq_inv (tc_writer c) ms"
    by (auto simp: tcp_wire_def)
  consider m rest where "ev = TcRunPosted" "tc_posted c = PostPacket m # rest"
    | ec n where "ev = TcWriteDone ec n"
    | "\<And>m rest. ev = TcRunPosted \<Longrightarrow> tc_posted c \<noteq> PostPacket m # rest" "\<And>ec n. ev \<noteq> TcWriteDone ec n"
    by blast
  then show "tcp_wire (fst (TcpClient_step e c ev)) (os @ snd (TcpClient_step e c ev))"
  proof cases
    case (1 m rest)
    with wq_inv_enqueue [OF ms(2), of m] ms(1) show ?thesis
      by (auto simp: tcp_wire_def tcp_strand_def case_prod_beta intro!: exI [of _ "ms @ [m]"])
  next
    case (2 ec n)
    then have "tcp_posting c (TcpClient_step e c ev)" by (intro tcp_posting_step) simp
    moreover from 2 ok have "wq_ok (tc_writer c) (WqDone ec n)" by simp
    from wq_inv_onWrite [OF ms(2) this] have "wq_inv (tc_writer (fst (TcpClient_step e c ev))) ms"
      using 2 by (simp add: TcpClient_onWrite_writer)
    ultimately show ?thesis using ms(1) unfolding tcp_wire_def tcp_posting_def by (intro exI [of _ ms]) simp
  next
    case 3
    with tcp_posting_step [of ev c e, OF 3(1)] off_writer_step [OF 3, of e] ms show ?thesis
      unfolding tcp_wire_def tcp_posting_def off_writer_def by (intro exI [of _ ms]) simp
  qed
qed

text \<open>The packets that an event makes the client send.\<close>

abbreviation tcp_enc :: "tcp_env \<Rightarrow> packet \<Rightarrow> bytes" where
  "tcp_enc e \<equiv> serialize (te_host e) (te_pad1 e) (te_pad2 e)"

fun tcp_sends :: "tcp_client \<Rightarrow> tcp_event \<Rightarrow> packet list" where
  "tcp_sends c (TcSendPacket p) = (if tc_connected c then [p] else [])"
| "tcp_sends c (TcSendRequest data t cb now) =
     (if tc_connected c then [createPacket_string REQUEST 0 (tc_next_sequence c) data] else [])"
| "tcp_sends c (TcConnected ec) =
     (if ec = None then [createPacket_string BIND 0 (tc_next_sequence c) (tc_client_id c)] else [])"
| "tcp_sends c _ = []"

text \<open>What a step that sends nothing leaves alone, and what no step changes.\<close>

definition tcp_quiet :: "tcp_client \<Rightarrow> tcp_client \<times> tcp_effect list \<Rightarrow> bool" where
  "tcp_quiet c r \<longleftrightarrow> tc_client_id (fst r) = tc_client_id c \<and> tc_next_sequence (fst r) = tc_next_sequence c
     \<and> (tc_connected (fst r) \<longrightarrow> tc_connected c) \<and> tcp_posts (snd r) = []"

lemma tcp_quiet_handlers:
  "tcp_quiet c (TcpClient_handleDisconnect c)" "tcp_quiet c (TcpClient_afterRead out c)"
  "tcp_quiet c (TcpClient_readError ec c)"
proof -
  show *: "tcp_quiet c (TcpClient_handleDisconnect c)" for c
    by (auto simp: tcp_quiet_def TcpClient_connect_defs)
  show "tcp_quiet c (TcpClient_readError ec c)"
    using * [of "c\<lparr>tc_reader := (tc_reader c)\<lparr>rd_wait := None\<rparr>\<rparr>"] by (auto simp: tcp_quiet_def TcpClient_readError_def)
  show "tcp_quiet c (TcpClient_afterRead out c)"
    by (cases out) (auto simp: tcp_quiet_def TcpClient_connect_defs TcpClient_processPacket_def split: option.split)
qed

lemma TcpClient_step_sends:
  "tcp_posts (snd (TcpClient_step e c ev)) = map (tcp_enc e) (tcp_sends c ev)
    \<and> tc_client_id (fst (TcpClient_step e c ev)) = tc_client_id c
    \<and> (tcp_sends c ev = [] \<longrightarrow> tcp_quiet c (TcpClient_step e c ev))"
proof (cases ev)
  case (TcSendRequest data t cb now)
  then show ?thesis
    by (auto simp: tcp_quiet_def TcpClient_sendRequest_def TcpClient_sendPacket_def
        TcpClient_getNextSequence_def TcpClient_startTimeoutTimer_def TcpClient_post_def Let_def case_prod_beta)
next
  case TcRunPosted
  then show ?thesis
    by (cases "tc_posted c"; cases "hd (tc_posted c)")
      (auto simp: tcp_quiet_def TcpClient_connect_defs TcpClient_runStartTimer_def case_prod_beta)
next
  case (TcConnected ec)
  then show ?thesis
    by (auto simp: tcp_quiet_def TcpClient_onConnect_def TcpClient_connect_defs
        TcpClient_sendBindPacket_def TcpClient_sendPacket_def TcpClient_getNextSequence_def Let_def split: option.split)
next
  case (TcHeaderRead ec d)
  then show ?thesis
    using tcp_quiet_handlers(3) [of c ec] tcp_quiet_handlers(2) [of "c\<lparr>tc_reader := fst (rd_onHeader (te_host e) d (tc_reader c))\<rparr>"]
    by (auto simp: tcp_quiet_def TcpClient_onHeader_def case_prod_beta)
next
  case (TcPayloadRead ec d)
  then show ?thesis
    using tcp_quiet_handlers(3) [of c ec] tcp_quiet_handlers(2) [of "c\<lparr>tc_reader := fst (rd_onPayload d (tc_reader c))\<rparr>"]
    by (auto simp: tcp_quiet_def TcpClient_onPayload_def case_prod_beta)
next
  case (TcWriteDone ec n)
  then show ?thesis
    using tcp_quiet_handlers(1) [of "c\<lparr>tc_writer := fst (wq_onWrite ec n (tc_writer c))\<rparr>"]
    by (auto simp: tcp_quiet_def TcpClient_onWrite_def case_prod_beta)
next
  case (TcTimerFired ec now)
  then show ?thesis
    by (auto simp: tcp_quiet_def TcpClient_onTimer_def TcpClient_checkTimeouts_def Let_def)
qed (auto simp: tcp_quiet_def TcpClient_connect_defs TcpClient_setAutoReconnect_def
    TcpClient_cancelRequest_def TcpClient_sendPacket_def)

text \<open>The user passes packets that fit; the first packet sent is the bind request.\<close>

fun typed_tcp_event :: "tcp_event \<Rightarrow> bool" where
  "typed_tcp_event (TcSendPacket p) = wf_packet p"
| "typed_tcp_event (TcSendRequest data t cb now) = (length data \<le> 16372)"
| "typed_tcp_event _ = True"

definition bound_first :: "tcp_env \<Rightarrow> string \<Rightarrow> tcp_client \<Rightarrow> tcp_effect list \<Rightarrow> bool" where
  "bound_first e cid c os \<longleftrightarrow> tc_client_id c = cid \<and>
     (\<exists>ps. list_all wf_packet ps \<and> tcp_posts os = map (tcp_enc e) ps
       \<and> (if ps = [] then \<not> tc_connected c \<and> tc_next_sequence c = 1 else hd ps = createPacket_string BIND 0 1 cid))"

lemma typed_sends:
  assumes "typed_tcp_event ev" and "length (tc_client_id c) \<le> 16372"
  shows "list_all wf_packet (tcp_sends c ev)"
  using assms by (cases ev) (simp_all add: createPacket_string_def wf_createPacket)

lemma first_send:
  assumes "tcp_sends c ev \<noteq> []" and "\<not> tc_connected c"
  shows "tcp_sends c ev = [createPacket_string BIND 0 (tc_next_sequence c) (tc_client_id c)]"
  using assms by (cases ev) (auto split: if_splits)

lemma bound_first_step:
  assumes "bound_first e cid c os" and ev: "typed_tcp_event ev" and cid: "length cid \<le> 16372"
  shows "bound_first e cid (fst (TcpClient_step e c ev)) (os @ snd (TcpClient_step e c ev))"
proof -
  from assms(1) obtain ps where ps: "tc_client_id c = cid" "list_all wf_packet ps" "tcp_posts os = map (tcp_enc e) ps"
    "if ps = [] then \<not> tc_connected c \<and> tc_next_sequence c = 1 else hd ps = createPacket_string BIND 0 1 cid"
    by (auto simp: bound_first_def)
  let ?ps = "ps @ tcp_sends c ev"
  have "list_all wf_packet ?ps" using typed_sends [OF ev, of c] ps(1,2) cid by simp
  moreover have "hd ?ps = createPacket_string BIND 0 1 cid" if "?ps \<noteq> []"
    using that ps first_send [of c ev] by (cases "ps = []") auto
  moreover have "\<not> tc_connected (fst (TcpClient_step e c ev)) \<and> tc_next_sequence (fst (TcpClient_step e c ev)) = 1"
    if "?ps = []" using that ps(4) TcpClient_step_sends [of e c ev] by (auto simp: tcp_quiet_def)
  ultimately show ?thesis
    using TcpClient_step_sends [of e c ev] ps(1,3) unfolding bound_first_def
    by (intro conjI exI [of _ ?ps]) (simp_all del: TcpClient_step.simps)
qed

interpretation bound_first: traced_machine "TcpClient_step e" "\<lambda>c ev. TcpClient_ok c ev \<and> typed_tcp_event ev"
    "\<lambda>c os. bound_first e cid c os \<and> length cid \<le> 16372" for e cid
  by unfold_locales (use bound_first_step in blast)

text \<open>A new client that has a packet callback.\<close>

abbreviation client_of :: "string \<Rightarrow> tcp_client" where
  "client_of cid \<equiv> TcpClient_setPacketCallback True (TcpClient_new cid)"

text \<open>The client's bytes: a prefix of well-formed packets, of which the first is the bind request.\<close>

lemma tcp_client_wire:
  assumes "allowed TcpClient_ok (TcpClient_step e) (client_of cid) es" and "list_all typed_tcp_event es"
    and "length cid \<le> 16372" and "run (TcpClient_step e) (client_of cid) es = (c, os)"
  obtains ps where "list_all wf_packet ps" "tcp_posts os = map (tcp_enc e) ps"
    "prefix (wq_sent (tc_writer c)) (wire (tcp_enc e) ps)" "ps \<noteq> [] \<longrightarrow> hd ps = createPacket_string BIND 0 1 cid"
proof -
  have "tcp_wire (client_of cid) []" "bound_first e cid (client_of cid) []"
    by (simp_all add: tcp_wire_def bound_first_def TcpClient_new_def TcpClient_setPacketCallback_def tcp_strand_def wq_inv_new)
  with tcp_wire.run_tinv [OF _ assms(1), of "[]"] bound_first.run_tinv [of e cid "client_of cid" "[]" es] assms
  have "tcp_wire c os" "bound_first e cid c os" by (simp_all add: allowed_events)
  then obtain ms ps where ms: "tcp_posts os = ms @ tcp_strand c" "wq_inv (tc_writer c) ms"
    and ps: "list_all wf_packet ps" "tcp_posts os = map (tcp_enc e) ps" "ps \<noteq> [] \<longrightarrow> hd ps = createPacket_string BIND 0 1 cid"
    by (fastforce simp: tcp_wire_def bound_first_def)
  from wq_inv_sent [OF ms(2)] have "prefix (wq_sent (tc_writer c)) (concat (tcp_posts os))"
    unfolding ms(1) concat_append by (blast intro: prefix_prefix)
  with ps that show thesis by (simp add: wire_def)
qed

section \<open>What the client reads\<close>

fun tcp_reads :: "tcp_event \<Rightarrow> (error_code \<times> bytes) option" where
  "tcp_reads (TcHeaderRead ec d) = Some (ec, d)"
| "tcp_reads (TcPayloadRead ec d) = Some (ec, d)"
| "tcp_reads _ = None"

text \<open>The reports of packets; responses to requests are reported as well.\<close>

fun tcp_report :: "tcp_effect \<Rightarrow> packet option" where
  "tcp_report (TcCallPacket p) = Some p"
| "tcp_report _ = None"

fun tcp_report_spec :: "bytes \<times> unit \<Rightarrow> packet \<Rightarrow> (bytes \<times> unit) \<times> packet list" where
  "tcp_report_spec (prev, u) p = ((pk_payload (seen_packet prev p), u), [seen_packet prev p])"

text \<open>The events while one socket is in use: no new connection is started or established.\<close>

fun same_socket :: "tcp_client \<Rightarrow> tcp_event \<Rightarrow> bool" where
  "same_socket c TcRunPosted = (hd (tc_posted c) \<noteq> PostConnect)"
| "same_socket c (TcConnected ec) = False"
| "same_socket c ev = True"

definition tcp_one_ok :: "tcp_client \<Rightarrow> tcp_event \<Rightarrow> bool" where
  "tcp_one_ok c ev \<longleftrightarrow> TcpClient_ok c ev \<and> same_socket c ev"

definition off_reader :: "tcp_client \<Rightarrow> tcp_client \<times> tcp_effect list \<Rightarrow> bool" where
  "off_reader c r \<longleftrightarrow> tc_reader (fst r) = tc_reader c \<and> tc_packet_callback (fst r) = tc_packet_callback c
     \<and> List.map_filter tcp_report (snd r) = []"

lemma off_reader_disconnect: "off_reader c (TcpClient_handleDisconnect c)"
  by (simp add: off_reader_def TcpClient_connect_defs)

lemma tcp_report_none [simp]:
  "List.map_filter tcp_report (map TcStartWrite bs) = []" "List.map_filter tcp_report (map TcCallTimeout ss) = []"
  by (induction bs; simp) (induction ss; simp)

lemma off_reader_step:
  assumes "tcp_reads ev = None" and "tcp_one_ok c ev"
  shows "off_reader c (TcpClient_step e c ev)"
proof (cases ev)
  case TcRunPosted
  with assms(2) obtain p rest where p: "tc_posted c = p # rest" "p \<noteq> PostConnect"
    by (cases "tc_posted c") (auto simp: tcp_one_ok_def)
  with TcRunPosted show ?thesis
    by (cases p) (auto simp: off_reader_def TcpClient_runStartTimer_def case_prod_beta)
next
  case (TcSendRequest data t cb now)
  then show ?thesis
    by (auto simp: off_reader_def TcpClient_sendRequest_def TcpClient_sendPacket_def
        TcpClient_getNextSequence_def TcpClient_startTimeoutTimer_def TcpClient_post_def Let_def case_prod_beta)
next
  case (TcWriteDone ec n)
  then show ?thesis
    using off_reader_disconnect [of "c\<lparr>tc_writer := fst (wq_onWrite ec n (tc_writer c))\<rparr>"]
    by (auto simp: off_reader_def TcpClient_onWrite_def case_prod_beta)
next
  case (TcTimerFired ec now)
  then show ?thesis by (auto simp: off_reader_def TcpClient_onTimer_def TcpClient_checkTimeouts_def Let_def)
qed (use assms in \<open>auto simp: tcp_one_ok_def off_reader_def TcpClient_connect_defs TcpClient_setAutoReconnect_def
    TcpClient_cancelRequest_def TcpClient_sendPacket_def\<close>)

lemma tcp_failed:
  assumes "tcp_reads ev = Some (Some x, d)"
  shows "TcpClient_step e c ev = TcpClient_readError (Some x) c"
  using assms by (cases ev) (auto simp: TcpClient_onHeader_def TcpClient_onPayload_def)

lemma tcp_readError:
  "tc_reader (fst (TcpClient_readError ec c)) = (tc_reader c)\<lparr>rd_wait := None\<rparr>"
  "tc_packet_callback (fst (TcpClient_readError ec c)) = tc_packet_callback c"
  "List.map_filter tcp_report (snd (TcpClient_readError ec c)) = []"
  using off_reader_disconnect [of "c\<lparr>tc_reader := (tc_reader c)\<lparr>rd_wait := None\<rparr>\<rparr>"]
  by (auto simp: TcpClient_readError_def off_reader_def)

lemma tcp_good:
  assumes "tcp_reads ev = Some (None, d)" and "TcpClient_ok c ev"
  shows "rd_want (tc_reader c) = Some (length d) \<and> TcpClient_step e c ev =
    (let (r, out) = (if rd_wait (tc_reader c) = Some RdHeader then rd_onHeader (te_host e) d (tc_reader c)
                     else rd_onPayload d (tc_reader c))
     in TcpClient_afterRead out (c\<lparr>tc_reader := r\<rparr>))"
  using assms
  by (cases ev) (auto simp: TcpClient_onHeader_def TcpClient_onPayload_def prod_eq_iff case_prod_beta
      simp del: TcpClient_afterRead.simps split: option.splits read_op.splits)

lemma tcp_afterRead_callback: "tc_packet_callback (fst (TcpClient_afterRead out c)) = tc_packet_callback c"
  by (cases out) (simp_all add: TcpClient_close_def)

lemma tcp_afterPacket:
  assumes "tc_packet_callback c"
  shows "List.map_filter tcp_report (snd (TcpClient_afterRead (RoPacket q) c)) = [q]"
  using assms by (simp add: TcpClient_processPacket_def TcpClient_startReading_def split: option.split)

interpretation tcp_stream: packet_run tc_reader "\<lambda>r c. c\<lparr>tc_reader := r\<rparr>" "te_host e" TcpClient_afterRead
    "TcpClient_step e" tcp_one_ok tcp_reads tc_packet_callback "\<lambda>c. ()" tcp_report tcp_report_spec
    for e
proof (unfold_locales, goal_cases)
  case (4 s ev)
  consider "tcp_reads ev = None" | x d where "tcp_reads ev = Some (Some x, d)" | d where "tcp_reads ev = Some (None, d)"
    by (cases "tcp_reads ev") (auto, metis option.exhaust)
  then show ?case
  proof cases
    case 1
    with off_reader_step [OF 1 4(2), of e] 4(1) show ?thesis by (simp add: off_reader_def)
  next
    case 2
    with 4(1) show ?thesis by (simp add: tcp_failed [OF 2] tcp_readError)
  next
    case 3
    with tcp_good [OF 3, of s e] 4 show ?thesis by (simp add: tcp_one_ok_def case_prod_beta tcp_afterRead_callback)
  qed
next
  case (5 s ev)
  then show ?case using off_reader_step [of ev s e] by (simp add: off_reader_def)
next
  case (6 s ev x d)
  then show ?case by (simp add: tcp_failed [of ev x d] tcp_readError)
next
  case (7 s ev d)
  then show ?case using tcp_good [of ev d s e] by (simp add: tcp_one_ok_def)
next
  case (10 s)
  then show ?case by (simp add: TcpClient_startReading_def split: option.split)
next
  case (11 s q prev p)
  then show ?case using tcp_afterPacket [of s q] by auto
qed simp_all

section \<open>End to end\<close>

lemma Connection_start_posts: "conn_posts (snd (Connection_step e c (CoStart cb cc))) = []"
  by (simp add: Connection_start_def Connection_readHeader_def Connection_startRead_def split: option.split)

interpretation tcp_callback: machine "TcpClient_step e" TcpClient_ok tc_packet_callback for e
proof
  fix c ev
  assume cb: "tc_packet_callback c" and ok: "TcpClient_ok c ev"
  show "tc_packet_callback (fst (TcpClient_step e c ev))"
  proof (cases "same_socket c ev")
    case True
    with tcp_stream.rx_step [OF cb, of ev e] ok show ?thesis by (simp add: tcp_one_ok_def)
  next
    case False
    with cb show ?thesis
      by (cases ev; cases "tc_posted c")
        (auto simp: TcpClient_onConnect_def TcpClient_connect_defs TcpClient_sendBindPacket_def
          TcpClient_sendPacket_def TcpClient_getNextSequence_def Let_def split: option.split)
  qed
qed


text \<open>The client \<open>c\<close> connects to the server \<open>S\<close>, binds, and reads the reply.\<close>

abbreviation sample_bind :: packet where "sample_bind \<equiv> createPacket_string BIND 0 1 ''c''"

abbreviation sample_bound :: packet where "sample_bound \<equiv> createPacket_string BIND_RESP 0 1 ''S''"

abbreviation sample_connect :: "tcp_event list" where
  "sample_connect \<equiv> [TcStart, TcRunPosted, TcResolved None, TcConnected None]"

abbreviation sample_client_events :: "tcp_event list" where
  "sample_client_events \<equiv> [TcRunPosted, TcWriteDone None 13, TcHeaderRead None (header_wire 0 0 (pk_header sample_bound)),
     TcPayloadRead None (bytes_of ''S'')]"

abbreviation sample_server_events :: "conn_event list" where
  "sample_server_events \<equiv> [CoHeaderRead None (header_wire 0 0 (pk_header sample_bind)), CoPayloadRead None (bytes_of ''c''),
     CoRunPosted, CoWriteDone None 13]"


end
