(* ===== verification/TurboClientTimers.thy ===== *)
theory TurboClientTimers
  imports TurboClientSend
begin

text \<open>
  Sequence numbers and response timeouts of \<open>TurboNetClient\<close>. A ledger relates the sequence
  counter and the table of unanswered requests to the number of sequence numbers taken; the
  locale \<open>seq_ledger\<close> says what a ledger has to survive (taking a number for a bind, taking one
  for a request), and its lemmas carry it through all handlers. Two ledgers are kept: no queued
  number has been reused, and a given request is still pending under its deadline. As long as
  fewer than \<open>2 ^ 32\<close> packets have been sent, a sweep reports exactly the pending requests whose
  deadline has passed, and every pending request is reported by the first sweep at or after its
  deadline, even if its response has been received in the meantime.
\<close>

section \<open>Counting sequence numbers\<close>

text \<open>
  A statement that takes at most as many sequence numbers as it posts packets.
\<close>

definition counts :: "(u32 \<Rightarrow> rt_table \<Rightarrow> nat \<Rightarrow> bool) \<Rightarrow> client_proc \<Rightarrow> bool" where
  "counts A p \<longleftrightarrow> (\<forall>c n. A (cl_sequenceCounter c) (cl_responses c) n \<longrightarrow>
     (\<exists>n' \<le> n + length (posts (snd (p c))). A (cl_sequenceCounter (fst (p c))) (cl_responses (fst (p c))) n'))"

lemma countsD:
  "counts A p \<Longrightarrow> A (cl_sequenceCounter c) (cl_responses c) n \<Longrightarrow>
     \<exists>n' \<le> n + length (posts (snd (p c))). A (cl_sequenceCounter (fst (p c))) (cl_responses (fst (p c))) n'"
  by (simp add: counts_def)

lemma counts_same:
  "(\<And>c. cl_sequenceCounter (fst (p c)) = cl_sequenceCounter c) \<Longrightarrow>
   (\<And>c. cl_responses (fst (p c)) = cl_responses c) \<Longrightarrow> counts A p"
  by (auto simp: counts_def intro: le_add1)

lemma counts_seq:
  assumes "counts A p" and "counts A q"
  shows "counts A (\<lambda>c. (fst (q (fst (p c))), snd (p c) @ snd (q (fst (p c)))))"
  unfolding counts_def
proof (intro allI impI)
  fix c :: client and n
  assume "A (cl_sequenceCounter c) (cl_responses c) n"
  with assms(1) obtain n1 where 1: "n1 \<le> n + length (posts (snd (p c)))"
    "A (cl_sequenceCounter (fst (p c))) (cl_responses (fst (p c))) n1"
    by (auto dest: countsD)
  from assms(2) 1(2) obtain n2 where "n2 \<le> n1 + length (posts (snd (q (fst (p c)))))"
    "A (cl_sequenceCounter (fst (q (fst (p c))))) (cl_responses (fst (q (fst (p c))))) n2"
    by (auto dest: countsD)
  with 1(1) show "\<exists>n' \<le> n + length (posts (snd (fst (q (fst (p c))), snd (p c) @ snd (q (fst (p c)))))).
      A (cl_sequenceCounter (fst (fst (q (fst (p c))), snd (p c) @ snd (q (fst (p c))))))
        (cl_responses (fst (fst (q (fst (p c))), snd (p c) @ snd (q (fst (p c)))))) n'"
    by (intro exI [of _ n2]) simp
qed

lemma counts_seqs: "list_all (counts A) ps \<Longrightarrow> counts A (seqs ps)"
proof (induction ps)
  case Nil
  show ?case by (rule counts_same) simp_all
next
  case (Cons p ps)
  have "seqs (p # ps) = (\<lambda>c. (fst (seqs ps (fst (p c))), snd (p c) @ snd (seqs ps (fst (p c)))))"
    by (rule ext) (simp add: prod_eq_iff)
  with Cons counts_seq [of A p "seqs ps"] show ?case by simp
qed

lemma counts_closure: "(\<And>x. counts A (F x)) \<Longrightarrow> counts A (\<lambda>c. F c c)"
  by (simp add: counts_def)

lemma counts_if_do: "counts A p \<Longrightarrow> counts A (if_do b p)"
  by (cases b) (simp_all add: counts_def if_do_def, blast)

lemma counts_skip: "counts A skip"
  by (rule counts_same) simp_all

lemma counts_emit: "counts A (emit x)"
  by (rule counts_same) simp_all

locale seq_ledger =
  fixes A :: "u32 \<Rightarrow> rt_table \<Rightarrow> nat \<Rightarrow> bool"
  assumes take_bind: "A q t n \<Longrightarrow> A (q + 1) t (Suc n)"
    and take_request: "A q t n \<Longrightarrow> A (q + 1) (rt_insert q d t) (Suc n)"
begin

lemma counts_call: "counts A (Client_call h a)"
proof (cases a)
  case (ApiSendPacket p s q d)
  then show ?thesis by (intro counts_same) simp_all
next
  case (ApiSendRequest d t)
  show ?thesis
    unfolding counts_def
  proof (intro allI impI)
    fix c :: client and n
    assume "A (cl_sequenceCounter c) (cl_responses c) n"
    then have "A (cl_sequenceCounter c + 1) (cl_responses c) (Suc n)"
      "A (cl_sequenceCounter c + 1) (rt_insert (cl_sequenceCounter c) e (cl_responses c)) (Suc n)" for e
      by (simp_all add: take_bind take_request)
    moreover have "n + length (posts (snd (Client_call h a c))) = Suc n"
      using ApiSendRequest
      by (simp add: Client_sendRequest_def Client_sendPacket_def Client_startResponseTimer_def Let_def)
    ultimately show "\<exists>n' \<le> n + length (posts (snd (Client_call h a c))).
        A (cl_sequenceCounter (fst (Client_call h a c))) (cl_responses (fst (Client_call h a c))) n'"
      using ApiSendRequest by (intro exI [of _ "Suc n"]) (simp add: Client_sendRequest_def Let_def)
  qed
next
  case ApiClose
  then show ?thesis by (intro counts_same) (simp_all add: Client_close_def)
qed

lemma counts_callback: "counts A (Client_callback h app x cb)"
proof (cases cb)
  case None
  then show ?thesis by (simp add: Client_callback_def counts_skip)
next
  case (Some f)
  have "counts A (seqs (emit x # map (Client_call h) (app f)))"
    by (rule counts_seqs) (simp add: list_all_iff counts_emit counts_call)
  with Some show ?thesis by (simp add: Client_callback_def)
qed

lemma counts_doReadHeader: "counts A Client_doReadHeader"
  by (rule counts_same) (simp_all add: Client_doReadHeader_def)

lemma counts_cancelTimers:
  "counts A Client_cancelReadTimer" "counts A Client_cancelConnectTimer"
  by (simp_all add: Client_cancelReadTimer_def Client_cancelConnectTimer_def counts_emit)

lemma counts_onReadBody: "counts A (Client_onReadBody h ec)"
proof -
  have "counts A (\<lambda>c. if_do (cl_lastPacketId c = 0x81)
      (let sid = string_of (cl_bodyBuf c) in Client_callback h (\<lambda>f. f sid) (CallBind sid) (cl_onBind c)) c)"
    by (rule counts_closure [where F = "\<lambda>x. if_do (cl_lastPacketId x = 0x81) (let sid = string_of (cl_bodyBuf x)
          in Client_callback h (\<lambda>f. f sid) (CallBind sid) (cl_onBind x))"])
      (simp add: Let_def counts_if_do counts_callback)
  moreover have "counts A (\<lambda>c. Client_callback h
      (\<lambda>f. f (cl_lastPacketId c) (cl_lastStatus c) (cl_lastSequence c) (cl_bodyBuf c))
      (CallPacket (cl_lastPacketId c) (cl_lastStatus c) (cl_lastSequence c) (cl_bodyBuf c)) (cl_onPacket c) c)"
    by (rule counts_closure [where F = "\<lambda>x. Client_callback h
      (\<lambda>f. f (cl_lastPacketId x) (cl_lastStatus x) (cl_lastSequence x) (cl_bodyBuf x))
      (CallPacket (cl_lastPacketId x) (cl_lastStatus x) (cl_lastSequence x) (cl_bodyBuf x)) (cl_onPacket x)"])
      (rule counts_callback)
  moreover have "counts A (\<lambda>c. if_do (cl_running c) Client_doReadHeader c)"
    by (rule counts_closure [where F = "\<lambda>x. if_do (cl_running x) Client_doReadHeader"])
      (simp add: counts_if_do counts_doReadHeader)
  ultimately show ?thesis
    unfolding Client_onReadBody_def
    by (intro counts_seqs) (simp add: counts_cancelTimers counts_if_do counts_seqs)
qed

lemma counts_onConnect: "counts A (Client_onConnect h ec)"
proof -
  have "counts A (\<lambda>c. if_do (cl_clientId c \<noteq> [])
      (let sq = cl_sequenceCounter c in
       seqs [modify (\<lambda>c. c\<lparr>cl_sequenceCounter := cl_sequenceCounter c + 1\<rparr>),
             Client_sendPacket h 0x01 0x00 sq (bytes_of (cl_clientId c))]) c)"
    unfolding counts_def
  proof (intro allI impI, goal_cases)
    case (1 c n)
    then show ?case
      using take_bind [OF 1]
      by (cases "cl_clientId c = []") (auto simp: Let_def Client_sendPacket_def intro: exI [of _ "Suc n"])
  qed
  moreover have "counts A (\<lambda>c. Client_callback h (\<lambda>f. f ec) (CallConnect ec) (cl_connectHandler c) c)"
    by (rule counts_closure [where F = "\<lambda>x. Client_callback h (\<lambda>f. f ec) (CallConnect ec) (cl_connectHandler x)"])
      (rule counts_callback)
  ultimately show ?thesis
    unfolding Client_onConnect_def
    by (intro counts_seqs) (simp add: counts_cancelTimers counts_if_do counts_seqs counts_doReadHeader)
qed

lemma counts_fires: "counts A (seqs (map (Client_fireTimeout h) ss))"
proof (rule counts_seqs)
  have "counts A (Client_fireTimeout h s)" for s
    unfolding Client_fireTimeout_def
    by (rule counts_closure [where F = "\<lambda>x. Client_callback h (\<lambda>f. f s) (CallTimeout s) (cl_onTimeout x)"])
      (rule counts_callback)
  then show "list_all (counts A) (map (Client_fireTimeout h) ss)" by (simp add: list_all_iff)
qed

lemma step_counts:
  assumes A: "A (cl_sequenceCounter c) (cl_responses c) n"
    and cancel: "\<And>s. e = DoCancelResponse s \<Longrightarrow> A (cl_sequenceCounter c) (rt_cancel s (cl_responses c)) n"
    and sweep: "\<And>now. e = SweepTimedOut None now \<Longrightarrow> A (cl_sequenceCounter c) (fst (rt_sweep now (cl_responses c))) n"
  shows "\<exists>n' \<le> n + length (posts (snd (Client_step h c e))).
    A (cl_sequenceCounter (fst (Client_step h c e))) (cl_responses (fst (Client_step h c e))) n'"
proof (cases e)
  case (DoConnect host port t f r)
  with A show ?thesis by (auto simp: Client_connect_def intro: exI [of _ n])
next
  case (ConnectDone ec)
  with countsD [OF counts_onConnect [of h ec], of "c\<lparr>cl_connecting := False\<rparr>" n] A show ?thesis by simp
next
  case (DoCall a)
  with countsD [OF counts_call [of h a], of c n] A show ?thesis by simp
next
  case (DoCancelResponse s)
  with cancel show ?thesis by (auto simp: Client_cancelResponseTimer_def intro: exI [of _ n])
next
  case RunPosted
  have "cl_sequenceCounter (fst (Client_step h c RunPosted)) = cl_sequenceCounter c"
    "cl_responses (fst (Client_step h c RunPosted)) = cl_responses c"
    by (cases "cl_strand c"; simp add: Client_enqueue_def Client_doWrite_def Let_def)+
  with RunPosted A show ?thesis by (auto intro: exI [of _ n] simp del: Client_step.simps)
next
  case (HeaderRead ec d)
  with A show ?thesis
    by (auto simp: Client_onReadHeader_def Client_doReadHeader_def Client_doReadBody_def Let_def intro: exI [of _ n])
next
  case (BodyRead ec d)
  with countsD [OF counts_onReadBody [of h ec], of "c\<lparr>cl_reading := None, cl_bodyBuf := memcpy (cl_bodyBuf c) 0 d\<rparr>" n] A
  show ?thesis by simp
next
  case (WriteDone ec k)
  with A show ?thesis by (auto simp: Client_onWrite_def intro: exI [of _ n])
next
  case (SweepTimedOut ec now)
  show ?thesis
  proof (cases ec)
    case None
    have "posts (snd (Client_reschedule now c')) = []" for c'
      by (simp add: Client_reschedule_def Let_def)
    with None SweepTimedOut sweep [of now] show ?thesis
      using countsD [OF counts_fires [of h "snd (rt_sweep now (cl_responses c))"],
          of "c\<lparr>cl_responses := fst (rt_sweep now (cl_responses c))\<rparr>" n]
      by (simp add: Client_checkAndFireResponseTimers_def case_prod_beta)
  next
    case (Some x)
    with A SweepTimedOut show ?thesis
      by (auto simp: Client_checkAndFireResponseTimers_def intro: exI [of _ n])
  qed
qed (use A in \<open>auto intro: exI [of _ n]\<close>)

end

section \<open>No queued number has been reused\<close>

text \<open>
  The first ledger: after \<open>n\<close> numbers the counter stands at \<open>n + 1\<close> (modulo \<open>2 ^ 32\<close>), only
  numbers taken are queued, and below \<open>2 ^ 32\<close> none is queued twice.
\<close>

definition seq_taken :: "nat \<Rightarrow> u32 set" where
  "seq_taken n = of_nat ` {1..n}"

definition seq_acc :: "u32 \<Rightarrow> rt_table \<Rightarrow> nat \<Rightarrow> bool" where
  "seq_acc q t n \<longleftrightarrow> q = of_nat (Suc n) \<and> rt_inv t \<and> re_sequence ` set (rt_queue t) \<subseteq> seq_taken n
     \<and> (n < 2 ^ 32 \<longrightarrow> rt_fresh t)"

lemma seq_taken_Suc: "seq_taken n \<subseteq> seq_taken (Suc n)" "of_nat (Suc n) \<in> seq_taken (Suc n)"
  by (force simp: seq_taken_def simp del: of_nat_Suc)+

lemma seq_taken_new:
  assumes "Suc n < 2 ^ 32"
  shows "of_nat (Suc n) \<notin> seq_taken n"
proof
  assume "of_nat (Suc n) \<in> seq_taken n"
  then obtain k where "1 \<le> k" "k \<le> n" "(of_nat (Suc n) :: u32) = of_nat k"
    by (auto simp: seq_taken_def)
  then have "unat (of_nat (Suc n) :: u32) = unat (of_nat k :: u32)" by metis
  with \<open>k \<le> n\<close> assms show False by (simp add: unat_of_nat del: of_nat_Suc)
qed

interpretation seq_fresh: seq_ledger seq_acc
proof
  fix q t n d
  assume a: "seq_acc q t n"
  then show "seq_acc (q + 1) t (Suc n)"
    using seq_taken_Suc(1) [of n] by (auto simp: seq_acc_def)
  show "seq_acc (q + 1) (rt_insert q d t) (Suc n)"
  proof -
    have q: "q = of_nat (Suc n)" and sub: "re_sequence ` set (rt_queue t) \<subseteq> seq_taken n"
      using a by (simp_all add: seq_acc_def)
    have "rt_fresh (rt_insert q d t)" if "Suc n < 2 ^ 32"
    proof (rule rt_fresh_insert)
      show "rt_fresh t" using a that by (simp add: seq_acc_def)
      show "q \<notin> re_sequence ` set (rt_queue t)"
        using seq_taken_new [OF that] sub unfolding q by blast
    qed
    moreover have "re_sequence ` set (rt_queue (rt_insert q d t)) \<subseteq> seq_taken (Suc n)"
      using sub seq_taken_Suc [of n] unfolding q by auto
    moreover have "q + 1 = of_nat (Suc (Suc n))" by (simp add: q)
    ultimately show ?thesis using a by (simp add: seq_acc_def rt_inv_insert)
  qed
qed

lemma seq_acc_cancel: "seq_acc q t n \<Longrightarrow> seq_acc q (rt_cancel s t) n"
  using rt_inv_cancel [of t s] by (auto simp: seq_acc_def) (auto simp: rt_cancel_def)

lemma seq_acc_sweep: "seq_acc q t n \<Longrightarrow> seq_acc q (fst (rt_sweep now t)) n"
  using rt_sweep_queue [of t now] by (auto simp: seq_acc_def rt_inv_sweep rt_fresh_sweep)

definition seq_inv :: "client \<Rightarrow> client_effect list \<Rightarrow> bool" where
  "seq_inv c os \<longleftrightarrow> (\<exists>n \<le> length (posts os). seq_acc (cl_sequenceCounter c) (cl_responses c) n)"

interpretation client_seq: traced_machine "Client_step h" Client_ok seq_inv for h
proof
  fix c os e
  assume "seq_inv c os"
  then obtain n where "n \<le> length (posts os)" "seq_acc (cl_sequenceCounter c) (cl_responses c) n"
    by (auto simp: seq_inv_def)
  with seq_fresh.step_counts [of c n e h] seq_acc_cancel seq_acc_sweep
  show "seq_inv (fst (Client_step h c e)) (os @ snd (Client_step h c e))"
    unfolding seq_inv_def posts_simps length_append by (meson add_le_mono1 order_trans)
qed

lemma seq_inv_configured: "seq_inv (Client_configured r w t i b p m k) []"
  by (simp add: seq_inv_def seq_acc_def Client_configured_defs rt_inv_empty)
    (simp add: rt_empty_def rt_fresh_def)

lemma client_fresh:
  assumes "allowed Client_ok (Client_step h) (Client_configured r w t i b p m k) es"
    and "run (Client_step h) (Client_configured r w t i b p m k) es = (c, os)"
    and "length (posts os) < 2 ^ 32"
  shows "rt_inv (cl_responses c)" and "rt_fresh (cl_responses c)"
  using client_seq.run_tinv [OF seq_inv_configured assms(1)] assms(2,3)
  by (auto simp: seq_inv_def seq_acc_def)

section \<open>Sweeps\<close>

fun timeout_call :: "client_effect \<Rightarrow> u32 option" where
  "timeout_call (CallTimeout s) = Some s"
| "timeout_call _ = None"

definition timeouts :: "client_effect list \<Rightarrow> u32 list" where
  "timeouts os = List.map_filter timeout_call os"

lemma timeouts_simps [simp]:
  "timeouts [] = []"
  "timeouts (x # os) = (case timeout_call x of None \<Rightarrow> timeouts os | Some s \<Rightarrow> s # timeouts os)"
  "timeouts (os @ os') = timeouts os @ timeouts os'"
  by (auto simp: timeouts_def List.map_filter_def split: option.splits)

lemma Client_call_no_timeout [simp]: "timeouts (snd (Client_call h a c)) = []"
  by (cases a) (simp_all add: Client_sendRequest_def Client_sendPacket_def Client_startResponseTimer_def
      Client_close_def Client_timer_defs Let_def)

lemma Client_calls_no_timeout [simp]: "timeouts (snd (seqs (map (Client_call h) as) c)) = []"
  by (induction as arbitrary: c) simp_all

lemma Client_fire_timeouts [simp]:
  "timeouts (snd (Client_fireTimeout h s c)) = (if cl_onTimeout c = None then [] else [s])"
  "cl_onTimeout (fst (Client_fireTimeout h s c)) = cl_onTimeout c"
  by (cases "cl_onTimeout c"; simp add: Client_fireTimeout_def Client_callback_def)
    (simp add: Client_fireTimeout_def)

lemma Client_fires_timeouts:
  "timeouts (snd (seqs (map (Client_fireTimeout h) ss) c)) = (if cl_onTimeout c = None then [] else ss)"
  by (induction ss arbitrary: c) simp_all

lemma Client_sweep_timeouts:
  "cl_onTimeout c \<noteq> None \<Longrightarrow>
     timeouts (snd (Client_step h c (SweepTimedOut None now))) = snd (rt_sweep now (cl_responses c))"
  by (auto simp: Client_checkAndFireResponseTimers_def case_prod_beta Client_fires_timeouts
      Client_reschedule_def Let_def)

lemma rt_sweep_exact:
  assumes "rt_inv t" and "rt_fresh t"
  shows "set (snd (rt_sweep now t)) = {s. \<exists>d. map_of (rt_map t) s = Some d \<and> d \<le> now}"
  using rt_due_fresh [OF assms] unfolding rt_sweep_expired [OF assms(1)] by blast

text \<open>
  C28: as long as fewer than \<open>2 ^ 32\<close> packets have been sent, a sweep at time \<open>now\<close> invokes the
  timeout callback for exactly the pending requests whose deadline is not after \<open>now\<close>, each
  once: no request is reported early, late or twice.
\<close>

theorem client_sweep_exact:
  assumes "allowed Client_ok (Client_step h) (Client_configured r w t i b p m k) es"
    and "run (Client_step h) (Client_configured r w t i b p m k) es = (c, os)"
    and "length (posts os) < 2 ^ 32" and "cl_onTimeout c \<noteq> None"
  shows "let fired = timeouts (snd (Client_step h c (SweepTimedOut None now))) in
      distinct fired \<and>
      set fired = {s. \<exists>d. map_of (rt_map (cl_responses c)) s = Some d \<and> d \<le> now}"
proof -
  have "timeouts (snd (Client_step h c (SweepTimedOut None now))) = snd (rt_sweep now (cl_responses c))"
    using assms(4) by (rule Client_sweep_timeouts)
  then show ?thesis
    using client_fresh [OF assms(1-3)] rt_sweep_distinct rt_sweep_exact by (simp only: Let_def)
qed

text \<open>A client with a response timeout of one second and callbacks that do nothing.\<close>

abbreviation timing_client :: client where
  "timing_client \<equiv> Client_configured 0 0 1000 [] None (Some (\<lambda>_ _ _ _. [])) (Some (\<lambda>_. [])) False"

abbreviation two_requests :: "client_event list" where
  "two_requests \<equiv> [DoCall (ApiSendRequest [7] 0), DoCall (ApiSendRequest [8] (milliseconds 500))]"

theorem client_sweep_exact_witness:
  "let c = fst (run (Client_step LittleEndian) timing_client two_requests);
       fired = timeouts (snd (Client_step LittleEndian c (SweepTimedOut None (milliseconds 1200))))
   in fired = [1] \<and> distinct fired \<and>
      set fired = {s. \<exists>d. map_of (rt_map (cl_responses c)) s = Some d \<and> d \<le> milliseconds 1200}"
proof -
  let ?r = "run (Client_step LittleEndian) timing_client two_requests"
  have "allowed Client_ok (Client_step LittleEndian) timing_client two_requests" by code_simp
  moreover have "length (posts (snd ?r)) = 2" by code_simp
  moreover have "cl_onTimeout (fst ?r) \<noteq> None"
    by (simp add: Client_configured_defs Client_sendRequest_def Let_def)
  moreover have "timeouts (snd (Client_step LittleEndian (fst ?r) (SweepTimedOut None (milliseconds 1200)))) = [1]"
    by code_simp
  ultimately show ?thesis
    using client_sweep_exact [of LittleEndian 0 0 1000 "[]" None "Some (\<lambda>_ _ _ _. [])" "Some (\<lambda>_. [])" False
        two_requests "fst ?r" "snd ?r" "milliseconds 1200"]
    by (simp del: Client_step.simps run.simps fst_run_Cons snd_run_Cons)
qed

section \<open>A request stays pending until its deadline\<close>

text \<open>The second ledger: below \<open>2 ^ 32\<close> the request \<open>s\<close> is pending under the deadline \<open>d\<close>.\<close>

definition pend_acc :: "u32 \<Rightarrow> time \<Rightarrow> u32 \<Rightarrow> rt_table \<Rightarrow> nat \<Rightarrow> bool" where
  "pend_acc s d q t n \<longleftrightarrow> seq_acc q t n \<and> s \<in> seq_taken n \<and> (n < 2 ^ 32 \<longrightarrow> map_of (rt_map t) s = Some d)"

interpretation pending: seq_ledger "pend_acc s d" for s d
proof
  fix q t n d'
  assume a: "pend_acc s d q t n"
  then show "pend_acc s d (q + 1) t (Suc n)"
    using seq_taken_Suc(1) [of n] by (auto simp: pend_acc_def seq_fresh.take_bind)
  have "s \<noteq> q" if "Suc n < 2 ^ 32"
    using seq_taken_new [OF that] a by (auto simp: pend_acc_def seq_acc_def)
  with a show "pend_acc s d (q + 1) (rt_insert q d' t) (Suc n)"
    using seq_taken_Suc(1) [of n] by (auto simp: pend_acc_def seq_fresh.take_request)
qed

lemma pend_acc_cancel: "pend_acc s d q t n \<Longrightarrow> s' \<noteq> s \<Longrightarrow> pend_acc s d q (rt_cancel s' t) n"
  using seq_acc_cancel [of q t n s'] by (auto simp: pend_acc_def) (simp add: rt_cancel_def delete_conv')

lemma pend_acc_sweep:
  assumes "pend_acc s d q t n" and "now < d"
  shows "pend_acc s d q (fst (rt_sweep now t)) n"
proof -
  have "map_of (rt_map (fst (rt_sweep now t))) s = Some d" if "n < 2 ^ 32"
  proof -
    have t: "rt_inv t" "rt_fresh t" "map_of (rt_map t) s = Some d"
      using assms(1) that by (simp_all add: pend_acc_def seq_acc_def)
    then show ?thesis
      using rt_due_fresh [OF t, of now] assms(2) by (simp add: rt_sweep_map restrict_map_def)
  qed
  with assms(1) show ?thesis by (simp add: pend_acc_def seq_acc_sweep)
qed

text \<open>Runs that neither cancel the request nor sweep at or after its deadline.\<close>

definition waits_for :: "u32 \<Rightarrow> time \<Rightarrow> client \<Rightarrow> client_event \<Rightarrow> bool" where
  "waits_for s d c e \<longleftrightarrow> Client_ok c e \<and> e \<noteq> DoCancelResponse s
     \<and> (\<forall>now. e = SweepTimedOut None now \<longrightarrow> now < d)"

definition pend_inv :: "u32 \<Rightarrow> time \<Rightarrow> client \<Rightarrow> client_effect list \<Rightarrow> bool" where
  "pend_inv s d c os \<longleftrightarrow> (\<exists>n \<le> length (posts os). pend_acc s d (cl_sequenceCounter c) (cl_responses c) n)"

interpretation client_pending: traced_machine "Client_step h" "waits_for s d" "pend_inv s d" for h s d
proof
  fix c os e
  assume "pend_inv s d c os" and ok: "waits_for s d c e"
  then obtain n where "n \<le> length (posts os)" and n: "pend_acc s d (cl_sequenceCounter c) (cl_responses c) n"
    by (auto simp: pend_inv_def)
  moreover have "pend_acc s d (cl_sequenceCounter c) (rt_cancel s' (cl_responses c)) n"
    if "e = DoCancelResponse s'" for s'
    using that ok by (intro pend_acc_cancel [OF n]) (auto simp: waits_for_def)
  moreover have "pend_acc s d (cl_sequenceCounter c) (fst (rt_sweep now (cl_responses c))) n"
    if "e = SweepTimedOut None now" for now
    using that ok by (intro pend_acc_sweep [OF n]) (auto simp: waits_for_def)
  ultimately show "pend_inv s d (fst (Client_step h c e)) (os @ snd (Client_step h c e))"
    using pending.step_counts [of s d c n e h]
    unfolding pend_inv_def posts_simps length_append by (meson add_le_mono1 order_trans)
qed

lemma pend_inv_request:
  assumes "seq_inv c os" and "0 < cl_responseTimeoutMs c"
    and "s = cl_sequenceCounter c" and "d = now + milliseconds (cl_responseTimeoutMs c)"
    and "Client_step h c (DoCall (ApiSendRequest data now)) = (c', os')"
  shows "pend_inv s d c' (os @ os')"
proof -
  obtain n where n: "n \<le> length (posts os)" "seq_acc s (cl_responses c) n"
    using assms(1,3) by (auto simp: seq_inv_def)
  have "seq_acc (s + 1) (rt_insert s d (cl_responses c)) (Suc n)"
    using n(2) by (rule seq_fresh.take_request)
  moreover have "s \<in> seq_taken (Suc n)"
    using n(2) seq_taken_Suc(2) [of n] by (simp add: seq_acc_def)
  ultimately have "pend_acc s d (s + 1) (rt_insert s d (cl_responses c)) (Suc n)"
    by (simp add: pend_acc_def)
  moreover have "cl_sequenceCounter c' = s + 1" "cl_responses c' = rt_insert s d (cl_responses c)"
    "length (posts os') = 1"
    using assms(2-5)
    by (auto simp: Client_sendRequest_def Client_sendPacket_def Client_startResponseTimer_def Let_def prod_eq_iff)
  ultimately show ?thesis
    using n(1) by (auto simp: pend_inv_def intro!: exI [of _ "Suc n"])
qed

text \<open>
  C29: a request sent at time \<open>t0\<close> is reported by the first sweep at or after \<open>t0\<close> plus the
  response timeout, whatever the client sends and receives in between (in particular if the
  response to it has been received), unless \<open>cancelResponseTimer\<close> is called for it; fewer than
  \<open>2 ^ 32\<close> packets are sent in the run.
\<close>

theorem client_request_reported:
  assumes "allowed Client_ok (Client_step h) (Client_configured r w t i b p m k) es"
    and "run (Client_step h) (Client_configured r w t i b p m k) es = (c, os)"
    and "0 < cl_responseTimeoutMs c" and "d = t0 + milliseconds (cl_responseTimeoutMs c)"
    and "Client_step h c (DoCall (ApiSendRequest data t0)) = (c1, os1)"
    and "allowed (waits_for (cl_sequenceCounter c) d) (Client_step h) c1 es'"
    and "run (Client_step h) c1 es' = (c2, os2)"
    and "length (posts (os @ os1 @ os2)) < 2 ^ 32" and "cl_onTimeout c2 \<noteq> None" and "d \<le> now"
  shows "CallTimeout (cl_sequenceCounter c) \<in> set (snd (Client_step h c2 (SweepTimedOut None now)))"
proof -
  let ?s = "cl_sequenceCounter c"
  have "seq_inv c os"
    using client_seq.run_tinv [OF seq_inv_configured assms(1)] assms(2) by simp
  from pend_inv_request [OF this assms(3) refl assms(4,5)] have "pend_inv ?s d c1 (os @ os1)" .
  from client_pending.run_tinv [OF this assms(6)] assms(7)
  have "pend_inv ?s d c2 (os @ os1 @ os2)" by simp
  with assms(8) have c2: "rt_inv (cl_responses c2)" "rt_fresh (cl_responses c2)"
    "map_of (rt_map (cl_responses c2)) ?s = Some d"
    by (auto simp: pend_inv_def pend_acc_def seq_acc_def)
  then have "?s \<in> set (timeouts (snd (Client_step h c2 (SweepTimedOut None now))))"
    unfolding Client_sweep_timeouts [OF assms(9)] using rt_sweep_exact assms(10) by blast
  moreover have "timeout_call x = Some q \<Longrightarrow> x = CallTimeout q" for x q
    by (cases x) simp_all
  ultimately show ?thesis
    unfolding timeouts_def List.map_filter_def by (auto simp del: Client_step.simps)
qed

theorem client_request_reported_witness:
  "let (c1, os1) = Client_step LittleEndian timing_client (DoCall (ApiSendRequest [7] 0));
       (c2, os2) = run (Client_step LittleEndian) c1 [RunPosted, DoCall (ApiSendRequest [8] 5)]
   in CallTimeout 1 \<in> set (snd (Client_step LittleEndian c2 (SweepTimedOut None (milliseconds 1000))))"
proof -
  let ?s = "Client_step LittleEndian" and ?es = "[RunPosted, DoCall (ApiSendRequest [8] 5)]"
  let ?r1 = "?s timing_client (DoCall (ApiSendRequest [7] 0))"
  let ?r2 = "run ?s (fst ?r1) ?es"
  have init: "cl_responseTimeoutMs timing_client = 1000" "cl_sequenceCounter timing_client = 1"
    by (simp_all add: Client_configured_defs)
  have "allowed Client_ok ?s timing_client []" "run ?s timing_client [] = (timing_client, [])" by simp_all
  moreover have "allowed (waits_for (cl_sequenceCounter timing_client) (milliseconds 1000)) ?s (fst ?r1) ?es"
    by (simp add: waits_for_def Client_configured_defs Client_sendRequest_def Let_def)
  moreover have "length (posts ([] @ snd ?r1 @ snd ?r2)) = 2" by code_simp
  moreover have "cl_onTimeout (fst ?r2) \<noteq> None"
    by (simp add: Client_configured_defs Client_sendRequest_def Client_enqueue_def Client_doWrite_def Let_def)
  ultimately show ?thesis
    using client_request_reported [of LittleEndian 0 0 1000 "[]" None "Some (\<lambda>_ _ _ _. [])" "Some (\<lambda>_. [])" False
        "[]" timing_client "[]" "milliseconds 1000" 0 "[7]" "fst ?r1" "snd ?r1" ?es "fst ?r2" "snd ?r2"
        "milliseconds 1000"] init
    by (simp add: case_prod_beta del: Client_step.simps run.simps fst_run_Cons snd_run_Cons)
qed

text \<open>Receiving a packet with a callback that makes no calls leaves the pending requests alone.\<close>

lemma Client_packet_received:
  assumes "cl_reading c = Some RdHeader" and "length (cl_headerBuf c) = 10"
    and "cl_onPacket c = Some (\<lambda>_ _ _ _. [])" and "pid \<noteq> 0x81"
    and wf: "wf_frame \<lparr>f_pid = pid, f_status = st, f_seq = sq, f_body = body\<rparr>"
    and es: "es = [HeaderRead None (frame_header (of_nat (10 + length body)) pid st sq), BodyRead None body]"
  shows "allowed Client_ok (Client_step h) c es"
    and "CallPacket pid st sq body \<in> set (snd (run (Client_step h) c es))"
    and "cl_responses (fst (run (Client_step h) c es)) = cl_responses c"
    and "cl_onTimeout (fst (run (Client_step h) c es)) = cl_onTimeout c"
proof -
  let ?hdr = "frame_header (of_nat (10 + length body)) pid st sq"
  define c1 where "c1 = fst (Client_step h c (HeaderRead None ?hdr))"
  have len: "unat (of_nat (10 + length body) - 10 :: u32) = length body"
    using wf_frame_body [OF wf] by simp
  have ge: "(10 :: u32) \<le> of_nat (10 + length body)"
    using wf_frame_total [OF wf] by (simp add: word_le_nat_alt)
  have c1: "cl_reading c1 = Some (RdBody (length body))" "length (cl_bodyBuf c1) = length body"
    "cl_lastPacketId c1 = pid" "cl_lastStatus c1 = st" "cl_lastSequence c1 = sq"
    "cl_onPacket c1 = Some (\<lambda>_ _ _ _. [])" "cl_responses c1 = cl_responses c" "cl_onTimeout c1 = cl_onTimeout c"
    unfolding c1_def using assms(1-3) len ge
    by (simp_all add: Client_onReadHeader_def Client_doReadBody_def Let_def)
  show "allowed Client_ok (Client_step h) c es"
    unfolding es allowed.simps c1_def [symmetric] using c1 assms(1) by simp
  show "CallPacket pid st sq body \<in> set (snd (run (Client_step h) c es))"
    "cl_responses (fst (run (Client_step h) c es)) = cl_responses c"
    "cl_onTimeout (fst (run (Client_step h) c es)) = cl_onTimeout c"
    unfolding es fst_run_Cons snd_run_Cons c1_def [symmetric] using c1 assms(4)
    by (simp_all add: Client_onReadBody_def Client_doReadHeader_def Client_callback_def Let_def)
qed

text \<open>
  A request is answered before its deadline, its response reaches the packet callback, and
  no other request is sent; yet the next sweep at the deadline reports the request as timed out.
  No code path calls \<open>cancelResponseTimer\<close>.
\<close>

theorem client_answered_request_times_out:
  assumes "0 < t" and "wf_frame \<lparr>f_pid = 0x82, f_status = st, f_seq = 1, f_body = body\<rparr>"
  shows "let c0 = Client_configured r w t [] b (Some (\<lambda>_ _ _ _. [])) (Some (\<lambda>_. [])) k;
      request = [DoConnect host port tm None True, ConnectDone None, DoCall (ApiSendRequest d 0)];
      response = [HeaderRead None (frame_header (of_nat (10 + length body)) 0x82 st 1), BodyRead None body];
      (c, os) = run (Client_step h) c0 (request @ response)
    in allowed Client_ok (Client_step h) c0 (request @ response) \<and> CallPacket 0x82 st 1 body \<in> set os \<and>
       timeouts (snd (Client_step h c (SweepTimedOut None (milliseconds t)))) = [1]"
proof -
  let ?c0 = "Client_configured r w t [] b (Some (\<lambda>_ _ _ _. [])) (Some (\<lambda>_. [])) k"
  let ?es1 = "[DoConnect host port tm None True, ConnectDone None, DoCall (ApiSendRequest d 0)]"
  let ?es2 = "[HeaderRead None (frame_header (of_nat (10 + length body)) 0x82 st 1), BodyRead None body]"
  define c1 where "c1 = fst (run (Client_step h) ?c0 ?es1)"
  have c1: "cl_reading c1 = Some RdHeader" "length (cl_headerBuf c1) = 10"
    "cl_onPacket c1 = Some (\<lambda>_ _ _ _. [])" "cl_onTimeout c1 = Some (\<lambda>_. [])"
    "cl_responses c1 = rt_insert 1 (milliseconds t) rt_empty"
    unfolding c1_def using assms(1)
    by (simp_all add: Client_configured_defs Client_connect_def Client_onConnect_def Client_doReadHeader_def
        Client_callback_def Client_sendRequest_def Let_def)
  have ok1: "allowed Client_ok (Client_step h) ?c0 ?es1"
    by (simp add: Client_configured_defs Client_connect_def)
  have "(0x82 :: u8) \<noteq> 0x81" by simp
  note packet = Client_packet_received [OF c1(1-3) this assms(2) refl, of h]
  define c2 where "c2 = fst (run (Client_step h) c1 ?es2)"
  have c2: "cl_responses c2 = rt_insert 1 (milliseconds t) rt_empty" "cl_onTimeout c2 \<noteq> None"
    unfolding c2_def using packet(3,4) c1(4,5) by simp_all
  have "snd (rt_sweep (milliseconds t) (rt_insert 1 (milliseconds t) rt_empty)) = [1]"
    by (simp add: rt_sweep_eq rt_insert_def rt_empty_def pq_push_def Let_def)
  with c2 have "timeouts (snd (Client_step h c2 (SweepTimedOut None (milliseconds t)))) = [1]"
    using Client_sweep_timeouts by metis
  moreover have "allowed Client_ok (Client_step h) ?c0 (?es1 @ ?es2)"
    unfolding allowed_append c1_def [symmetric] using ok1 packet(1) by blast
  ultimately show ?thesis
    using packet(2)
    unfolding Let_def run_append case_prod_beta fst_conv snd_conv c1_def [symmetric] c2_def [symmetric]
    by simp
qed

theorem client_answered_request_times_out_witness:
  "let c0 = timing_client;
       request = [DoConnect ''h'' 1 0 None True, ConnectDone None, DoCall (ApiSendRequest [7] 0)];
       response = [HeaderRead None (frame_header 12 0x82 0 1), BodyRead None [1, 2]];
       (c, os) = run (Client_step LittleEndian) c0 (request @ response)
   in CallPacket 0x82 0 1 [1, 2] \<in> set os \<and>
      timeouts (snd (Client_step LittleEndian c (SweepTimedOut None (milliseconds 1000)))) = [1]"
proof -
  have "wf_frame \<lparr>f_pid = 0x82, f_status = 0, f_seq = 1, f_body = [1, 2]\<rparr>"
    by (simp add: wf_frame_def)
  from client_answered_request_times_out
      [OF _ this, of 1000 0 0 None False "''h''" 1 0 "[7]" LittleEndian]
  show ?thesis
    by (simp add: Let_def case_prod_beta del: Client_step.simps run.simps fst_run_Cons snd_run_Cons)
qed

end
