(* ===== verification/Gateway.thy ===== *)
theory Gateway
  imports Apps TurboClientTimers
begin

text \<open>
  \<open>gateway.cpp\<close>: a server for producers and a client of a processor. A request of a producer is
  sent downstream under a new sequence number; \<open>pendingMap\<close> remembers, under the producer's
  sequence number, the downstream number and the session to answer. A reply from downstream is
  routed back by searching the map for its number.

  The abstract specification maps each outstanding downstream number to the session and the
  producer's number. The gateway implements it as long as no two outstanding requests have the
  same producer number; if they do, the second one is never answered.
\<close>

section \<open>The gateway\<close>

text \<open>\<open>Pending\<close>: the downstream number and the \<open>respond\<close> callback, which names a session.\<close>

record pending =
  pd_downstreamSeq :: u32
  pd_respond :: nat

record gateway =
  gw_client :: client
  gw_pendingMap :: "(u32, pending) umap"

datatype gateway_effect =
    GwClient client_effect
  | GwRespond nat reply
  | GwUnexpected u32

type_synonym gateway_proc = "(gateway, gateway_effect) proc"

definition gateway_client :: client where
  "gateway_client = Client_new 5000 5000 10000"

definition gateway_new :: gateway where
  "gateway_new = \<lparr>gw_client = gateway_client, gw_pendingMap = []\<rparr>"

text \<open>
  The request handler: forwarding and stashing are two statements, with a downstream reply
  possibly handled in between.
\<close>

definition gw_forward :: "endian \<Rightarrow> bytes \<Rightarrow> time \<Rightarrow> gateway \<Rightarrow> u32 \<times> gateway \<times> gateway_effect list" where
  "gw_forward h body now g =
     (let (dseq, c, os) = Client_sendRequest h body now (gw_client g)
      in (dseq, g\<lparr>gw_client := c\<rparr>, map GwClient os))"

definition gw_stash :: "u32 \<Rightarrow> u32 \<Rightarrow> nat \<Rightarrow> gateway \<Rightarrow> gateway" where
  "gw_stash sq dseq i g =
     g\<lparr>gw_pendingMap := emplace sq \<lparr>pd_downstreamSeq = dseq, pd_respond = i\<rparr> (gw_pendingMap g)\<rparr>"

definition gw_onRequest :: "endian \<Rightarrow> time \<Rightarrow> nat \<Rightarrow> u8 \<Rightarrow> u8 \<Rightarrow> u32 \<Rightarrow> bytes \<Rightarrow> gateway_proc" where
  "gw_onRequest h now i pid status sq body g =
     (if pid = 0x02
      then (let (dseq, g', os) = gw_forward h body now g in (gw_stash sq dseq i g', os))
      else (g, [GwRespond i (pid, status, sq, body)]))"

text \<open>The packet handler of the downstream client.\<close>

definition gw_onReply :: "u8 \<Rightarrow> u8 \<Rightarrow> u32 \<Rightarrow> bytes \<Rightarrow> gateway_proc" where
  "gw_onReply pid status dseq body g =
     (case List.find (\<lambda>(origSeq, p). pd_downstreamSeq p = dseq) (gw_pendingMap g) of
        Some (origSeq, p) \<Rightarrow>
          (g\<lparr>gw_pendingMap := AList.delete origSeq (gw_pendingMap g)\<rparr>,
           [GwRespond (pd_respond p) (pid, status, origSeq, body)])
      | None \<Rightarrow> (g, [GwUnexpected dseq]))"

datatype gateway_event =
    GwRequest time nat u8 u8 u32 bytes
  | GwReply u8 u8 u32 bytes

fun Gateway_step :: "endian \<Rightarrow> gateway \<Rightarrow> gateway_event \<Rightarrow> gateway \<times> gateway_effect list" where
  "Gateway_step h g (GwRequest now i pid st sq body) = gw_onRequest h now i pid st sq body g"
| "Gateway_step h g (GwReply pid st dseq body) = gw_onReply pid st dseq body g"

section \<open>The specification\<close>

text \<open>
  The next downstream number, and the outstanding requests: downstream number to session and
  producer's number.
\<close>

type_synonym routes = "nat \<times> (u32 \<rightharpoonup> nat \<times> u32)"

fun route_spec :: "routes \<Rightarrow> gateway_event \<Rightarrow> routes \<times> gateway_effect list" where
  "route_spec (n, m) (GwRequest now i pid st sq body) =
     (if pid = 0x02 then ((Suc n, m(of_nat n \<mapsto> (i, sq))), [])
      else ((n, m), [GwRespond i (pid, st, sq, body)]))"
| "route_spec (n, m) (GwReply pid st dseq body) =
     (case m dseq of
        Some (i, sq) \<Rightarrow> ((n, m(dseq := None)), [GwRespond i (pid, st, sq, body)])
      | None \<Rightarrow> ((n, m), [GwUnexpected dseq]))"

text \<open>The effects other than those of the downstream client.\<close>

fun routed :: "gateway_effect \<Rightarrow> gateway_effect option" where
  "routed (GwClient x) = None"
| "routed y = Some y"

text \<open>
  Producers that do not reuse the number of an outstanding request, of their own or of another
  producer, and fewer than \<open>2 ^ 32\<close> requests.
\<close>

fun distinct_ok :: "routes \<Rightarrow> gateway_event \<Rightarrow> bool" where
  "distinct_ok (n, m) (GwRequest now i pid st sq body) =
     (pid = 0x02 \<longrightarrow> sq \<notin> snd ` ran m \<and> n < 2 ^ 32)"
| "distinct_ok (n, m) (GwReply pid st dseq body) = True"

definition gw_routes :: "(u32, pending) umap \<Rightarrow> (u32 \<rightharpoonup> nat \<times> u32)" where
  "gw_routes m = map_of (map (\<lambda>(sq, p). (pd_downstreamSeq p, (pd_respond p, sq))) m)"

text \<open>
  The simulation: the map is well formed, no downstream number occurs twice, all of them are
  below the next one.
\<close>

definition gw_sim :: "gateway \<Rightarrow> routes \<Rightarrow> bool" where
  "gw_sim g r \<longleftrightarrow> umap_inv (gw_pendingMap g) \<and> gw_routes (gw_pendingMap g) = snd r
     \<and> distinct (map (pd_downstreamSeq \<circ> snd) (gw_pendingMap g))
     \<and> (pd_downstreamSeq \<circ> snd) ` set (gw_pendingMap g) \<subseteq> of_nat ` {1..<fst r}
     \<and> cl_sequenceCounter (gw_client g) = of_nat (fst r) \<and> 1 \<le> fst r"

lemma gw_routes_find:
  "gw_routes m d = map_option (\<lambda>(sq, p). (pd_respond p, sq)) (List.find (\<lambda>(sq, p). pd_downstreamSeq p = d) m)"
  by (induction m) (auto simp: gw_routes_def)

lemma find_in_set: "List.find P xs = Some x \<Longrightarrow> x \<in> set xs \<and> P x"
  by (auto simp: find_Some_iff)

lemma gw_routes_delete:
  assumes "umap_inv m" and "distinct (map (pd_downstreamSeq \<circ> snd) m)" and "(sq, p) \<in> set m"
  shows "gw_routes (AList.delete sq m) = (gw_routes m)(pd_downstreamSeq p := None)"
  using assms
proof (induction m)
  case (Cons x m)
  obtain s q where x: "x = (s, q)" by (rule prod.exhaust)
  show ?case
  proof (cases "s = sq")
    case True
    with Cons.prems x have p: "q = p" and "sq \<notin> fst ` set m"
      by (auto simp: umap_inv_def rev_image_eqI)
    then have "AList.delete sq m = m" by (simp add: delete_idem)
    moreover have "gw_routes m (pd_downstreamSeq p) = None"
      using Cons.prems x p by (auto simp: gw_routes_def map_of_eq_None_iff image_image case_prod_beta)
    ultimately show ?thesis using True x p by (auto simp: gw_routes_def fun_eq_iff)
  next
    case False
    with Cons.prems x have in_m: "(sq, p) \<in> set m" by auto
    then have "pd_downstreamSeq q \<noteq> pd_downstreamSeq p"
      using Cons.prems x by force
    moreover have "gw_routes (AList.delete sq m) = (gw_routes m)(pd_downstreamSeq p := None)"
      using Cons.prems by (intro Cons.IH [OF _ _ in_m]) (simp_all add: umap_inv_def)
    ultimately show ?thesis using False x by (auto simp: gw_routes_def fun_eq_iff)
  qed
qed simp

lemma gw_sim_reply:
  assumes sim: "gw_sim g r"
  shows "gw_sim (fst (gw_onReply pid st d body g)) (fst (route_spec r (GwReply pid st d body)))"
    and "snd (gw_onReply pid st d body g) = snd (route_spec r (GwReply pid st d body))"
proof -
  obtain n m where r: "r = (n, m)" by (rule prod.exhaust)
  have m: "m d = map_option (\<lambda>(sq, p). (pd_respond p, sq))
      (List.find (\<lambda>(sq, p). pd_downstreamSeq p = d) (gw_pendingMap g))"
    using sim r gw_routes_find [of "gw_pendingMap g" d] by (simp add: gw_sim_def)
  have "gw_sim (fst (gw_onReply pid st d body g)) (fst (route_spec r (GwReply pid st d body)))
      \<and> snd (gw_onReply pid st d body g) = snd (route_spec r (GwReply pid st d body))"
  proof (cases "List.find (\<lambda>(sq, p). pd_downstreamSeq p = d) (gw_pendingMap g)")
    case None
    with m r sim show ?thesis by (simp add: gw_onReply_def)
  next
    case (Some x)
    obtain sq p where x: "x = (sq, p)" by (rule prod.exhaust)
    with find_in_set [OF Some] have p: "(sq, p) \<in> set (gw_pendingMap g)" "pd_downstreamSeq p = d" by auto
    have "gw_sim (g\<lparr>gw_pendingMap := AList.delete sq (gw_pendingMap g)\<rparr>) (n, m(d := None))"
      using sim r gw_routes_delete [OF _ _ p(1)] p(2) umap.inv_del [of "gw_pendingMap g" sq]
      by (auto simp: gw_sim_def distinct_map_filter) (auto simp: AList.delete_eq distinct_map_filter)
    with Some x m r show ?thesis by (simp add: gw_onReply_def)
  qed
  then show "gw_sim (fst (gw_onReply pid st d body g)) (fst (route_spec r (GwReply pid st d body)))"
    and "snd (gw_onReply pid st d body g) = snd (route_spec r (GwReply pid st d body))"
    by simp_all
qed

lemma gw_routes_ran:
  assumes "distinct (map (pd_downstreamSeq \<circ> snd) m)"
  shows "snd ` ran (gw_routes m) = fst ` set m"
proof -
  have "distinct (map fst (map (\<lambda>(sq, p). (pd_downstreamSeq p, (pd_respond p, sq))) m))"
    using assms by (simp add: case_prod_beta comp_def)
  from ran_distinct [OF this] show ?thesis
    by (force simp: gw_routes_def image_image case_prod_beta)
qed

lemma gw_routes_append:
  "gw_routes m (pd_downstreamSeq p) = None \<Longrightarrow>
     gw_routes (m @ [(sq, p)]) = (gw_routes m)(pd_downstreamSeq p \<mapsto> (pd_respond p, sq))"
  by (auto simp: gw_routes_def map_add_def fun_eq_iff split: option.splits)

lemma gw_onRequest_forward:
  "gw_onRequest h now i 0x02 st sq body g =
     (gw_stash sq (cl_sequenceCounter (gw_client g)) i
        (g\<lparr>gw_client := fst (snd (Client_sendRequest h body now (gw_client g)))\<rparr>),
      map GwClient (snd (snd (Client_sendRequest h body now (gw_client g)))))"
  by (simp add: gw_onRequest_def gw_forward_def case_prod_beta Let_def Client_sendRequest_def)

lemma Client_sendRequest_counter:
  "cl_sequenceCounter (fst (snd (Client_sendRequest h body now c))) = cl_sequenceCounter c + 1"
  by (simp add: Client_sendRequest_def Let_def)

lemma of_nat_fresh:
  assumes "n < 2 ^ 32"
  shows "(of_nat n :: u32) \<notin> of_nat ` {1..<n}"
proof
  assume "(of_nat n :: u32) \<in> of_nat ` {1..<n}"
  then obtain k where "k < n" "(of_nat n :: u32) = of_nat k" by auto
  then have "unat (of_nat n :: u32) = unat (of_nat k :: u32)" by metis
  with \<open>k < n\<close> assms show False by (simp add: unat_of_nat)
qed

lemma routed_GwClient [simp]: "List.map_filter routed (map GwClient os) = []"
  by (induction os) (simp_all add: List.map_filter_def)

lemma gw_sim_request:
  assumes sim: "gw_sim g r" and ok: "distinct_ok r (GwRequest now i 0x02 st sq body)"
  shows "gw_sim (fst (gw_onRequest h now i 0x02 st sq body g)) (fst (route_spec r (GwRequest now i 0x02 st sq body)))"
proof -
  obtain n m where r: "r = (n, m)" by (rule prod.exhaust)
  let ?p = "\<lparr>pd_downstreamSeq = of_nat n, pd_respond = i\<rparr>" and ?pm = "gw_pendingMap g"
  have s: "umap_inv ?pm" "gw_routes ?pm = m" "distinct (map (pd_downstreamSeq \<circ> snd) ?pm)"
    "(pd_downstreamSeq \<circ> snd) ` set ?pm \<subseteq> of_nat ` {1..<n}" "cl_sequenceCounter (gw_client g) = of_nat n" "1 \<le> n"
    using sim by (simp_all add: gw_sim_def r)
  have new: "map_of ?pm sq = None" "n < 2 ^ 32"
    using ok gw_routes_ran [OF s(3)] by (auto simp: r s(2) map_of_eq_None_iff)
  have fresh: "of_nat n \<notin> (pd_downstreamSeq \<circ> snd) ` set ?pm"
    using of_nat_fresh [OF new(2)] s(4) by blast
  then have "m (of_nat n) = None"
    unfolding s(2) [symmetric] by (auto simp: gw_routes_def map_of_eq_None_iff image_image case_prod_beta)
  then have "gw_routes (?pm @ [(sq, ?p)]) = m(of_nat n \<mapsto> (i, sq))"
    using gw_routes_append [of ?pm ?p sq] s(2) by simp
  moreover have "emplace sq ?p ?pm = ?pm @ [(sq, ?p)]"
    using new(1) by (simp add: emplace_def)
  moreover have "of_nat ` {1..<n} \<subseteq> (of_nat ` {1..<Suc n} :: u32 set)" "of_nat n \<in> (of_nat ` {1..<Suc n} :: u32 set)"
    using s(6) by auto
  ultimately show ?thesis
    using s fresh umap_inv_emplace [OF s(1), of sq ?p]
    by (auto simp: gw_onRequest_forward gw_sim_def gw_stash_def r Client_sendRequest_counter)
qed

lemma gw_sim_step:
  assumes "gw_sim g r" and "distinct_ok r e"
  shows "gw_sim (fst (Gateway_step h g e)) (fst (route_spec r e)) \<and>
    List.map_filter routed (snd (Gateway_step h g e)) = snd (route_spec r e)"
proof (cases e)
  case (GwRequest now i pid st sq body)
  show ?thesis
  proof (cases "pid = 0x02")
    case True
    with GwRequest assms gw_sim_request [of g r now i st sq body h] show ?thesis
      by (cases r) (simp add: gw_onRequest_forward)
  next
    case False
    with GwRequest assms show ?thesis
      by (cases r) (simp add: gw_onRequest_def List.map_filter_def)
  qed
next
  case (GwReply pid st d body)
  have "List.map_filter routed (snd (gw_onReply pid st d body g)) = snd (gw_onReply pid st d body g)"
    by (auto simp: gw_onReply_def List.map_filter_def split: option.split)
  with GwReply gw_sim_reply [OF assms(1), of pid st d body] show ?thesis by simp
qed

interpretation gateway_routes: simulation "Gateway_step h" route_spec gw_sim distinct_ok routed for h
  by unfold_locales (rule gw_sim_step)

lemma gw_sim_new: "gw_sim gateway_new (1, Map.empty)"
  by (simp add: gw_sim_def gateway_new_def gateway_client_def Client_new_def umap_inv_def gw_routes_def)

text \<open>
  The gateway implements the routing specification for every interleaving of requests and
  replies in which no producer number is used for two outstanding requests: every reply from
  downstream goes to the session whose request was sent under that downstream number, with the
  number that session had used, exactly once; other packets are echoed.
\<close>

theorem gateway_refines_routes:
  assumes "allowed distinct_ok route_spec (1, Map.empty) es"
  shows "List.map_filter routed (snd (run (Gateway_step h) gateway_new es)) = snd (run route_spec (1, Map.empty) es)"
  using gateway_routes.run_sim [OF gw_sim_new assms] by blast

theorem gateway_refines_routes_witness:
  "List.map_filter routed (snd (run (Gateway_step LittleEndian) gateway_new
      [GwRequest 0 5 2 0 40 [1], GwRequest 0 6 2 0 41 [2], GwReply 0x82 0 2 [3], GwReply 0x82 0 1 [4], GwReply 0x82 0 1 [4]]))
   = [GwRespond 6 (0x82, 0, 41, [3]), GwRespond 5 (0x82, 0, 40, [4]), GwUnexpected 1]"
proof -
  let ?es = "[GwRequest 0 5 2 0 40 [1], GwRequest 0 6 2 0 41 [2], GwReply 0x82 0 2 [3], GwReply 0x82 0 1 [4],
    GwReply 0x82 0 1 [4]]"
  have "allowed distinct_ok route_spec (1, Map.empty) ?es" by (auto simp: ran_def)
  from gateway_refines_routes [OF this, of LittleEndian] show ?thesis by simp
qed

section \<open>Where the gateway goes wrong\<close>

text \<open>
  Two producers use the same sequence number at the same time, as clients of the library do,
  which all count from 1. The second request is forwarded but not remembered; the reply to it is
  reported as unexpected, and its producer is never answered.
\<close>

theorem gateway_collision:
  "List.map_filter routed (snd (run (Gateway_step h) gateway_new
      [GwRequest t1 i 2 st1 sq b1, GwRequest t2 j 2 st2 sq b2, GwReply p2 s2 2 r2, GwReply p1 s1 1 r1]))
   = [GwUnexpected 2, GwRespond i (p1, s1, sq, r1)]"
  by (simp add: gw_onRequest_forward gw_onReply_def gw_stash_def gateway_new_def gateway_client_def Client_new_def
      Client_sendRequest_def Let_def emplace_def List.map_filter_def)

text \<open>
  A reply that is handled between forwarding a request and stashing it finds nothing: it is
  reported as unexpected, and the request, stashed afterwards, stays in the map.
\<close>

theorem gateway_reply_race:
  "let (dseq, g1, _) = gw_forward h body now gateway_new;
       (g2, out) = gw_onReply 0x82 st dseq reply g1;
       g3 = gw_stash sq dseq i g2
   in out = [GwUnexpected dseq] \<and> map_of (gw_pendingMap g3) sq = Some \<lparr>pd_downstreamSeq = dseq, pd_respond = i\<rparr>"
  by (simp add: gw_forward_def gw_onReply_def gw_stash_def gateway_new_def case_prod_beta Let_def emplace_def)

text \<open>
  The gateway never binds downstream: it sets no client id, so its client posts nothing when
  it has connected. A server that requires authentication ignores whatever it sends afterwards.
\<close>

theorem gateway_never_binds:
  "posts (snd (run (Client_step h) gateway_client [DoConnect host port tm (Some (\<lambda>ec. [])) True, ConnectDone None])) = []
   \<and> cl_strand (fst (run (Client_step h) gateway_client [DoConnect host port tm (Some (\<lambda>ec. [])) True, ConnectDone None])) = []"
  by (simp add: gateway_client_def Client_new_def Client_connect_def Client_onConnect_def Client_doReadHeader_def
      Client_callback_def Client_timer_defs)

end
