(* ===== verification/GatewayProgram.thy ===== *)
theory GatewayProgram
  imports Gateway
begin

text \<open>
  \<open>gateway.cpp\<close> as a program: a \<open>TurboNetServer\<close> for the producers and a \<open>TurboNetClient\<close> for the
  downstream server, each with its own events, joined by the two callbacks of \<open>Gateway\<close>. A request
  that the server hands to its callback goes to \<open>gw_onRequest\<close>, a packet that the client hands to its
  callback goes to \<open>gw_onReply\<close>, and what that answers is written to the session by \<open>respond\<close>. The
  callbacks are atomic here; the race between them is a theorem of \<open>Gateway\<close>.
\<close>

section \<open>The program\<close>

record gateway_program =
  gp_server :: server
  gp_gateway :: gateway

datatype program_effect = OfServer server_effect | OfClient client_effect | OfUnexpected u32

definition gateway_auth :: auth_handler where
  "gateway_auth clientId = True"

text \<open>What the request callback answers before it returns: packets other than requests are echoed.\<close>

definition gateway_handler :: request_handler where
  "gateway_handler pid status sq body = (if pid = 0x02 then [] else [(pid, status, sq, body)])"

text \<open>
  \<open>main\<close> up to the point where it waits for Enter. The connect callback only prints. If the
  downstream host cannot be resolved, \<open>connect\<close> throws and \<open>main\<close> does not catch it.
\<close>

definition gateway_main :: "bool \<Rightarrow> (gateway_program \<times> program_effect list) option" where
  "gateway_main resolved =
     (if \<not> resolved then None
      else (let (c, oc) = Client_connect ''127.0.0.1'' 9000 3000 (Some (\<lambda>ec. [])) resolved gateway_client;
                c = Client_setPacketHandler (Some (\<lambda>pid status dseq body. [])) c;
                (sv, os) = seqs [Server_setAuthHandler (Some gateway_auth), Server_start (Some gateway_handler)] (Server_new 50)
            in Some (\<lparr>gp_server = sv, gp_gateway = gateway_new\<lparr>gw_client := c\<rparr>\<rparr>, map OfClient oc @ map OfServer os)))"

text \<open>The calls of the callbacks among the effects of the server and of the client.\<close>

fun gw_request :: "time \<Rightarrow> server_effect \<Rightarrow> gateway_event option" where
  "gw_request now (SvRequest i pid status sq body) = Some (GwRequest now i pid status sq body)"
| "gw_request now _ = None"

fun gw_reply :: "client_effect \<Rightarrow> gateway_event option" where
  "gw_reply (CallPacket pid status dseq body) = Some (GwReply pid status dseq body)"
| "gw_reply _ = None"

fun gw_client_effect :: "gateway_effect \<Rightarrow> client_effect option" where
  "gw_client_effect (GwClient x) = Some x"
| "gw_client_effect _ = None"

fun gw_respond :: "gateway_effect \<Rightarrow> (nat \<times> reply) option" where
  "gw_respond (GwRespond i r) = Some (i, r)"
| "gw_respond _ = None"

fun gw_unexpected :: "gateway_effect \<Rightarrow> u32 option" where
  "gw_unexpected (GwUnexpected dseq) = Some dseq"
| "gw_unexpected _ = None"

definition Program_server :: "endian \<Rightarrow> server_event \<Rightarrow> time \<Rightarrow> (gateway_program, program_effect) proc" where
  "Program_server h ev now s =
     (let (sv, os) = Server_step h (gp_server s) ev;
          (g, og) = run (Gateway_step h) (gp_gateway s) (List.map_filter (gw_request now) os)
      in (\<lparr>gp_server = sv, gp_gateway = g\<rparr>, map OfServer os @ map OfClient (List.map_filter gw_client_effect og)))"

definition Program_client :: "endian \<Rightarrow> client_event \<Rightarrow> (gateway_program, program_effect) proc" where
  "Program_client h ev s =
     (let (c, oc) = Client_step h (gw_client (gp_gateway s)) ev;
          (g, og) = run (Gateway_step h) ((gp_gateway s)\<lparr>gw_client := c\<rparr>) (List.map_filter gw_reply oc);
          (sv, os) = seqs (map (\<lambda>(i, r). Session_respond h i r) (List.map_filter gw_respond og)) (gp_server s)
      in (\<lparr>gp_server = sv, gp_gateway = g\<rparr>,
          map OfClient oc @ map OfServer os @ map OfUnexpected (List.map_filter gw_unexpected og)))"

text \<open>The end of \<open>main\<close>, when the user has pressed Enter.\<close>

definition gateway_exit :: "(gateway_program, program_effect) proc" where
  "gateway_exit s =
     (let (sv, os) = Server_stop (gp_server s); (c, oc) = Client_close (gw_client (gp_gateway s))
      in (\<lparr>gp_server = sv, gp_gateway = (gp_gateway s)\<lparr>gw_client := c\<rparr>\<rparr>, map OfServer os @ map OfClient oc))"

datatype program_event = AtServer server_event time | AtClient client_event | AtExit

fun Program_step :: "endian \<Rightarrow> gateway_program \<Rightarrow> program_event \<Rightarrow> gateway_program \<times> program_effect list" where
  "Program_step h s (AtServer ev now) = Program_server h ev now s"
| "Program_step h s (AtClient ev) = Program_client h ev s"
| "Program_step h s AtExit = gateway_exit s"

text \<open>
  The events of the two sides that come from outside: connections, reads, writes and timers. The
  calls into them are made by the program.
\<close>

fun server_driven :: "server_event \<Rightarrow> bool" where
  "server_driven (DoStart _) = False"
| "server_driven (DoSetAuth _) = False"
| "server_driven (DoSetMax _) = False"
| "server_driven DoStop = False"
| "server_driven (SRespond _ _) = False"
| "server_driven _ = True"

fun client_driven :: "client_event \<Rightarrow> bool" where
  "client_driven (DoConnect _ _ _ _ _) = False"
| "client_driven (DoCall _) = False"
| "client_driven (DoCancelResponse _) = False"
| "client_driven _ = True"

fun Program_ok :: "gateway_program \<Rightarrow> program_event \<Rightarrow> bool" where
  "Program_ok s (AtServer ev now) = (Server_ok (gp_server s) ev \<and> server_driven ev)"
| "Program_ok s (AtClient ev) = (Client_ok (gw_client (gp_gateway s)) ev \<and> client_driven ev)"
| "Program_ok s AtExit = True"

section \<open>What the program should do\<close>

text \<open>The callbacks that a run has invoked, and what each side has done.\<close>

fun callback_of :: "program_effect \<Rightarrow> gateway_event option" where
  "callback_of (OfServer x) = gw_request 0 x"
| "callback_of (OfClient x) = gw_reply x"
| "callback_of (OfUnexpected d) = None"

fun of_server :: "program_effect \<Rightarrow> server_effect option" where
  "of_server (OfServer x) = Some x"
| "of_server _ = None"

fun of_client :: "program_effect \<Rightarrow> client_effect option" where
  "of_client (OfClient x) = Some x"
| "of_client _ = None"

definition callbacks :: "program_effect list \<Rightarrow> gateway_event list" where
  "callbacks os = List.map_filter callback_of os"

definition server_part :: "program_effect list \<Rightarrow> server_effect list" where
  "server_part os = List.map_filter of_server os"

definition client_part :: "program_effect list \<Rightarrow> client_effect list" where
  "client_part os = List.map_filter of_client os"

text \<open>The packets to send downstream: the requests, numbered in the order in which they came.\<close>

fun downstream :: "endian \<Rightarrow> nat \<Rightarrow> gateway_event list \<Rightarrow> bytes list" where
  "downstream h n [] = []"
| "downstream h n (GwRequest now i pid st sq body # es) =
     (if pid = 0x02 then sendPacket_pkt h 0x02 0 (of_nat n) body # downstream h (Suc n) es else downstream h n es)"
| "downstream h n (GwReply pid st dseq body # es) = downstream h n es"

text \<open>The answers to session \<open>i\<close> among the effects of the routing specification.\<close>

fun reply_msg :: "endian \<Rightarrow> reply \<Rightarrow> bytes" where
  "reply_msg h (pid, st, sq, body) = respond_msg h pid st sq body"

definition answers :: "nat \<Rightarrow> gateway_effect list \<Rightarrow> reply list" where
  "answers i os = map snd (filter (\<lambda>(j, r). j = i) (List.map_filter gw_respond os))"

section \<open>Lists of effects\<close>

declare List.map_filter_simps [simp]

lemma parts_append [simp]:
  "callbacks (os @ os') = callbacks os @ callbacks os'"
  "server_part (os @ os') = server_part os @ server_part os'"
  "client_part (os @ os') = client_part os @ client_part os'"
  "answers i (gs @ gs') = answers i gs @ answers i gs'"
  by (simp_all add: callbacks_def server_part_def client_part_def answers_def)

lemma parts_of_server [simp]:
  "server_part (map OfServer os) = os \<and> client_part (map OfServer os) = [] \<and>
   callbacks (map OfServer os) = List.map_filter (gw_request 0) os"
  by (induction os) (auto simp: server_part_def client_part_def callbacks_def split: option.split)

lemma parts_of_client [simp]:
  "server_part (map OfClient os) = [] \<and> client_part (map OfClient os) = os \<and>
   callbacks (map OfClient os) = List.map_filter gw_reply os"
  by (induction os) (auto simp: server_part_def client_part_def callbacks_def split: option.split)

lemma parts_of_unexpected [simp]:
  "server_part (map OfUnexpected ds) = [] \<and> client_part (map OfUnexpected ds) = [] \<and> callbacks (map OfUnexpected ds) = []"
  by (induction ds) (auto simp: server_part_def client_part_def callbacks_def)

text \<open>The specification does not look at the time of a request.\<close>

fun untimed :: "gateway_event \<Rightarrow> gateway_event" where
  "untimed (GwRequest now i pid st sq body) = GwRequest 0 i pid st sq body"
| "untimed e = e"

lemma request_untimed: "List.map_filter (gw_request 0) os = map untimed (List.map_filter (gw_request now) os)"
proof (induction os)
  case (Cons x os)
  then show ?case by (cases x) simp_all
qed simp

lemma route_untimed [simp]:
  "route_spec r (untimed e) = route_spec r e" "distinct_ok r (untimed e) = distinct_ok r e"
  by (cases r; cases e; simp)+

lemma run_untimed [simp]: "run route_spec r (map untimed es) = run route_spec r es"
  by (induction es arbitrary: r) (simp_all add: run.simps(2))

lemma allowed_untimed [simp]:
  "allowed distinct_ok route_spec r (map untimed es) = allowed distinct_ok route_spec r es"
  by (induction es arbitrary: r) simp_all

lemma downstream_untimed [simp]: "downstream h n (map untimed es) = downstream h n es"
  by (induction h n es rule: downstream.induct) simp_all

lemma downstream_append:
  "downstream h n (es @ es') = downstream h n es @ downstream h (fst (fst (run route_spec (n, m) es))) es'"
proof (induction h n es arbitrary: m rule: downstream.induct)
  case (3 h n pid st dseq body es)
  then show ?case by (cases "m dseq") auto
qed simp_all

section \<open>What the parts of the program do\<close>

text \<open>The gateway's own sends.\<close>

lemma sendRequest_effects:
  "posts (snd (snd (Client_sendRequest h body now c))) = [sendPacket_pkt h 0x02 0 (cl_sequenceCounter c) body]"
  "List.map_filter gw_reply (snd (snd (Client_sendRequest h body now c))) = []"
  by (simp_all add: Client_sendRequest_def Client_sendPacket_def Client_startResponseTimer_def Let_def)

lemma client_effects_of [simp]: "List.map_filter gw_client_effect (map GwClient os) = os"
  by (induction os) simp_all

lemma gateway_run_posts:
  "cl_sequenceCounter (gw_client g) = of_nat n \<Longrightarrow>
   posts (List.map_filter gw_client_effect (snd (run (Gateway_step h) g es))) = downstream h n es \<and>
   List.map_filter gw_reply (List.map_filter gw_client_effect (snd (run (Gateway_step h) g es))) = []"
proof (induction h n es arbitrary: g rule: downstream.induct)
  case (2 h n now i pid st sq body es)
  show ?case
  proof (cases "pid = 0x02")
    case True
    with 2 show ?thesis
      by (simp add: gw_onRequest_forward sendRequest_effects gw_stash_def Client_sendRequest_counter add.commute)
  next
    case False
    with 2 show ?thesis by (simp add: gw_onRequest_def)
  qed
next
  case (3 h n pid st dseq body es)
  then show ?case by (simp add: gw_onReply_def split: option.split)
qed simp

text \<open>A client whose callbacks make no calls and which has no id.\<close>

definition quiet_client :: "client \<Rightarrow> bool" where
  "quiet_client c \<longleftrightarrow> cl_onPacket c = Some (\<lambda>pid status dseq body. []) \<and> cl_onTimeout c = None \<and> cl_onBind c = None
     \<and> cl_connectHandler c = Some (\<lambda>ec. []) \<and> cl_clientId c = []"

lemma quiet_config: "cl_config c' = cl_config c \<Longrightarrow> quiet_client c' = quiet_client c"
  by (simp add: quiet_client_def cl_config_def)

lemma quiet_step:
  assumes "quiet_client c" and "client_driven ev"
  shows "quiet_client (fst (Client_step h c ev)) \<and> cl_sequenceCounter (fst (Client_step h c ev)) = cl_sequenceCounter c
    \<and> posts (snd (Client_step h c ev)) = []"
proof -
  have fires: "cl_onTimeout c' = None \<Longrightarrow> seqs (map (Client_fireTimeout h) ss) c' = (c', [])" for ss c'
    by (induction ss) (simp_all add: Client_fireTimeout_def Client_callback_def prod_eq_iff)
  note defs = quiet_client_def Client_onConnect_def Client_onReadHeader_def Client_onReadBody_def Client_onWrite_def
    Client_doReadHeader_def Client_doReadBody_def Client_callback_def Client_enqueue_def Client_doWrite_def
    Client_timer_defs Client_checkAndFireResponseTimers_def Client_reschedule_def Let_def case_prod_beta
  show ?thesis
    using assms by (cases ev) (auto simp: defs fires split: list.split)
qed

text \<open>What an event of the server can lead to.\<close>

definition gateway_handlers :: "server \<Rightarrow> bool" where
  "gateway_handlers sv \<longleftrightarrow> sv_onAuth sv = Some gateway_auth \<and> sv_onRequest sv = Some gateway_handler"

lemma written_responds [simp]:
  "written i (map (\<lambda>(p, s, q, b). SvWrite j (respond_msg h p s q b)) rs) = (if i = j then map (reply_msg h) rs else [])"
  by (induction rs) auto

lemma requests_responds [simp]:
  "List.map_filter (gw_request now) (map (\<lambda>(p, s, q, b). SvWrite j (respond_msg h p s q b)) rs) = []"
  by (induction rs) auto

lemma authenticated_now:
  "i < length (sv_objs sv) \<Longrightarrow>
     authenticated_sessions (with_session i (\<lambda>s. s\<lparr>se_authenticated := True\<rparr>) sv) = insert i (authenticated_sessions sv)"
  by (auto simp: authenticated_sessions_def with_session_def nth_list_update)

lemma server_event_cases:
  assumes gh: "gateway_handlers sv" and ok: "Server_ok sv ev" and dr: "server_driven ev"
    and sv': "sv' = fst (Server_step h sv ev)" and os: "os = snd (Server_step h sv ev)"
  obtains (silent) "authenticated_sessions sv' = authenticated_sessions sv" "\<forall>i. written i os = []"
      "List.map_filter (gw_request now) os = []"
  | (bind) j hdr where "j \<notin> authenticated_sessions sv" "authenticated_sessions sv' = insert j (authenticated_sessions sv)"
      "\<forall>i. written i os = (if i = j then [bind_resp h hdr] else [])" "List.map_filter (gw_request now) os = []"
  | (request) j pid st sq body where "j \<in> authenticated_sessions sv" "authenticated_sessions sv' = authenticated_sessions sv"
      "\<forall>i. written i os = (if i = j then map (reply_msg h) (gateway_handler pid st sq body) else [])"
      "List.map_filter (gw_request now) os = [GwRequest now j pid st sq body]"
proof (cases ev)
  case (Accepted ec)
  then show ?thesis
    by (intro silent) (auto simp: sv' os Server_onAccept_def Server_doAccept_def Session_start_def Session_doReadHeader_def
        Let_def authenticated_with_session authenticated_accept [of "sv\<lparr>sv_accepts := sv_accepts sv - 1\<rparr>", simplified])
next
  case (SHeaderRead i ec d)
  then show ?thesis
    by (intro silent) (auto simp: sv' os Session_onReadHeader_def Session_doReadBody_def Server_removeSession_def Let_def
        authenticated_with_session)
next
  case (SWriteDone i)
  then show ?thesis by (intro silent) (simp_all add: sv' os authenticated_with_session)
next
  case (SBodyRead i ec d)
  let ?sv = "with_session i (\<lambda>s. s\<lparr>se_reading := None, se_bodyBuf := memcpy (se_bodyBuf s) 0 d\<rparr>) sv"
  have i: "i < length (sv_objs sv)" using ok SBodyRead by simp
  have same: "authenticated_sessions ?sv = authenticated_sessions sv" by (simp add: authenticated_with_session)
  have step: "Server_step h sv ev = (fst (Session_onReadBody h i ec ?sv), snd (Session_onReadBody h i ec ?sv))"
    using SBodyRead by (simp add: prod_eq_iff)
  note defs = sv' os step Session_onReadBody_def Session_doReadHeader_def Let_def authenticated_with_session
  consider (failed) "ec \<noteq> None"
    | (bound) "ec = None" "\<not> se_authenticated (sv_objs sv ! i)" "se_headerBuf (sv_objs sv ! i) ! 4 = 0x01"
    | (serve) "ec = None" "se_authenticated (sv_objs sv ! i)"
    | (ignored) "ec = None" "\<not> se_authenticated (sv_objs sv ! i)" "se_headerBuf (sv_objs sv ! i) ! 4 \<noteq> 0x01"
    by blast
  then show ?thesis
  proof cases
    case failed
    then show ?thesis by (intro silent) (auto simp: defs Server_removeSession_def)
  next
    case bound
    with i gh show ?thesis
      by (intro bind [of i "se_headerBuf (sv_objs sv ! i)"])
        (auto simp: defs authenticated_now Session_bind_def Session_send_def gateway_handlers_def gateway_auth_def
          authenticated_sessions_def [of sv])
  next
    case serve
    let ?b = "se_headerBuf (sv_objs sv ! i)" and ?d = "memcpy (se_bodyBuf (sv_objs sv ! i)) 0 d"
    from serve i gh show ?thesis
      by (intro request [of i "?b ! 4" "?b ! 5" "hdr_seq h ?b" ?d])
        (auto simp: defs Session_request_def gateway_handlers_def Session_responds_snd authenticated_sessions_def [of sv])
  next
    case ignored
    with i show ?thesis by (intro silent) (auto simp: defs)
  qed
qed (use dr in simp_all)

lemma gateway_handlers_step:
  "gateway_handlers sv \<Longrightarrow> server_driven ev \<Longrightarrow> gateway_handlers (fst (Server_step h sv ev))"
  by (cases ev) (auto simp: gateway_handlers_def Server_onAccept_def Server_doAccept_def Session_start_def
      Session_doReadHeader_def Session_onReadHeader_def Session_doReadBody_def Server_removeSession_def
      Session_onReadBody_def Session_bind_def Session_request_def Session_send_def Let_def)

section \<open>The invariant of the program\<close>

text \<open>
  \<open>R\<close> is what the routing specification does with the callbacks so far, \<open>A\<close> the sessions that are
  authenticated. Only they have outstanding requests, and each of them has been sent a bind
  response and then the answers of the specification.
\<close>

definition program_inv :: "endian \<Rightarrow> gateway_program \<Rightarrow> program_effect list \<Rightarrow> bool" where
  "program_inv h s os \<longleftrightarrow>
     (let R = run route_spec (1, Map.empty) (callbacks os); A = authenticated_sessions (gp_server s) in
      gw_sim (gp_gateway s) (fst R) \<and> quiet_client (gw_client (gp_gateway s)) \<and> gateway_handlers (gp_server s)
      \<and> fst ` ran (snd (fst R)) \<subseteq> A
      \<and> posts (client_part os) = downstream h 1 (callbacks os)
      \<and> (\<forall>i. i \<notin> A \<longrightarrow> written i (server_part os) = [] \<and> answers i (snd R) = [])
      \<and> (\<forall>i \<in> A. \<exists>hdr. written i (server_part os) = bind_resp h hdr # map (reply_msg h) (answers i (snd R))))"

lemma program_inv_extend:
  assumes inv: "program_inv h s os"
    and R: "R = run route_spec (1, Map.empty) (callbacks os)" and S: "S = run route_spec (fst R) (callbacks os')"
    and A: "A = authenticated_sessions (gp_server s)" and A': "A' = authenticated_sessions (gp_server s')"
    and sim: "gw_sim (gp_gateway s') (fst S)" and quiet: "quiet_client (gw_client (gp_gateway s'))"
    and gh: "gateway_handlers (gp_server s')" and ran: "fst ` ran (snd (fst S)) \<subseteq> A'"
    and posts: "posts (client_part os') = downstream h (fst (fst R)) (callbacks os')"
    and old: "A \<subseteq> A'" "\<forall>i \<in> A. written i (server_part os') = map (reply_msg h) (answers i (snd S))"
    and new: "\<forall>i \<in> A' - A. answers i (snd S) = [] \<and> (\<exists>hdr. written i (server_part os') = [bind_resp h hdr])"
    and out: "\<forall>i. i \<notin> A' \<longrightarrow> written i (server_part os') = [] \<and> answers i (snd S) = []"
  shows "program_inv h s' (os @ os')"
proof -
  have R': "run route_spec (1, Map.empty) (callbacks os @ callbacks os') = (fst S, snd R @ snd S)"
    by (simp add: run_append R S case_prod_beta)
  have inv': "\<And>i. i \<notin> A \<Longrightarrow> written i (server_part os) = [] \<and> answers i (snd R) = []"
    "\<And>i. i \<in> A \<Longrightarrow> \<exists>hdr. written i (server_part os) = bind_resp h hdr # map (reply_msg h) (answers i (snd R))"
    "posts (client_part os) = downstream h 1 (callbacks os)"
    using inv by (auto simp: program_inv_def Let_def R A)
  have "\<exists>hdr. written i (server_part (os @ os')) = bind_resp h hdr # map (reply_msg h) (answers i (snd R @ snd S))"
    if "i \<in> A'" for i
    using that inv'(1,2) [of i] old(2) new by (cases "i \<in> A") auto
  moreover have "written i (server_part (os @ os')) = [] \<and> answers i (snd R @ snd S) = []" if "i \<notin> A'" for i
    using that inv'(1) [of i] old(1) out by auto
  moreover have "posts (client_part (os @ os')) = downstream h 1 (callbacks (os @ os'))"
    using inv'(3) posts downstream_append [of h 1 "callbacks os" "callbacks os'" Map.empty] by (simp add: R)
  ultimately show ?thesis
    using sim quiet gh ran unfolding program_inv_def Let_def A' [symmetric] parts_append(1) R' fst_conv snd_conv by blast
qed

text \<open>The specification answers only the sessions that have asked.\<close>

fun asks :: "gateway_event \<Rightarrow> nat set" where
  "asks (GwRequest now i pid st sq body) = {i}"
| "asks (GwReply pid st dseq body) = {}"

lemma route_sessions:
  assumes "fst ` ran (snd r) \<subseteq> A" and "list_all (\<lambda>e. asks e \<subseteq> A) es"
  shows "fst ` ran (snd (fst (run route_spec r es))) \<subseteq> A \<and> (\<forall>i. i \<notin> A \<longrightarrow> answers i (snd (run route_spec r es)) = [])"
  using assms
proof (induction es arbitrary: r)
  case Nil
  then show ?case by (simp add: answers_def)
next
  case (Cons e es)
  obtain n m where r: "r = (n, m)" by (rule prod.exhaust)
  have "fst ` ran (snd (fst (route_spec r e))) \<subseteq> A \<and> (\<forall>i. i \<notin> A \<longrightarrow> answers i (snd (route_spec r e)) = [])"
  proof (cases e)
    case (GwRequest now i pid st sq body)
    then have "i \<in> A" using Cons.prems(2) by simp
    with GwRequest Cons.prems(1) r show ?thesis
      by (auto simp: answers_def ran_def split: if_splits)
  next
    case (GwReply pid st dseq body)
    show ?thesis
    proof (cases "m dseq")
      case None
      with GwReply Cons.prems(1) r show ?thesis by (simp add: answers_def)
    next
      case (Some x)
      then have "fst x \<in> A" using Cons.prems(1) r by (auto simp: ran_def)
      with Some GwReply Cons.prems(1) r show ?thesis
        by (auto simp: answers_def ran_def split: prod.split if_splits)
    qed
  qed
  with Cons.IH [of "fst (route_spec r e)"] Cons.prems(2) show ?case by auto
qed

section \<open>Every event keeps the invariant\<close>

lemma gateway_run_quiet:
  "quiet_client (gw_client g) \<Longrightarrow> quiet_client (gw_client (fst (run (Gateway_step h) g es)))"
proof (induction es arbitrary: g)
  case (Cons e es)
  have "cl_config (gw_client (fst (Gateway_step h g e))) = cl_config (gw_client g)"
    by (cases e) (auto simp: gw_onRequest_def gw_forward_def gw_stash_def gw_onReply_def Client_sendRequest_def Let_def
        case_prod_beta cl_config_def split: option.split)
  from Cons.IH [of "fst (Gateway_step h g e)"] quiet_config [OF this] Cons.prems show ?case by simp
qed simp

lemma program_sim:
  assumes "program_inv h s os" and "R = run route_spec (1, Map.empty) (callbacks os)"
  shows "gw_sim (gp_gateway s) (fst R)" "cl_sequenceCounter (gw_client (gp_gateway s)) = of_nat (fst (fst R))"
    "quiet_client (gw_client (gp_gateway s))" "gateway_handlers (gp_server s)"
    "fst ` ran (snd (fst R)) \<subseteq> authenticated_sessions (gp_server s)"
  using assms(1) unfolding program_inv_def Let_def assms(2) [symmetric] by (simp_all add: gw_sim_def)

lemma program_server_step:
  assumes inv: "program_inv h s os" and ok: "Server_ok (gp_server s) ev" "server_driven ev"
    and t: "t = Program_server h ev now s"
    and dist: "allowed distinct_ok route_spec (fst (run route_spec (1, Map.empty) (callbacks os))) (callbacks (snd t))"
  shows "program_inv h (fst t) (os @ snd t)"
proof -
  define R where "R = run route_spec (1, Map.empty) (callbacks os)"
  let ?sv = "fst (Server_step h (gp_server s) ev)" and ?so = "snd (Server_step h (gp_server s) ev)"
  define evs where "evs = List.map_filter (gw_request now) ?so"
  define g where "g = run (Gateway_step h) (gp_gateway s) evs"
  note sim = program_sim [OF inv R_def]
  have t': "fst t = \<lparr>gp_server = ?sv, gp_gateway = fst g\<rparr>"
    "snd t = map OfServer ?so @ map OfClient (List.map_filter gw_client_effect (snd g))"
    by (simp_all add: t Program_server_def case_prod_beta evs_def g_def)
  note posts = gateway_run_posts [OF sim(2), of h evs]
  have cb: "callbacks (snd t) = map untimed evs"
    using posts unfolding t' by (simp add: request_untimed [of _ now] evs_def g_def)
  define S where "S = run route_spec (fst R) evs"
  have "allowed distinct_ok route_spec (fst R) evs" using dist by (simp add: cb R_def)
  from gateway_routes.run_sim [OF sim(1) this] have g_sim: "gw_sim (fst g) (fst S)" by (simp add: g_def S_def)
  have gh: "gateway_handlers ?sv" by (rule gateway_handlers_step [OF sim(4) ok(2)])
  have sp: "server_part (snd t) = ?so" "posts (client_part (snd t)) = downstream h (fst (fst R)) (callbacks (snd t))"
    using posts unfolding cb unfolding t' by (simp_all add: g_def)
  have ext: "program_inv h (fst t) (os @ snd t)"
    if "authenticated_sessions (gp_server s) \<subseteq> authenticated_sessions ?sv" "fst ` ran (snd (fst S)) \<subseteq> authenticated_sessions ?sv"
      "\<forall>i \<in> authenticated_sessions (gp_server s). written i ?so = map (reply_msg h) (answers i (snd S))"
      "\<forall>i \<in> authenticated_sessions ?sv - authenticated_sessions (gp_server s).
         answers i (snd S) = [] \<and> (\<exists>hdr. written i ?so = [bind_resp h hdr])"
      "\<forall>i. i \<notin> authenticated_sessions ?sv \<longrightarrow> written i ?so = [] \<and> answers i (snd S) = []"
    using that g_sim gh sp gateway_run_quiet [OF sim(3), of h evs]
    by (intro program_inv_extend [OF inv R_def _ refl refl, of S]) (simp_all add: S_def cb t'(1) g_def)
  show ?thesis
  proof (cases rule: server_event_cases [OF sim(4) ok refl refl, of h now, case_names silent bind request])
    case silent
    then show ?thesis using sim(5) by (intro ext) (simp_all add: S_def evs_def answers_def)
  next
    case (bind j hdr)
    then show ?thesis using sim(5) by (intro ext) (auto simp: S_def evs_def answers_def)
  next
    case (request j pid st sq body)
    then have evs: "evs = [GwRequest now j pid st sq body]" by (simp add: evs_def)
    have "answers i (snd S) = (if i = j then gateway_handler pid st sq body else [])" for i
      unfolding S_def evs by (cases "fst R") (simp add: answers_def gateway_handler_def)
    with request route_sessions [OF sim(5), of evs] show ?thesis by (intro ext) (auto simp: evs S_def)
  qed
qed

text \<open>Replies from downstream.\<close>

lemma responds_many:
  "snd (seqs (map (\<lambda>(i, r). Session_respond h i r) rs) sv) = map (\<lambda>(i, r). SvWrite i (reply_msg h r)) rs"
  "authenticated_sessions (fst (seqs (map (\<lambda>(i, r). Session_respond h i r) rs) sv)) = authenticated_sessions sv"
  "gateway_handlers (fst (seqs (map (\<lambda>(i, r). Session_respond h i r) rs) sv)) = gateway_handlers sv"
proof -
  have one: "snd (Session_respond h i r sv) = [SvWrite i (reply_msg h r)]"
    "authenticated_sessions (fst (Session_respond h i r sv)) = authenticated_sessions sv"
    "gateway_handlers (fst (Session_respond h i r sv)) = gateway_handlers sv" for i r sv
    by (cases r; simp add: Session_send_def authenticated_with_session gateway_handlers_def)+
  note [simp del] = Session_respond.simps Session_respond_fst Session_respond_snd
  show "snd (seqs (map (\<lambda>(i, r). Session_respond h i r) rs) sv) = map (\<lambda>(i, r). SvWrite i (reply_msg h r)) rs"
    by (induction rs arbitrary: sv) (simp_all add: one case_prod_beta)
  show "authenticated_sessions (fst (seqs (map (\<lambda>(i, r). Session_respond h i r) rs) sv)) = authenticated_sessions sv"
    by (induction rs arbitrary: sv) (simp_all add: one case_prod_beta)
  show "gateway_handlers (fst (seqs (map (\<lambda>(i, r). Session_respond h i r) rs) sv)) = gateway_handlers sv"
    by (induction rs arbitrary: sv) (simp_all add: one case_prod_beta)
qed

lemma written_many:
  "written i (map (\<lambda>(i, r). SvWrite i (reply_msg h r)) rs) = map (reply_msg h) (map snd (filter (\<lambda>(j, r). j = i) rs))"
  "List.map_filter (gw_request now) (map (\<lambda>(i, r). SvWrite i (reply_msg h r)) rs) = []"
  by (induction rs) auto

lemma respond_routed: "List.map_filter gw_respond (List.map_filter routed os) = List.map_filter gw_respond os"
proof (induction os)
  case (Cons x os)
  then show ?case by (cases x) simp_all
qed simp

lemma replies_only:
  "list_all (\<lambda>e. asks e \<subseteq> A) (List.map_filter gw_reply oc)" "downstream h n (List.map_filter gw_reply oc) = []"
proof -
  have "list_all (\<lambda>e. asks e \<subseteq> A) (List.map_filter gw_reply oc) \<and> downstream h n (List.map_filter gw_reply oc) = []"
  proof (induction oc)
    case (Cons x oc)
    then show ?case by (cases x) simp_all
  qed simp
  then show "list_all (\<lambda>e. asks e \<subseteq> A) (List.map_filter gw_reply oc)" "downstream h n (List.map_filter gw_reply oc) = []"
    by simp_all
qed

lemma program_client_step:
  assumes inv: "program_inv h s os" and ok: "client_driven ev" and t: "t = Program_client h ev s"
    and dist: "allowed distinct_ok route_spec (fst (run route_spec (1, Map.empty) (callbacks os))) (callbacks (snd t))"
  shows "program_inv h (fst t) (os @ snd t)"
proof -
  define R where "R = run route_spec (1, Map.empty) (callbacks os)"
  let ?c = "fst (Client_step h (gw_client (gp_gateway s)) ev)" and ?co = "snd (Client_step h (gw_client (gp_gateway s)) ev)"
  define evs where "evs = List.map_filter gw_reply ?co"
  define g where "g = run (Gateway_step h) ((gp_gateway s)\<lparr>gw_client := ?c\<rparr>) evs"
  define rs where "rs = List.map_filter gw_respond (snd g)"
  note sim = program_sim [OF inv R_def]
  note q = quiet_step [OF sim(3) ok, of h]
  have t': "fst t = \<lparr>gp_server = fst (seqs (map (\<lambda>(i, r). Session_respond h i r) rs) (gp_server s)), gp_gateway = fst g\<rparr>"
    "snd t = map OfClient ?co @ map OfServer (map (\<lambda>(i, r). SvWrite i (reply_msg h r)) rs)
       @ map OfUnexpected (List.map_filter gw_unexpected (snd g))"
    by (simp_all add: t Program_client_def case_prod_beta evs_def g_def rs_def responds_many(1) del: map_map)
  have cb: "callbacks (snd t) = evs" unfolding t' by (simp add: evs_def written_many(2) del: map_map)
  define S where "S = run route_spec (fst R) evs"
  have "gw_sim ((gp_gateway s)\<lparr>gw_client := ?c\<rparr>) (fst R)" using sim(1) q by (simp add: gw_sim_def)
  from gateway_routes.run_sim [OF this, of evs h] dist have
    g_sim: "gw_sim (fst g) (fst S)" "List.map_filter routed (snd g) = snd S" by (simp_all add: cb R_def S_def g_def)
  have ans: "written i (server_part (snd t)) = map (reply_msg h) (answers i (snd S))" for i
    unfolding t' g_sim(2) [symmetric] answers_def respond_routed by (simp add: written_many(1) rs_def del: map_map)
  have route: "fst ` ran (snd (fst S)) \<subseteq> authenticated_sessions (gp_server s)"
      "\<forall>i. i \<notin> authenticated_sessions (gp_server s) \<longrightarrow> answers i (snd S) = []" "downstream h n evs = []" for n
    using route_sessions [OF sim(5), of evs] by (simp_all add: S_def evs_def replies_only)
  have parts: "authenticated_sessions (gp_server (fst t)) = authenticated_sessions (gp_server s)"
      "gateway_handlers (gp_server (fst t))" "quiet_client (gw_client (gp_gateway (fst t)))" "gw_sim (gp_gateway (fst t)) (fst S)"
      "posts (client_part (snd t)) = []"
    using sim(4) q g_sim(1) gateway_run_quiet [of "(gp_gateway s)\<lparr>gw_client := ?c\<rparr>" h evs]
    by (simp_all add: t' responds_many(2,3) g_def del: map_map)
  show ?thesis
    using parts ans route by (intro program_inv_extend [OF inv R_def _ refl refl, of S]) (simp_all add: cb S_def)
qed

text \<open>The end of the program: nothing is written and no callback is invoked.\<close>

lemma Server_stop_quiet:
  "written i (snd (Server_stop sv)) = []" "List.map_filter (gw_request now) (snd (Server_stop sv)) = []"
  "gateway_handlers (fst (Server_stop sv)) = gateway_handlers sv"
proof -
  let ?close = "\<lambda>i. seqs [modify (with_session i (\<lambda>s. s\<lparr>se_open := False\<rparr>)), emit (SvSocketClose i)]"
  have "written i (snd (seqs (map ?close is) sv')) = [] \<and> List.map_filter (gw_request now) (snd (seqs (map ?close is) sv')) = []
      \<and> gateway_handlers (fst (seqs (map ?close is) sv')) = gateway_handlers sv'" for "is" sv'
    by (induction "is" arbitrary: sv') (simp_all, simp add: gateway_handlers_def)
  then show "written i (snd (Server_stop sv)) = []" "List.map_filter (gw_request now) (snd (Server_stop sv)) = []"
    "gateway_handlers (fst (Server_stop sv)) = gateway_handlers sv"
    by (simp_all add: Server_stop_def) (simp_all add: gateway_handlers_def)
qed

lemma Client_close_quiet:
  "posts (snd (Client_close c)) = []" "List.map_filter gw_reply (snd (Client_close c)) = []"
  "quiet_client (fst (Client_close c)) = quiet_client c" "cl_sequenceCounter (fst (Client_close c)) = cl_sequenceCounter c"
  by (simp_all add: Client_close_def Client_timer_defs quiet_client_def)

lemma program_exit_step:
  assumes inv: "program_inv h s os" and t: "t = gateway_exit s"
  shows "program_inv h (fst t) (os @ snd t)"
proof -
  define R where "R = run route_spec (1, Map.empty) (callbacks os)"
  note sim = program_sim [OF inv R_def]
  have t': "fst t = \<lparr>gp_server = fst (Server_stop (gp_server s)),
      gp_gateway = (gp_gateway s)\<lparr>gw_client := fst (Client_close (gw_client (gp_gateway s)))\<rparr>\<rparr>"
    "snd t = map OfServer (snd (Server_stop (gp_server s))) @ map OfClient (snd (Client_close (gw_client (gp_gateway s))))"
    by (simp_all add: t gateway_exit_def case_prod_beta)
  have "callbacks (snd t) = []" unfolding t' by (simp add: Server_stop_quiet Client_close_quiet)
  moreover have "gw_sim (gp_gateway (fst t)) (fst R)" using sim(1) by (simp add: t' gw_sim_def Client_close_quiet)
  ultimately show ?thesis
    using sim
    by (intro program_inv_extend [OF inv R_def refl refl refl])
      (simp_all add: t' Server_stop_quiet Client_close_quiet Server_stop_auth answers_def)
qed

definition program_traced :: "endian \<Rightarrow> gateway_program \<Rightarrow> program_effect list \<Rightarrow> bool" where
  "program_traced h s os \<longleftrightarrow>
     (allowed distinct_ok route_spec (1, Map.empty) (callbacks os) \<longrightarrow> program_inv h s os)"

interpretation program: traced_machine "Program_step h" Program_ok "program_traced h" for h
proof
  fix s os ev
  assume inv: "program_traced h s os" and ok: "Program_ok s ev"
  show "program_traced h (fst (Program_step h s ev)) (os @ snd (Program_step h s ev))"
    unfolding program_traced_def
  proof
    assume "allowed distinct_ok route_spec (1, Map.empty) (callbacks (os @ snd (Program_step h s ev)))"
    then have "program_inv h s os"
      and "allowed distinct_ok route_spec (fst (run route_spec (1, Map.empty) (callbacks os))) (callbacks (snd (Program_step h s ev)))"
      using inv by (simp_all add: program_traced_def allowed_append del: Program_step.simps)
    with ok show "program_inv h (fst (Program_step h s ev)) (os @ snd (Program_step h s ev))"
      using program_server_step [OF _ _ _ refl] program_client_step [OF _ _ refl] program_exit_step [OF _ refl]
      by (cases ev) simp_all
  qed
qed

lemma program_inv_main:
  assumes "gateway_main True = Some (s, os)"
  shows "program_inv h s []"
proof -
  have s: "gp_server s = fst (seqs [Server_setAuthHandler (Some gateway_auth), Server_start (Some gateway_handler)] (Server_new 50))"
    "gp_gateway s = gateway_new\<lparr>gw_client := Client_setPacketHandler (Some (\<lambda>pid status dseq body. []))
       (fst (Client_connect ''127.0.0.1'' 9000 3000 (Some (\<lambda>ec. [])) True gateway_client))\<rparr>"
    using assms by (auto simp: gateway_main_def Let_def case_prod_beta)
  note defs = Server_setAuthHandler_def Server_start_def Server_doAccept_def Server_new_def Client_connect_def
    Client_setPacketHandler_def gateway_client_def Client_new_def Client_timer_defs
  have "authenticated_sessions (gp_server s) = {}" "gateway_handlers (gp_server s)" "quiet_client (gw_client (gp_gateway s))"
    unfolding s by (simp_all add: defs authenticated_sessions_def gateway_handlers_def quiet_client_def)
  moreover have "gw_sim (gp_gateway s) (1, Map.empty)"
    using gw_sim_new unfolding s by (simp add: gw_sim_def defs gateway_new_def)
  ultimately show ?thesis
    by (simp add: program_inv_def callbacks_def client_part_def server_part_def answers_def)
qed


text \<open>A producer binds and sends a request; the reply comes from downstream.\<close>

abbreviation gp_started :: gateway_program where
  "gp_started \<equiv> fst (the (gateway_main True))"

abbreviation gp_bind :: frame where
  "gp_bind \<equiv> \<lparr>f_pid = 1, f_status = 0, f_seq = 9, f_body = bytes_of ''p''\<rparr>"

abbreviation gp_request :: frame where
  "gp_request \<equiv> \<lparr>f_pid = 2, f_status = 0, f_seq = 40, f_body = [5]\<rparr>"

abbreviation gp_answer :: frame where
  "gp_answer \<equiv> \<lparr>f_pid = 0x82, f_status = 0, f_seq = 1, f_body = [6]\<rparr>"

abbreviation gp_events :: "program_event list" where
  "gp_events \<equiv> [AtClient (ConnectDone None), AtServer (Accepted None) 0,
     AtServer (SHeaderRead 0 None (header_of gp_bind)) 1, AtServer (SBodyRead 0 None (f_body gp_bind)) 1,
     AtServer (SHeaderRead 0 None (header_of gp_request)) 2, AtServer (SBodyRead 0 None (f_body gp_request)) 2,
     AtClient RunPosted, AtClient (HeaderRead None (header_of gp_answer)), AtClient (BodyRead None (f_body gp_answer)), AtExit]"


end
