(* ===== verification/AsioServer.thy ===== *)
theory AsioServer
  imports AsioConnection AsioRequests
begin

text \<open>
  \<open>TcpServer\<close> of \<open>claude/asio_server.cpp\<close>: accepting, the table of connections, sending to one or to
  all of them, and requests of the server to its clients with responses and timeouts.

  Connection objects are kept in \<open>ts_objs\<close> under their id, the packet callback that each was given
  in \<open>ts_callbacks\<close>; \<open>ts_connections\<close> holds the ids that are registered in \<open>connections_\<close>. An object outlives its registration as long as handlers refer to
  it. User callbacks are recorded as effects; a response callback is named by a number. The
  packet callback needs more care: \<open>start\<close> replaces it by a closure that calls
  \<open>handleIncomingPacket\<close>, which calls the packet callback. So a packet callback is a value of
  \<open>packet_cb\<close>, and \<open>handleIncomingPacket\<close> is a partial function whose result is \<open>None\<close> where the
  code never returns.
\<close>

section \<open>State and effects\<close>

datatype packet_cb = NoCallback | UserCallback | RedirectToHandler

record pending_request =
  pr_expiryTime :: time
  pr_connectionId :: int
  pr_callback :: "nat option"

record tcp_server =
  ts_nextConnectionId :: int
  ts_nextSequence :: u32
  ts_server_id :: string
  ts_connections :: "int list"
  ts_packetCallback :: packet_cb
  ts_closedCallback :: bool
  ts_pendingRequests :: "(u32, pending_request) omap"
  ts_timeoutTimerRunning :: bool
  ts_timeoutCallback :: bool
  \<comment> \<open>connection objects, and what Boost.Asio holds: the connection of the outstanding accept,
    the waits outstanding on the timeout timer, whether the acceptor is open\<close>
  ts_objs :: "(int, connection) umap"
  ts_callbacks :: "(int, packet_cb) umap"
  ts_accepting :: "int option"
  ts_timerWaits :: nat
  ts_acceptorOpen :: bool

datatype server_out =
    TsConnection int conn_effect
  | TsAsyncAccept int
  | TsAcceptError
  | TsAcceptorClose
  | TsTimerWait
  | TsCallTimeout u32
  | TsCallResponse nat int packet
  | TsCallPacket int packet
  | TsCallClosed int

type_synonym tcp_proc = "(tcp_server, server_out) proc"

definition TcpServer_new :: "string \<Rightarrow> tcp_server" where
  "TcpServer_new serverId = \<lparr>ts_nextConnectionId = 1, ts_nextSequence = 1, ts_server_id = serverId,
     ts_connections = [], ts_packetCallback = NoCallback, ts_closedCallback = False,
     ts_pendingRequests = [], ts_timeoutTimerRunning = False, ts_timeoutCallback = False,
     ts_objs = [], ts_callbacks = [], ts_accepting = None, ts_timerWaits = 0, ts_acceptorOpen = True\<rparr>"

definition TcpServer_setServerId :: "string \<Rightarrow> tcp_server \<Rightarrow> tcp_server" where
  "TcpServer_setServerId serverId s = s\<lparr>ts_server_id := serverId\<rparr>"

definition TcpServer_getServerId :: "tcp_server \<Rightarrow> string" where
  "TcpServer_getServerId s = ts_server_id s"

definition TcpServer_setTimeoutCallback :: "bool \<Rightarrow> tcp_server \<Rightarrow> tcp_server" where
  "TcpServer_setTimeoutCallback callback s = s\<lparr>ts_timeoutCallback := callback\<rparr>"

definition TcpServer_setCallbacks :: "packet_cb \<Rightarrow> bool \<Rightarrow> tcp_server \<Rightarrow> tcp_server" where
  "TcpServer_setCallbacks packetCallback closedCallback s =
     s\<lparr>ts_packetCallback := packetCallback, ts_closedCallback := closedCallback\<rparr>"

text \<open>\<open>getNextSequence\<close> returns the counter and increments it; it wraps around.\<close>

definition TcpServer_getNextSequence :: "tcp_server \<Rightarrow> u32 \<times> tcp_server" where
  "TcpServer_getNextSequence s = (ts_nextSequence s, s\<lparr>ts_nextSequence := ts_nextSequence s + 1\<rparr>)"

section \<open>Connections\<close>

text \<open>Running a statement of a connection object.\<close>

definition on_connection :: "int \<Rightarrow> conn_proc \<Rightarrow> tcp_proc" where
  "on_connection i p s =
     (case map_of (ts_objs s) i of
        None \<Rightarrow> (s, [])
      | Some c \<Rightarrow>
          (let (c', os) = p c in (s\<lparr>ts_objs := AList.update i c' (ts_objs s)\<rparr>, map (TsConnection i) os)))"

definition server_env :: "conn_env \<Rightarrow> tcp_server \<Rightarrow> conn_env" where
  "server_env e s = e\<lparr>en_serverId := TcpServer_getServerId s\<rparr>"

definition TcpServer_sendPacketTo :: "conn_env \<Rightarrow> int \<Rightarrow> packet \<Rightarrow> tcp_server \<Rightarrow> bool \<times> tcp_server \<times> server_out list" where
  "TcpServer_sendPacketTo e connectionId packet s =
     (if connectionId \<in> set (ts_connections s)
      then (True, on_connection connectionId (Connection_sendPacket (server_env e s) packet) s)
      else (False, s, []))"

definition TcpServer_sendTo :: "conn_env \<Rightarrow> int \<Rightarrow> u8 \<Rightarrow> u8 \<Rightarrow> string \<Rightarrow> tcp_server \<Rightarrow> bool \<times> tcp_server \<times> server_out list" where
  "TcpServer_sendTo e connectionId packetId status data s =
     (let (sq, s') = TcpServer_getNextSequence s;
          packet = createPacket_string packetId status sq data
      in TcpServer_sendPacketTo e connectionId packet s')"

definition TcpServer_broadcastPacket :: "conn_env \<Rightarrow> packet \<Rightarrow> tcp_proc" where
  "TcpServer_broadcastPacket e packet s =
     seqs (map (\<lambda>i. on_connection i (Connection_sendPacket (server_env e s) packet)) (ts_connections s)) s"

definition TcpServer_broadcast :: "conn_env \<Rightarrow> u8 \<Rightarrow> u8 \<Rightarrow> string \<Rightarrow> tcp_proc" where
  "TcpServer_broadcast e packetId status data s =
     (let (sq, s') = TcpServer_getNextSequence s;
          packet = createPacket_string packetId status sq data
      in TcpServer_broadcastPacket e packet s')"

definition TcpServer_connectionCount :: "tcp_server \<Rightarrow> nat" where
  "TcpServer_connectionCount s = length (ts_connections s)"

definition TcpServer_getClientInfo :: "int \<Rightarrow> tcp_server \<Rightarrow> string" where
  "TcpServer_getClientInfo connectionId s =
     (if connectionId \<in> set (ts_connections s)
      then (case map_of (ts_objs s) connectionId of Some c \<Rightarrow> co_client_id c | None \<Rightarrow> ''Not found'')
      else ''Not found'')"

definition TcpServer_closeConnection :: "int \<Rightarrow> tcp_server \<Rightarrow> bool \<times> tcp_server \<times> server_out list" where
  "TcpServer_closeConnection connectionId s =
     (if connectionId \<in> set (ts_connections s)
      then (True, on_connection connectionId Connection_close s)
      else (False, s, []))"

definition TcpServer_registerConnection :: "int \<Rightarrow> tcp_server \<Rightarrow> tcp_server" where
  "TcpServer_registerConnection i s = s\<lparr>ts_connections := i # removeAll i (ts_connections s)\<rparr>"

definition TcpServer_unregisterConnection :: "int \<Rightarrow> tcp_proc" where
  "TcpServer_unregisterConnection connectionId =
     seqs [modify (\<lambda>s. s\<lparr>ts_connections := removeAll connectionId (ts_connections s)\<rparr>),
           (\<lambda>s. if_do (ts_closedCallback s) (emit (TsCallClosed connectionId)) s)]"

definition TcpServer_startAccept :: tcp_proc where
  "TcpServer_startAccept s =
     (let connectionId = ts_nextConnectionId s in
      seqs [modify (\<lambda>s. s\<lparr>ts_nextConnectionId := connectionId + 1,
                          ts_objs := AList.update connectionId (Connection_create connectionId) (ts_objs s),
                          ts_accepting := Some connectionId\<rparr>),
            emit (TsAsyncAccept connectionId)] s)"

text \<open>The completion handler of \<open>async_accept\<close>.\<close>

definition TcpServer_onAccept :: "error_code \<Rightarrow> tcp_proc" where
  "TcpServer_onAccept ec s =
     (case ts_accepting s of
        None \<Rightarrow> (s, [])
      | Some i \<Rightarrow>
          seqs [modify (\<lambda>s. s\<lparr>ts_accepting := None\<rparr>),
                if ec = None
                then seqs [modify (TcpServer_registerConnection i),
                           modify (\<lambda>s. s\<lparr>ts_callbacks := AList.update i (ts_packetCallback s) (ts_callbacks s)\<rparr>),
                           (\<lambda>s. on_connection i
                              (Connection_start (ts_packetCallback s \<noteq> NoCallback) (ts_closedCallback s)) s)]
                else emit TsAcceptError,
                (\<lambda>s. if_do (ts_acceptorOpen s) TcpServer_startAccept s)] s)"

definition TcpServer_start :: tcp_proc where
  "TcpServer_start =
     seqs [modify (\<lambda>s. TcpServer_setCallbacks RedirectToHandler (ts_closedCallback s) s), TcpServer_startAccept]"

definition TcpServer_stop :: tcp_proc where
  "TcpServer_stop =
     seqs [modify (\<lambda>s. s\<lparr>ts_acceptorOpen := False\<rparr>), emit TsAcceptorClose,
           (\<lambda>s. seqs (map (\<lambda>i. on_connection i Connection_close) (ts_connections s)) s),
           modify (\<lambda>s. s\<lparr>ts_connections := []\<rparr>)]"

section \<open>Requests\<close>

text \<open>\<open>sendRequest\<close> returns the sequence number, or 0 if the connection is not found.\<close>

definition TcpServer_startTimer :: tcp_proc where
  "TcpServer_startTimer s =
     if_do (\<not> ts_timeoutTimerRunning s)
       (seqs [modify (\<lambda>s. s\<lparr>ts_timeoutTimerRunning := True, ts_timerWaits := Suc (ts_timerWaits s)\<rparr>), emit TsTimerWait]) s"

definition TcpServer_sendRequest ::
  "conn_env \<Rightarrow> int \<Rightarrow> string \<Rightarrow> time \<Rightarrow> nat option \<Rightarrow> bool \<Rightarrow> time \<Rightarrow> tcp_server \<Rightarrow> u32 \<times> tcp_server \<times> server_out list" where
  "TcpServer_sendRequest e connectionId data timeout responseCallback timeoutCallback now s =
     (let (sq, s1) = TcpServer_getNextSequence s;
          packet = createPacket_string REQUEST 0 sq data;
          (found, s2, os) = TcpServer_sendPacketTo e connectionId packet s1
      in if \<not> found then (0, s2, os)
         else (let request = \<lparr>pr_expiryTime = now + timeout, pr_connectionId = connectionId, pr_callback = responseCallback\<rparr>;
                   (s3, os') = seqs
                     [modify (\<lambda>s. s\<lparr>ts_pendingRequests := omap_put sq request (ts_pendingRequests s)\<rparr>),
                      if_do timeoutCallback (modify (\<lambda>s. s\<lparr>ts_timeoutCallback := True\<rparr>)),
                      TcpServer_startTimer] s2
               in (sq, s3, os @ os')))"

definition TcpServer_cancelRequest :: "u32 \<Rightarrow> tcp_server \<Rightarrow> bool \<times> tcp_server" where
  "TcpServer_cancelRequest sq s =
     (map_of (ts_pendingRequests s) sq \<noteq> None, s\<lparr>ts_pendingRequests := AList.delete sq (ts_pendingRequests s)\<rparr>)"

text \<open>
  \<open>checkTimeouts\<close>: the critical section, which computes \<open>hasPending\<close>, and what follows it. Another
  thread may run between the two.
\<close>

definition TcpServer_scan :: "time \<Rightarrow> tcp_server \<Rightarrow> bool \<times> tcp_server \<times> server_out list" where
  "TcpServer_scan now s =
     (let expired = expired_sequences pr_expiryTime now (ts_pendingRequests s);
          s' = s\<lparr>ts_pendingRequests := erase_sequences expired (ts_pendingRequests s)\<rparr>
      in (ts_pendingRequests s' \<noteq> [], s', if ts_timeoutCallback s then map TsCallTimeout expired else []))"

definition TcpServer_rearm :: "bool \<Rightarrow> tcp_proc" where
  "TcpServer_rearm hasPending =
     (if hasPending then seqs [modify (\<lambda>s. s\<lparr>ts_timerWaits := Suc (ts_timerWaits s)\<rparr>), emit TsTimerWait]
      else modify (\<lambda>s. s\<lparr>ts_timeoutTimerRunning := False\<rparr>))"

definition TcpServer_checkTimeouts :: "error_code \<Rightarrow> time \<Rightarrow> tcp_proc" where
  "TcpServer_checkTimeouts ec now s =
     (if ec \<noteq> None then (s\<lparr>ts_timeoutTimerRunning := False\<rparr>, [])
      else (let (hasPending, s1, os1) = TcpServer_scan now s;
                (s2, os2) = TcpServer_rearm hasPending s1
            in (s2, os1 @ os2)))"

text \<open>\<open>handleIncomingPacket\<close>: first the response callback, then the packet callback.\<close>

definition TcpServer_matchResponse :: "int \<Rightarrow> packet \<Rightarrow> tcp_proc" where
  "TcpServer_matchResponse connectionId packet s =
     (if ph_packetId (pk_header packet) = RESPONSE
      then (case map_of (ts_pendingRequests s) (ph_sequence (pk_header packet)) of
              None \<Rightarrow> (s, [])
            | Some request \<Rightarrow>
                (s\<lparr>ts_pendingRequests := AList.delete (ph_sequence (pk_header packet)) (ts_pendingRequests s)\<rparr>,
                 case pr_callback request of None \<Rightarrow> [] | Some cb \<Rightarrow> [TsCallResponse cb connectionId packet]))
      else (s, []))"

partial_function (option) TcpServer_handleIncomingPacket ::
  "int \<Rightarrow> packet \<Rightarrow> tcp_server \<Rightarrow> (tcp_server \<times> server_out list) option" where
  "TcpServer_handleIncomingPacket connectionId packet s =
     (let (s1, os1) = TcpServer_matchResponse connectionId packet s in
      case ts_packetCallback s1 of
        NoCallback \<Rightarrow> Some (s1, os1)
      | UserCallback \<Rightarrow> Some (s1, os1 @ [TsCallPacket connectionId packet])
      | RedirectToHandler \<Rightarrow>
          Option.bind (TcpServer_handleIncomingPacket connectionId packet s1)
            (\<lambda>(s2, os2). Some (s2, os1 @ os2)))"

section \<open>Connections and the server together\<close>

text \<open>What an effect of connection \<open>i\<close> makes the server do.\<close>

fun TcpServer_dispatch :: "int \<Rightarrow> conn_effect \<Rightarrow> tcp_server \<Rightarrow> (tcp_server \<times> server_out list) option" where
  "TcpServer_dispatch i (CoUnregister j) s = Some (TcpServer_unregisterConnection j s)"
| "TcpServer_dispatch i (CoCallPacket j p) s =
     (case map_of (ts_callbacks s) i of
        Some UserCallback \<Rightarrow> Some (s, [TsCallPacket j p])
      | Some RedirectToHandler \<Rightarrow> TcpServer_handleIncomingPacket j p s
      | _ \<Rightarrow> Some (s, []))"
| "TcpServer_dispatch i x s = Some (s, [TsConnection i x])"

fun TcpServer_dispatches :: "int \<Rightarrow> conn_effect list \<Rightarrow> tcp_server \<Rightarrow> (tcp_server \<times> server_out list) option" where
  "TcpServer_dispatches i [] s = Some (s, [])"
| "TcpServer_dispatches i (x # xs) s =
     Option.bind (TcpServer_dispatch i x s) (\<lambda>(s1, os1).
       Option.bind (TcpServer_dispatches i xs s1) (\<lambda>(s2, os2). Some (s2, os1 @ os2)))"

definition TcpServer_connEvent :: "conn_env \<Rightarrow> int \<Rightarrow> conn_event \<Rightarrow> tcp_server \<Rightarrow> (tcp_server \<times> server_out list) option" where
  "TcpServer_connEvent e i ev s =
     (case map_of (ts_objs s) i of
        None \<Rightarrow> Some (s, [])
      | Some c \<Rightarrow>
          (let (c', os) = Connection_step (server_env e s) c ev
           in TcpServer_dispatches i os (s\<lparr>ts_objs := AList.update i c' (ts_objs s)\<rparr>)))"

section \<open>Handling a packet never returns after \<open>start\<close>\<close>

lemma TcpServer_matchResponse_callback [simp]:
  "ts_packetCallback (fst (TcpServer_matchResponse i p s)) = ts_packetCallback s"
  by (simp add: TcpServer_matchResponse_def split: option.split)

text \<open>
  With the redirecting callback installed the function satisfies an equation that no defined
  result satisfies; the least solution, which is what the code computes, is undefined.
\<close>

lemma TcpServer_handleIncomingPacket_raw:
  assumes "TcpServer_handleIncomingPacket i p s = Some r"
  shows "ts_packetCallback s \<noteq> RedirectToHandler"
proof (rule TcpServer_handleIncomingPacket.raw_induct
    [where P = "\<lambda>i p s r. ts_packetCallback s \<noteq> RedirectToHandler", OF _ assms], rule notI)
  fix f i p s and r :: "tcp_server \<times> server_out list"
  assume IH: "\<And>i p s r. f i p s = Some r \<Longrightarrow> ts_packetCallback s \<noteq> RedirectToHandler"
    and eq: "(let (s1, os1) = TcpServer_matchResponse i p s in
      case ts_packetCallback s1 of
        NoCallback \<Rightarrow> Some (s1, os1)
      | UserCallback \<Rightarrow> Some (s1, os1 @ [TsCallPacket i p])
      | RedirectToHandler \<Rightarrow> Option.bind (f i p s1) (\<lambda>(s2, os2). Some (s2, os1 @ os2))) = Some r"
    and cb: "ts_packetCallback s = RedirectToHandler"
  let ?s1 = "fst (TcpServer_matchResponse i p s)"
  have cb1: "ts_packetCallback ?s1 = RedirectToHandler" using cb by simp
  with eq obtain r' where "f i p ?s1 = Some r'"
    by (simp only: case_prod_beta Let_def packet_cb.case) (auto simp: bind_eq_Some_conv)
  from IH [OF this] cb1 show False by simp
qed

lemma TcpServer_redirect_diverges:
  "ts_packetCallback s = RedirectToHandler \<Longrightarrow> TcpServer_handleIncomingPacket i p s = None"
  using TcpServer_handleIncomingPacket_raw [of i p s] by (cases "TcpServer_handleIncomingPacket i p s") auto

lemma TcpServer_user_callback:
  "ts_packetCallback s = UserCallback \<Longrightarrow> TcpServer_handleIncomingPacket i p s =
     Some (fst (TcpServer_matchResponse i p s), snd (TcpServer_matchResponse i p s) @ [TsCallPacket i p])"
  using TcpServer_matchResponse_callback [of i p s]
  by (subst TcpServer_handleIncomingPacket.simps) (simp add: case_prod_beta)

lemma ts_packetCallback_startAccept [simp]: "ts_packetCallback (fst (TcpServer_startAccept s)) = ts_packetCallback s"
  by (simp add: TcpServer_startAccept_def Let_def)

text \<open>A server whose application has set its callbacks, then started it; one client is connected.\<close>

definition started_server :: "string \<Rightarrow> bool \<Rightarrow> tcp_server" where
  "started_server sid cc =
     fst (TcpServer_onAccept None (fst (TcpServer_start (TcpServer_setCallbacks UserCallback cc (TcpServer_new sid)))))"

lemma started_server_fields:
  "ts_packetCallback (started_server sid cc) = RedirectToHandler"
  "map_of (ts_callbacks (started_server sid cc)) 1 = Some RedirectToHandler"
  "map_of (ts_objs (started_server sid cc)) 1 =
     Some (fst (Connection_start True cc (Connection_create 1)))"
  "ts_closedCallback (started_server sid cc) = cc" "ts_connections (started_server sid cc) = [1]"
  "ts_acceptorOpen (started_server sid cc)"
  by (simp_all add: started_server_def TcpServer_onAccept_def TcpServer_start_def TcpServer_setCallbacks_def
      TcpServer_new_def TcpServer_startAccept_def TcpServer_registerConnection_def on_connection_def
      case_prod_beta Let_def update_conv')

text \<open>
  C38: after \<open>start\<close>, whatever callbacks the application has set before, handling a packet never
  returns: the packet callback that \<open>start\<close> installs calls \<open>handleIncomingPacket\<close>, which calls the
  packet callback. So the first packet of the first client, here one without payload, is never
  handled to the end.
\<close>

theorem tcp_server_start_recurses:
  "TcpServer_handleIncomingPacket j p (fst (TcpServer_start s)) = None \<and>
   TcpServer_connEvent e 1 (CoHeaderRead None (header_wire p1 p2 (pk_header (createPacket i st sq [])))) (started_server sid cc) = None"
proof
  show "TcpServer_handleIncomingPacket j p (fst (TcpServer_start s)) = None"
    by (simp add: TcpServer_redirect_diverges TcpServer_start_def TcpServer_setCallbacks_def)
  let ?p = "createPacket i st sq []" and ?s = "started_server sid cc" and ?e = "server_env e (started_server sid cc)"
  let ?c = "fst (Connection_start True cc (Connection_create 1))"
  have idle: "rd_idle (co_reader ?c)"
    by (simp add: Connection_start_def Connection_readHeader_def Connection_create_def rd_inv_new)
  have "wf_packet ?p" "pk_payload ?p = []" by (simp_all add: wf_createPacket) (simp add: createPacket_def)
  from rd_onHeader_empty [OF idle this, of "en_host ?e" p1 p2] obtain r q where
    r: "rd_onHeader (en_host ?e) (header_wire p1 p2 (pk_header ?p)) (co_reader ?c) = (r, RoPacket q)"
    by blast
  have "co_packetCallback ?c" by (simp add: Connection_start_def Connection_readHeader_def)
  then obtain xs where "snd (Connection_step ?e ?c (CoHeaderRead None (header_wire p1 p2 (pk_header ?p))))
      = CoCallPacket (co_id ?c) q # xs"
    by (simp add: Connection_onHeader_def r Connection_processPacket_def)
  then show "TcpServer_connEvent e 1 (CoHeaderRead None (header_wire p1 p2 (pk_header ?p))) ?s = None"
    by (simp add: TcpServer_connEvent_def started_server_fields case_prod_beta TcpServer_redirect_diverges
        del: Connection_step.simps)
qed

section \<open>Requests refine the specification\<close>

datatype tcp_request_event =
    TsSendRequest int string time "nat option" bool time
  | TsResponse int packet
  | TsCancelRequest u32
  | TsTimer time

text \<open>The operations on requests, each run as a whole. A completed wait is not outstanding any more.\<close>

fun TcpServer_request_step :: "conn_env \<Rightarrow> tcp_server \<Rightarrow> tcp_request_event \<Rightarrow> tcp_server \<times> server_out list" where
  "TcpServer_request_step e s (TsSendRequest i data t cb tcb now) = snd (TcpServer_sendRequest e i data t cb tcb now s)"
| "TcpServer_request_step e s (TsResponse i p) = TcpServer_matchResponse i p s"
| "TcpServer_request_step e s (TsCancelRequest sq) = (snd (TcpServer_cancelRequest sq s), [])"
| "TcpServer_request_step e s (TsTimer now) =
     TcpServer_checkTimeouts None now (s\<lparr>ts_timerWaits := ts_timerWaits s - 1\<rparr>)"

text \<open>
  The specification: the next number, the connections, and the outstanding requests. A response
  reaches the callback of the request with its number, whichever connection it comes from.
\<close>

type_synonym tcp_requests = "u32 \<times> int set \<times> (u32 \<rightharpoonup> pending_request)"

fun tcp_request_spec :: "tcp_requests \<Rightarrow> tcp_request_event \<Rightarrow> tcp_requests \<times> server_out list" where
  "tcp_request_spec (n, C, m) (TsSendRequest i data t cb tcb now) =
     (if i \<in> C then ((n + 1, C, m(n \<mapsto> \<lparr>pr_expiryTime = now + t, pr_connectionId = i, pr_callback = cb\<rparr>)), [])
      else ((n + 1, C, m), []))"
| "tcp_request_spec (n, C, m) (TsResponse i p) =
     (if ph_packetId (pk_header p) = RESPONSE
      then ((n, C, m(ph_sequence (pk_header p) := None)),
            case m (ph_sequence (pk_header p)) of
              None \<Rightarrow> [] | Some r \<Rightarrow> (case pr_callback r of None \<Rightarrow> [] | Some cb \<Rightarrow> [TsCallResponse cb i p]))
      else ((n, C, m), []))"
| "tcp_request_spec (n, C, m) (TsCancelRequest sq) = ((n, C, m(sq := None)), [])"
| "tcp_request_spec (n, C, m) (TsTimer now) =
     ((n, C, fst (request_spec pr_expiryTime m (RqSweep now))),
      map TsCallTimeout (sorted_list_of_set {s. \<exists>r. m s = Some r \<and> pr_expiryTime r \<le> now}))"

fun request_visible :: "server_out \<Rightarrow> server_out option" where
  "request_visible (TsCallTimeout s) = Some (TsCallTimeout s)"
| "request_visible (TsCallResponse cb i p) = Some (TsCallResponse cb i p)"
| "request_visible _ = None"

definition tcp_requests_rel :: "tcp_server \<Rightarrow> tcp_requests \<Rightarrow> bool" where
  "tcp_requests_rel s a \<longleftrightarrow> ts_nextSequence s = fst a \<and> set (ts_connections s) = fst (snd a)
     \<and> requests_rel (ts_pendingRequests s) (snd (snd a)) \<and> ts_timeoutCallback s"

lemma on_connection_fields [simp]:
  "ts_nextSequence (fst (on_connection i p s)) = ts_nextSequence s"
  "ts_connections (fst (on_connection i p s)) = ts_connections s"
  "ts_pendingRequests (fst (on_connection i p s)) = ts_pendingRequests s"
  "ts_timeoutCallback (fst (on_connection i p s)) = ts_timeoutCallback s"
  "ts_timeoutTimerRunning (fst (on_connection i p s)) = ts_timeoutTimerRunning s"
  "ts_timerWaits (fst (on_connection i p s)) = ts_timerWaits s"
  by (simp_all add: on_connection_def case_prod_beta split: option.split)

lemma on_connection_visible [simp]: "List.map_filter request_visible (snd (on_connection i p s)) = []"
  by (simp add: on_connection_def case_prod_beta List.map_filter_def split: option.split)

declare List.map_filter_simps [simp]

lemma map_filter_timeouts [simp]: "List.map_filter request_visible (map TsCallTimeout ss) = map TsCallTimeout ss"
  by (induction ss) simp_all

text \<open>\<open>sendRequest\<close>, by whether the connection is registered.\<close>

lemma TcpServer_sendRequest_cases:
  shows "fst (TcpServer_sendRequest e i data t cb tcb now s) = (if i \<in> set (ts_connections s) then ts_nextSequence s else 0)"
    and "ts_nextSequence (fst (snd (TcpServer_sendRequest e i data t cb tcb now s))) = ts_nextSequence s + 1"
    and "ts_connections (fst (snd (TcpServer_sendRequest e i data t cb tcb now s))) = ts_connections s"
    and "ts_timeoutCallback (fst (snd (TcpServer_sendRequest e i data t cb tcb now s))) = (ts_timeoutCallback s \<or> i \<in> set (ts_connections s) \<and> tcb)"
    and "ts_pendingRequests (fst (snd (TcpServer_sendRequest e i data t cb tcb now s))) = (if i \<in> set (ts_connections s)
           then omap_put (ts_nextSequence s) \<lparr>pr_expiryTime = now + t, pr_connectionId = i, pr_callback = cb\<rparr> (ts_pendingRequests s)
           else ts_pendingRequests s)"
    and "ts_timeoutTimerRunning (fst (snd (TcpServer_sendRequest e i data t cb tcb now s))) = (ts_timeoutTimerRunning s \<or> i \<in> set (ts_connections s))"
    and "ts_timerWaits (fst (snd (TcpServer_sendRequest e i data t cb tcb now s))) =
           (if i \<in> set (ts_connections s) \<and> \<not> ts_timeoutTimerRunning s then Suc (ts_timerWaits s) else ts_timerWaits s)"
    and "List.map_filter request_visible (snd (snd (TcpServer_sendRequest e i data t cb tcb now s))) = []"
  by (auto simp: TcpServer_sendRequest_def TcpServer_getNextSequence_def TcpServer_sendPacketTo_def
      TcpServer_startTimer_def Let_def case_prod_beta)

lemma TcpServer_checkTimeouts_cases:
  shows "ts_pendingRequests (fst (TcpServer_checkTimeouts None now s)) = erase_sequences (expired_sequences pr_expiryTime now (ts_pendingRequests s)) (ts_pendingRequests s)"
    and "ts_nextSequence (fst (TcpServer_checkTimeouts None now s)) = ts_nextSequence s" and "ts_connections (fst (TcpServer_checkTimeouts None now s)) = ts_connections s"
    and "ts_timeoutCallback (fst (TcpServer_checkTimeouts None now s)) = ts_timeoutCallback s"
    and "ts_timeoutTimerRunning (fst (TcpServer_checkTimeouts None now s)) = (ts_timeoutTimerRunning s \<and> ts_pendingRequests (fst (TcpServer_checkTimeouts None now s)) \<noteq> [])"
    and "ts_timerWaits (fst (TcpServer_checkTimeouts None now s)) = (if ts_pendingRequests (fst (TcpServer_checkTimeouts None now s)) \<noteq> [] then Suc (ts_timerWaits s) else ts_timerWaits s)"
    and "List.map_filter request_visible (snd (TcpServer_checkTimeouts None now s)) = (if ts_timeoutCallback s then map TsCallTimeout (expired_sequences pr_expiryTime now (ts_pendingRequests s)) else [])"
  by (auto simp: TcpServer_checkTimeouts_def TcpServer_scan_def TcpServer_rearm_def Let_def case_prod_beta)

lemma requests_rel_match:
  "requests_rel t m \<Longrightarrow> map_of t s = None \<Longrightarrow> requests_rel t (m(s := None))"
  by (auto simp: requests_rel_def fun_upd_idem)

interpretation tcp_requests: simulation "TcpServer_request_step e" tcp_request_spec tcp_requests_rel "\<lambda>_ _. True" request_visible for e
proof
  fix s a ev
  assume rel: "tcp_requests_rel s a"
  obtain n C m where a: "a = (n, C, m)" by (metis prod.exhaust)
  have r: "ts_nextSequence s = n" "set (ts_connections s) = C" "requests_rel (ts_pendingRequests s) m" "ts_timeoutCallback s"
    using rel by (simp_all add: tcp_requests_rel_def a)
  have m: "map_of (ts_pendingRequests s) = m" using r(3) by (simp add: requests_rel_def)
  show "tcp_requests_rel (fst (TcpServer_request_step e s ev)) (fst (tcp_request_spec a ev)) \<and>
      List.map_filter request_visible (snd (TcpServer_request_step e s ev)) = snd (tcp_request_spec a ev)"
  proof (cases ev)
    case (TsSendRequest i data t cb tcb now)
    with r show ?thesis
      by (auto simp: a tcp_requests_rel_def TcpServer_sendRequest_cases requests_rel_put)
  next
    case (TsResponse i p)
    with r m show ?thesis
      by (auto simp: a tcp_requests_rel_def TcpServer_matchResponse_def requests_rel_delete requests_rel_match
          split: option.split)
  next
    case (TsCancelRequest sq)
    with r show ?thesis
      by (simp add: a tcp_requests_rel_def TcpServer_cancelRequest_def requests_rel_delete)
  next
    case (TsTimer now)
    with r requests_rel_sweep(1) [OF r(3), of pr_expiryTime now] expired_sorted_list [of "ts_pendingRequests s" pr_expiryTime now]
    show ?thesis
      by (auto simp: a tcp_requests_rel_def TcpServer_checkTimeouts_cases m requests_rel_def)
  qed
qed

text \<open>
  C11: a server with a timeout callback implements the specification of requests for every
  sequence of requests, responses, cancellations and timer expiries: a response invokes the
  callback of the request with its number, once; an expiry reports exactly the requests whose
  time has come, in ascending order; a request to an unknown connection is not kept.
\<close>

theorem tcp_server_requests_refine:
  assumes "ts_timeoutCallback s" and "omap_inv (ts_pendingRequests s)"
  shows "List.map_filter request_visible (snd (run (TcpServer_request_step e) s evs)) =
    snd (run tcp_request_spec (ts_nextSequence s, set (ts_connections s), map_of (ts_pendingRequests s)) evs)"
proof -
  have "allowed (\<lambda>_ _. True) tcp_request_spec a evs" for a
    by (induction evs arbitrary: a) simp_all
  moreover have "tcp_requests_rel s (ts_nextSequence s, set (ts_connections s), map_of (ts_pendingRequests s))"
    using assms by (simp add: tcp_requests_rel_def requests_rel_def)
  ultimately show ?thesis using tcp_requests.run_sim by blast
qed

text \<open>A server with one registered connection and a timeout callback, for the concrete runs.\<close>

definition sample_tcp_server :: tcp_server where
  "sample_tcp_server = TcpServer_setTimeoutCallback True (started_server ''S'' True)"

lemma sample_tcp_server_fields:
  "ts_timeoutCallback sample_tcp_server" "ts_pendingRequests sample_tcp_server = []"
  "ts_connections sample_tcp_server = [1]" "ts_nextSequence sample_tcp_server = 1"
  "\<not> ts_timeoutTimerRunning sample_tcp_server" "ts_timerWaits sample_tcp_server = 0"
  by (simp_all add: sample_tcp_server_def TcpServer_setTimeoutCallback_def started_server_def TcpServer_onAccept_def
      TcpServer_start_def TcpServer_setCallbacks_def TcpServer_new_def TcpServer_startAccept_def
      TcpServer_registerConnection_def on_connection_def case_prod_beta Let_def update_conv')

theorem tcp_server_requests_refine_witness:
  "let p = createPacket_string RESPONSE 0 2 ''ok'';
       evs = [TsSendRequest 1 ''a'' 50 (Some 7) False 0, TsSendRequest 1 ''b'' 50 (Some 8) False 10, TsSendRequest 9 ''c'' 50 None False 10,
              TsResponse 1 p, TsResponse 1 p, TsTimer 60]
   in List.map_filter request_visible (snd (run (TcpServer_request_step sample_env) sample_tcp_server evs))
      = [TsCallResponse 8 1 p, TsCallTimeout 1]"
proof -
  let ?p = "createPacket_string RESPONSE 0 2 ''ok''"
  let ?evs = "[TsSendRequest 1 ''a'' 50 (Some 7) False 0, TsSendRequest 1 ''b'' 50 (Some 8) False 10,
    TsSendRequest 9 ''c'' 50 None False 10, TsResponse 1 ?p, TsResponse 1 ?p, TsTimer 60]"
  have p: "ph_packetId (pk_header ?p) = RESPONSE" "ph_sequence (pk_header ?p) = 2"
    by (simp_all add: createPacket_string_def createPacket_def)
  have "{s :: u32. s = 1} = {1}" by auto
  then have "snd (run tcp_request_spec (1, {1}, Map.empty) ?evs) = [TsCallResponse 8 1 ?p, TsCallTimeout 1]"
    by (simp add: p fun_upd_twist cong: conj_cong)
  then show ?thesis
    using tcp_server_requests_refine [of sample_tcp_server sample_env ?evs]
    by (simp add: sample_tcp_server_fields omap_inv_def Let_def)
qed

section \<open>The timeout timer\<close>

fun timer_ok :: "tcp_server \<Rightarrow> tcp_request_event \<Rightarrow> bool" where
  "timer_ok s (TsTimer now) = (0 < ts_timerWaits s)"
| "timer_ok s _ = True"

definition timer_inv :: "tcp_server \<Rightarrow> bool" where
  "timer_inv s \<longleftrightarrow> ts_timerWaits s = (if ts_timeoutTimerRunning s then 1 else 0)
     \<and> (ts_pendingRequests s \<noteq> [] \<longrightarrow> ts_timeoutTimerRunning s)"

interpretation tcp_timer: machine "TcpServer_request_step e" timer_ok timer_inv for e
proof
  fix s ev
  assume inv: "timer_inv s" and ok: "timer_ok s ev"
  show "timer_inv (fst (TcpServer_request_step e s ev))"
  proof (cases ev)
    case (TsSendRequest i data t cb tcb now)
    with inv show ?thesis by (auto simp: timer_inv_def TcpServer_sendRequest_cases)
  next
    case (TsResponse i p)
    with inv show ?thesis by (auto simp: timer_inv_def TcpServer_matchResponse_def split: option.split)
  next
    case (TsCancelRequest sq)
    with inv show ?thesis by (auto simp: timer_inv_def TcpServer_cancelRequest_def)
  next
    case (TsTimer now)
    with inv ok show ?thesis by (auto simp: timer_inv_def TcpServer_checkTimeouts_cases split: if_splits)
  qed
qed



text \<open>
  The operations are not atomic. If a request is sent between the critical section of
  \<open>checkTimeouts\<close>, which has found no pending request, and the reset of \<open>timeoutTimerRunning_\<close>,
  the request is pending but no wait is outstanding and the timer is marked as not running: it
  does not time out until another request is sent.
\<close>

theorem tcp_server_lost_wakeup:
  assumes "i \<in> set (ts_connections s)" and "ts_timeoutTimerRunning s" and "ts_timerWaits s = 0"
    and "erase_sequences (expired_sequences pr_expiryTime now (ts_pendingRequests s)) (ts_pendingRequests s) = []"
  shows "let (hasPending, s1, _) = TcpServer_scan now s;
             (sq, s2, _) = TcpServer_sendRequest e i data t cb tcb now' s1;
             (s3, _) = TcpServer_rearm hasPending s2
         in ts_pendingRequests s3 \<noteq> [] \<and> ts_timerWaits s3 = 0 \<and> \<not> ts_timeoutTimerRunning s3"
  using assms
  by (simp add: TcpServer_scan_def TcpServer_rearm_def Let_def case_prod_beta TcpServer_sendRequest_cases)

theorem tcp_server_lost_wakeup_witness:
  "let s = sample_tcp_server\<lparr>ts_timeoutTimerRunning := True\<rparr>;
       (hasPending, s1, _) = TcpServer_scan 9 s;
       (sq, s2, _) = TcpServer_sendRequest sample_env 1 ''a'' 50 None False 9 s1;
       (s3, _) = TcpServer_rearm hasPending s2
   in ts_pendingRequests s3 \<noteq> [] \<and> ts_timerWaits s3 = 0 \<and> \<not> ts_timeoutTimerRunning s3"
proof -
  let ?s = "sample_tcp_server\<lparr>ts_timeoutTimerRunning := True\<rparr>"
  have "1 \<in> set (ts_connections ?s)" "ts_timeoutTimerRunning ?s" "ts_timerWaits ?s = 0"
    "erase_sequences (expired_sequences pr_expiryTime 9 (ts_pendingRequests ?s)) (ts_pendingRequests ?s) = []"
    by (simp_all add: sample_tcp_server_fields erase_sequences_def expired_sequences_def)
  from tcp_server_lost_wakeup [OF this, of sample_env "''a''" 50 None False 9] show ?thesis
    by (simp only: Let_def)
qed

lemma TcpServer_unregisterConnection_eq:
  "TcpServer_unregisterConnection i s =
     (s\<lparr>ts_connections := removeAll i (ts_connections s)\<rparr>, if ts_closedCallback s then [TsCallClosed i] else [])"
  by (simp add: TcpServer_unregisterConnection_def prod_eq_iff)

text \<open>
  A connection whose read fails while a write is outstanding is reported as closed twice, if
  the write fails as well: both handlers unregister the connection, and unregistering one that is
  not registered any more still invokes the callback.
\<close>

theorem tcp_server_closed_twice:
  "let s0 = started_server sid True;
       r1 = TcpServer_connEvent e 1 (CoSend p) s0;
       r2 = Option.bind r1 (TcpServer_connEvent e 1 CoRunPosted \<circ> fst);
       r3 = Option.bind r2 (TcpServer_connEvent e 1 (CoHeaderRead (Some (other_error a)) []) \<circ> fst);
       r4 = Option.bind r3 (TcpServer_connEvent e 1 (CoWriteDone (Some (other_error b)) 0) \<circ> fst)
   in map_option snd r3 = Some [TsCallClosed 1] \<and> map_option (ts_connections \<circ> fst) r3 = Some [] \<and>
      map_option snd r4 = Some [TsCallClosed 1]"
  by (simp add: TcpServer_connEvent_def started_server_fields case_prod_beta Connection_start_def Connection_readHeader_def
      Connection_create_def Connection_send_defs Let_def update_conv' wq_new_def wq_enqueue_def wq_doWrite_def
      Connection_onHeader_def Connection_readError_def Connection_onWrite_def wq_onWrite_def
      TcpServer_unregisterConnection_eq)

end
