(* ===== verification/ThreadPool.thy ===== *)
theory ThreadPool
  imports Prelude "HOL-Library.Multiset"
begin

text \<open>
  \<open>ThreadPool\<close> of \<open>claude/server.cpp\<close>: workers that take tasks from a queue, under a mutex and a
  condition variable.

  A worker is between two tasks (\<open>Checking\<close>: it is about to enter the critical section), asleep in
  \<open>condition.wait\<close>, running a task, or it has returned. The critical section of the worker, that
  of \<open>enqueue\<close> and that of the destructor are functions of the pool; the steps of all threads
  together are an inductive relation. Notifications take effect after the critical section that
  leads to them, so the pool counts the ones that are still to come. A worker may also wake up
  for no reason, as the standard allows.
\<close>

section \<open>The pool and its operations\<close>

datatype 'a worker = Checking | Sleeping | Running 'a | Returned

record 'a pool =
  tp_tasks :: "'a list"
  tp_stop :: bool
  tp_workers :: "'a worker list"
  \<comment> \<open>calls of \<open>notify_one\<close> and \<open>notify_all\<close> that are still to take effect\<close>
  tp_notify_one :: nat
  tp_notify_all :: bool

definition ThreadPool_new :: "nat \<Rightarrow> 'a pool" where
  "ThreadPool_new numThreads = \<lparr>tp_tasks = [], tp_stop = False, tp_workers = replicate numThreads Checking,
     tp_notify_one = 0, tp_notify_all = False\<rparr>"

text \<open>\<open>enqueue\<close> throws once the pool is stopped.\<close>

definition ThreadPool_enqueue :: "'a \<Rightarrow> 'a pool \<Rightarrow> string + 'a pool" where
  "ThreadPool_enqueue f p =
     (if tp_stop p then Inl ''ThreadPool is stopped''
      else Inr (p\<lparr>tp_tasks := tp_tasks p @ [f], tp_notify_one := tp_notify_one p + 1\<rparr>))"

definition ThreadPool_destroy :: "'a pool \<Rightarrow> 'a pool" where
  "ThreadPool_destroy p = p\<lparr>tp_stop := True, tp_notify_all := True\<rparr>"

text \<open>The destructor returns when every worker can be joined.\<close>

definition ThreadPool_joined :: "'a pool \<Rightarrow> bool" where
  "ThreadPool_joined p \<longleftrightarrow> list_all (\<lambda>w. w = Returned) (tp_workers p)"

text \<open>The critical section of worker \<open>i\<close>: sleep, return, or take the first task.\<close>

definition ThreadPool_acquire :: "nat \<Rightarrow> 'a pool \<Rightarrow> 'a pool" where
  "ThreadPool_acquire i p =
     (if \<not> (tp_stop p \<or> tp_tasks p \<noteq> []) then p\<lparr>tp_workers := (tp_workers p)[i := Sleeping]\<rparr>
      else if tp_stop p \<and> tp_tasks p = [] then p\<lparr>tp_workers := (tp_workers p)[i := Returned]\<rparr>
      else p\<lparr>tp_workers := (tp_workers p)[i := Running (hd (tp_tasks p))], tp_tasks := tl (tp_tasks p)\<rparr>)"

text \<open>\<open>task()\<close> has returned.\<close>

definition ThreadPool_finish :: "nat \<Rightarrow> 'a pool \<Rightarrow> 'a pool" where
  "ThreadPool_finish i p = p\<lparr>tp_workers := (tp_workers p)[i := Checking]\<rparr>"

definition ThreadPool_wake :: "nat \<Rightarrow> 'a pool \<Rightarrow> 'a pool" where
  "ThreadPool_wake i p = p\<lparr>tp_workers := (tp_workers p)[i := Checking]\<rparr>"

definition woken :: "'a worker \<Rightarrow> 'a worker" where
  "woken w = (if w = Sleeping then Checking else w)"

section \<open>The steps of all threads\<close>

datatype 'a pool_act = Enqueued 'a | Stopped | Taken nat 'a | Finished nat 'a | Returning nat | Sleeps nat | Notified | Spurious

inductive pool_step :: "'a pool \<Rightarrow> 'a pool_act \<Rightarrow> 'a pool \<Rightarrow> bool" where
  enqueue: "ThreadPool_enqueue f p = Inr p' \<Longrightarrow> pool_step p (Enqueued f) p'"
| destroy: "\<not> tp_stop p \<Longrightarrow> pool_step p Stopped (ThreadPool_destroy p)"
| sleep: "i < length (tp_workers p) \<Longrightarrow> tp_workers p ! i = Checking \<Longrightarrow> \<not> tp_stop p \<Longrightarrow> tp_tasks p = [] \<Longrightarrow>
    pool_step p (Sleeps i) (ThreadPool_acquire i p)"
| return: "i < length (tp_workers p) \<Longrightarrow> tp_workers p ! i = Checking \<Longrightarrow> tp_stop p \<Longrightarrow> tp_tasks p = [] \<Longrightarrow>
    pool_step p (Returning i) (ThreadPool_acquire i p)"
| take: "i < length (tp_workers p) \<Longrightarrow> tp_workers p ! i = Checking \<Longrightarrow> tp_tasks p = f # fs \<Longrightarrow>
    pool_step p (Taken i f) (ThreadPool_acquire i p)"
| finish: "i < length (tp_workers p) \<Longrightarrow> tp_workers p ! i = Running f \<Longrightarrow>
    pool_step p (Finished i f) (ThreadPool_finish i p)"
| notify_one: "0 < tp_notify_one p \<Longrightarrow> i < length (tp_workers p) \<Longrightarrow> tp_workers p ! i = Sleeping \<Longrightarrow>
    pool_step p Notified (ThreadPool_wake i (p\<lparr>tp_notify_one := tp_notify_one p - 1\<rparr>))"
| notify_none: "0 < tp_notify_one p \<Longrightarrow> Sleeping \<notin> set (tp_workers p) \<Longrightarrow>
    pool_step p Notified (p\<lparr>tp_notify_one := tp_notify_one p - 1\<rparr>)"
| notify_all: "tp_notify_all p \<Longrightarrow>
    pool_step p Notified (p\<lparr>tp_workers := map woken (tp_workers p), tp_notify_all := False\<rparr>)"
| spurious: "i < length (tp_workers p) \<Longrightarrow> tp_workers p ! i = Sleeping \<Longrightarrow>
    pool_step p Spurious (ThreadPool_wake i p)"

inductive pool_run :: "'a pool \<Rightarrow> 'a pool_act list \<Rightarrow> 'a pool \<Rightarrow> bool" where
  pool_run_refl: "pool_run p [] p"
| pool_run_step: "pool_run p tr q \<Longrightarrow> pool_step q a r \<Longrightarrow> pool_run p (tr @ [a]) r"

lemmas pool_defs = ThreadPool_enqueue_def ThreadPool_destroy_def ThreadPool_acquire_def ThreadPool_finish_def
  ThreadPool_wake_def

lemma pool_run_append: "pool_run q tr' r \<Longrightarrow> pool_run p tr q \<Longrightarrow> pool_run p (tr @ tr') r"
  by (induction rule: pool_run.induct) (auto simp flip: append_assoc intro: pool_run.intros)

lemma enqueue_Inr: "ThreadPool_enqueue f p = Inr p' \<longleftrightarrow>
    \<not> tp_stop p \<and> p' = p\<lparr>tp_tasks := tp_tasks p @ [f], tp_notify_one := tp_notify_one p + 1\<rparr>"
  by (auto simp: ThreadPool_enqueue_def)

text \<open>
  The same steps as a function of the thread that moves, for the server that owns the pool and
  for the evaluation of runs.
\<close>

datatype 'a pool_move = DoEnqueue 'a | DoDestroy | DoWorker nat | DoFinish nat | DoNotify nat | DoNotifyNone | DoNotifyAll | DoSpurious nat

definition worker_is :: "'a pool \<Rightarrow> nat \<Rightarrow> 'a worker \<Rightarrow> bool" where
  "worker_is p i w \<longleftrightarrow> i < length (tp_workers p) \<and> tp_workers p ! i = w"

fun pool_exec :: "'a pool \<Rightarrow> 'a pool_move \<Rightarrow> ('a pool_act \<times> 'a pool) option" where
  "pool_exec p (DoEnqueue f) = (case ThreadPool_enqueue f p of Inl _ \<Rightarrow> None | Inr p' \<Rightarrow> Some (Enqueued f, p'))"
| "pool_exec p DoDestroy = (if tp_stop p then None else Some (Stopped, ThreadPool_destroy p))"
| "pool_exec p (DoWorker i) =
     (if \<not> worker_is p i Checking then None
      else Some (case tp_tasks p of [] \<Rightarrow> if tp_stop p then Returning i else Sleeps i | f # _ \<Rightarrow> Taken i f,
                 ThreadPool_acquire i p))"
| "pool_exec p (DoFinish i) =
     (if i < length (tp_workers p)
      then (case tp_workers p ! i of Running f \<Rightarrow> Some (Finished i f, ThreadPool_finish i p) | _ \<Rightarrow> None)
      else None)"
| "pool_exec p (DoNotify i) =
     (if 0 < tp_notify_one p \<and> worker_is p i Sleeping
      then Some (Notified, ThreadPool_wake i (p\<lparr>tp_notify_one := tp_notify_one p - 1\<rparr>)) else None)"
| "pool_exec p DoNotifyNone =
     (if 0 < tp_notify_one p \<and> Sleeping \<notin> set (tp_workers p)
      then Some (Notified, p\<lparr>tp_notify_one := tp_notify_one p - 1\<rparr>) else None)"
| "pool_exec p DoNotifyAll =
     (if tp_notify_all p then Some (Notified, p\<lparr>tp_workers := map woken (tp_workers p), tp_notify_all := False\<rparr>) else None)"
| "pool_exec p (DoSpurious i) = (if worker_is p i Sleeping then Some (Spurious, ThreadPool_wake i p) else None)"

lemma pool_exec_step: "pool_exec p m = Some (a, q) \<Longrightarrow> pool_step p a q"
  by (cases m) (auto simp: worker_is_def split: if_splits sum.splits worker.splits list.splits
      simp del: One_nat_def intro: pool_step.intros)

fun pool_execs :: "'a pool \<Rightarrow> 'a pool_move list \<Rightarrow> ('a pool_act list \<times> 'a pool) option" where
  "pool_execs p [] = Some ([], p)"
| "pool_execs p (m # ms) =
     (case pool_exec p m of None \<Rightarrow> None
      | Some (a, q) \<Rightarrow> map_option (\<lambda>(tr, r). (a # tr, r)) (pool_execs q ms))"

lemma pool_run_Cons: "pool_step p a q \<Longrightarrow> pool_run q tr r \<Longrightarrow> pool_run p (a # tr) r"
  using pool_run_append [of q tr r p "[a]"] pool_run_step [OF pool_run_refl, of p a q] by simp

lemma pool_execs_run: "pool_execs p ms = Some (tr, q) \<Longrightarrow> pool_run p tr q"
  by (induction ms arbitrary: p tr)
    (auto split: option.splits intro: pool_run_refl pool_run_Cons pool_exec_step)

text \<open>What a trace says of the tasks.\<close>

fun enqueued :: "'a pool_act \<Rightarrow> 'a option" where
  "enqueued (Enqueued f) = Some f" | "enqueued _ = None"

fun taken :: "'a pool_act \<Rightarrow> 'a option" where
  "taken (Taken i f) = Some f" | "taken _ = None"

fun finished :: "'a pool_act \<Rightarrow> 'a option" where
  "finished (Finished i f) = Some f" | "finished _ = None"

fun running_task :: "'a worker \<Rightarrow> 'a option" where
  "running_task (Running f) = Some f" | "running_task _ = None"

definition running :: "'a pool \<Rightarrow> 'a multiset" where
  "running p = mset (List.map_filter running_task (tp_workers p))"

section \<open>Every task is run once, in the order of the queue\<close>

lemma mset_map_filter_update:
  assumes "i < length ws"
  shows "mset (List.map_filter f (ws[i := w])) + mset (List.map_filter f [ws ! i])
    = mset (List.map_filter f ws) + mset (List.map_filter f [w])"
proof -
  have ws: "ws = take i ws @ ws ! i # drop (Suc i) ws" "ws[i := w] = take i ws @ w # drop (Suc i) ws"
    using assms by (simp_all add: id_take_nth_drop upd_conv_take_nth_drop)
  show ?thesis
    unfolding ws(2) by (subst (4) ws(1)) (simp add: List.map_filter_def)
qed

lemma running_update:
  assumes "i < length (tp_workers p)" and "tp_workers q = (tp_workers p)[i := w]"
  shows "running q + mset (List.map_filter running_task [tp_workers p ! i])
    = running p + mset (List.map_filter running_task [w])"
  unfolding running_def assms(2) using mset_map_filter_update [OF assms(1), of running_task w] by simp

lemma running_other [simp]:
  "running (p\<lparr>tp_tasks := ts\<rparr>) = running p" "running (p\<lparr>tp_notify_one := n\<rparr>) = running p"
  "running (p\<lparr>tp_notify_all := b\<rparr>) = running p" "running (p\<lparr>tp_stop := c\<rparr>) = running p"
  by (simp_all add: running_def)

lemma running_woken [simp]: "running (p\<lparr>tp_workers := map woken (tp_workers p)\<rparr>) = running p"
proof -
  have "running_task (woken w) = running_task w" for w :: "'a worker"
    by (cases w) (simp_all add: woken_def)
  then show ?thesis by (simp add: running_def List.map_filter_def filter_map o_def)
qed

definition pool_ledger :: "'a pool_act list \<Rightarrow> 'a pool \<Rightarrow> bool" where
  "pool_ledger tr p \<longleftrightarrow> List.map_filter enqueued tr = List.map_filter taken tr @ tp_tasks p \<and>
     mset (List.map_filter taken tr) = mset (List.map_filter finished tr) + running p"

lemma pool_ledger_step: "pool_step p a q \<Longrightarrow> pool_ledger tr p \<Longrightarrow> pool_ledger (tr @ [a]) q"
proof (induction rule: pool_step.induct)
  case (take i p f fs)
  then show ?case
    using running_update [OF take(1), of "ThreadPool_acquire i p" "Running f"]
    by (simp add: pool_ledger_def ThreadPool_acquire_def List.map_filter_simps)
next
  case (finish i p f)
  then show ?case
    using running_update [OF finish(1), of "ThreadPool_finish i p" Checking]
    by (simp add: pool_ledger_def ThreadPool_finish_def List.map_filter_simps)
next
  case (notify_one p i)
  then show ?case
    using running_update [OF notify_one(2), of "ThreadPool_wake i (p\<lparr>tp_notify_one := tp_notify_one p - 1\<rparr>)" Checking]
    by (simp add: pool_ledger_def ThreadPool_wake_def List.map_filter_simps)
next
  case (spurious i p)
  then show ?case
    using running_update [OF spurious(1), of "ThreadPool_wake i p" Checking]
    by (simp add: pool_ledger_def ThreadPool_wake_def List.map_filter_simps)
next
  case (sleep i p)
  then show ?case
    using running_update [OF sleep(1), of "ThreadPool_acquire i p" Sleeping]
    by (simp add: pool_ledger_def ThreadPool_acquire_def List.map_filter_simps)
next
  case (return i p)
  then show ?case
    using running_update [OF return(1), of "ThreadPool_acquire i p" Returned]
    by (simp add: pool_ledger_def ThreadPool_acquire_def List.map_filter_simps)
qed (auto simp: pool_ledger_def enqueue_Inr ThreadPool_destroy_def List.map_filter_simps)

lemma pool_ledger_run: "pool_run p tr q \<Longrightarrow> pool_ledger [] p \<Longrightarrow> pool_ledger tr q"
  by (induction rule: pool_run.induct) (auto intro: pool_ledger_step)

lemma pool_ledger_new: "pool_ledger [] (ThreadPool_new n)"
  by (simp add: pool_ledger_def ThreadPool_new_def running_def List.map_filter_simps)
    (simp add: List.map_filter_def)

text \<open>
  C14: in every interleaving of callers and workers, the tasks that have been taken and those in
  the queue are, in order, the tasks enqueued, and every task taken either has been run to its
  end once or is being run by one worker: no task is lost, repeated or overtaken.
\<close>

theorem pool_exactly_once:
  assumes "pool_run (ThreadPool_new n) tr p"
  shows "List.map_filter enqueued tr = List.map_filter taken tr @ tp_tasks p
    \<and> mset (List.map_filter taken tr) = mset (List.map_filter finished tr) + running p"
  using pool_ledger_run [OF assms pool_ledger_new] by (simp add: pool_ledger_def)

theorem pool_exactly_once_witness:
  "let tr = [Enqueued (7 :: nat), Enqueued 8, Taken 0 7, Taken 1 8, Finished 1 8] in
   \<exists>p. pool_run (ThreadPool_new 2) tr p \<and>
     mset (List.map_filter taken tr) = mset (List.map_filter finished tr) + running p \<and> running p = {#7#}"
proof -
  let ?ms = "[DoEnqueue (7 :: nat), DoEnqueue 8, DoWorker 0, DoWorker 1, DoFinish 1]"
  let ?tr = "[Enqueued (7 :: nat), Enqueued 8, Taken 0 7, Taken 1 8, Finished 1 8]"
  have "pool_execs (ThreadPool_new 2) ?ms =
    Some (?tr, \<lparr>tp_tasks = [], tp_stop = False, tp_workers = [Running 7, Checking], tp_notify_one = 2, tp_notify_all = False\<rparr>)"
    (is "_ = Some (_, ?p)") by code_simp
  then have run: "pool_run (ThreadPool_new 2) ?tr ?p" by (rule pool_execs_run)
  moreover have "running ?p = {#7#}" by (simp add: running_def List.map_filter_simps)
  ultimately show ?thesis using pool_exactly_once [OF run] by (auto simp: Let_def)
qed

section \<open>No lost wake-up\<close>

text \<open>
  A worker returns only when the pool is stopped and the queue empty, and nothing is enqueued
  after that. A worker falls asleep only over an empty queue.
\<close>

definition pool_awake :: "'a pool \<Rightarrow> bool" where
  "pool_awake p \<longleftrightarrow>
     (Returned \<in> set (tp_workers p) \<longrightarrow> tp_stop p \<and> tp_tasks p = []) \<and>
     (tp_stop p \<longrightarrow> tp_notify_all p \<or> Sleeping \<notin> set (tp_workers p)) \<and>
     (tp_tasks p \<noteq> [] \<and> tp_workers p \<noteq> [] \<longrightarrow> 0 < tp_notify_one p \<or> (\<exists>w \<in> set (tp_workers p). w \<noteq> Sleeping))"

lemma set_update_other: "w \<in> set (ws[i := v]) \<Longrightarrow> w \<noteq> v \<Longrightarrow> w \<in> set ws"
  using set_update_subset_insert by fastforce

lemma set_update_awake: "i < length ws \<Longrightarrow> w \<noteq> Sleeping \<Longrightarrow> \<exists>v \<in> set (ws[i := w]). v \<noteq> Sleeping"
  using set_update_memI by fast

text \<open>A worker that has been given a state other than \<open>Sleeping\<close> and \<open>Returned\<close>.\<close>

lemma pool_awake_update:
  assumes "pool_awake p" and "i < length (tp_workers p)" and "tp_workers q = (tp_workers p)[i := w]"
    and "w \<noteq> Sleeping" and "w \<noteq> Returned" and "tp_stop q = tp_stop p" and "tp_notify_all q = tp_notify_all p"
    and "tp_tasks q = tp_tasks p \<or> Returned \<notin> set (tp_workers p)"
  shows "pool_awake q"
  using assms(1,6-8) set_update_awake [OF assms(2,4)] assms(4,5)
  unfolding pool_awake_def assms(3) by (auto dest: set_update_other)

lemma pool_awake_step: "pool_step p a q \<Longrightarrow> pool_awake p \<Longrightarrow> pool_awake q"
proof (induction rule: pool_step.induct)
  case (sleep i p)
  then have "Returned \<notin> set (tp_workers p)" by (auto simp: pool_awake_def)
  with sleep show ?case by (auto simp: pool_awake_def ThreadPool_acquire_def dest: set_update_other)
next
  case (return i p)
  then show ?case by (auto simp: pool_awake_def ThreadPool_acquire_def dest: set_update_other)
next
  case (take i p f fs)
  then have "Returned \<notin> set (tp_workers p)" by (auto simp: pool_awake_def)
  with take(2,3) show ?case
    by - (rule pool_awake_update [OF take(4,1), of _ "Running f"], simp_all add: ThreadPool_acquire_def)
next
  case (finish i p f)
  show ?case by (rule pool_awake_update [OF finish(3,1), of _ Checking]) (simp_all add: ThreadPool_finish_def)
next
  case (notify_one p i)
  show ?case by (rule pool_awake_update [OF notify_one(4,2), of _ Checking]) (simp_all add: ThreadPool_wake_def)
next
  case (spurious i p)
  show ?case by (rule pool_awake_update [OF spurious(3,1), of _ Checking]) (simp_all add: ThreadPool_wake_def)
next
  case (notify_all p)
  have "Sleeping \<notin> set (map woken (tp_workers p))" by (auto simp: woken_def)
  moreover have "Returned \<in> set (map woken (tp_workers p)) \<longleftrightarrow> Returned \<in> set (tp_workers p)"
    by (force simp: woken_def)
  moreover have "\<exists>w \<in> set (map woken (tp_workers p)). w \<noteq> Sleeping" if "tp_workers p \<noteq> []"
    using that by (cases "tp_workers p") (auto simp: woken_def)
  ultimately show ?case using notify_all unfolding pool_awake_def by (simp del: set_map)
next
  case (notify_none p)
  then have "\<exists>w \<in> set (tp_workers p). w \<noteq> Sleeping" if "tp_workers p \<noteq> []"
    using that by (cases "tp_workers p") auto
  with notify_none show ?case by (simp add: pool_awake_def)
qed (auto simp: pool_awake_def enqueue_Inr ThreadPool_destroy_def)

lemma pool_awake_run: "pool_run p tr q \<Longrightarrow> pool_awake p \<Longrightarrow> pool_awake q"
  by (induction rule: pool_run.induct) (auto intro: pool_awake_step)

lemma pool_awake_new: "pool_awake (ThreadPool_new n)"
  by (simp add: pool_awake_def ThreadPool_new_def)

text \<open>
  C15: no wake-up is lost: whenever the queue is not empty and every notification has been
  delivered, some worker is awake and has not returned, so the queue is looked at again.
\<close>

theorem pool_no_lost_wakeup:
  assumes "pool_run (ThreadPool_new n) tr p" and "tp_tasks p \<noteq> []" and "tp_workers p \<noteq> []" and "tp_notify_one p = 0"
  shows "\<exists>w \<in> set (tp_workers p). w \<noteq> Sleeping \<and> w \<noteq> Returned"
proof -
  from pool_awake_run [OF assms(1) pool_awake_new] assms(2-4)
  have "\<exists>w \<in> set (tp_workers p). w \<noteq> Sleeping" and "Returned \<notin> set (tp_workers p)" by (auto simp: pool_awake_def)
  then show ?thesis by auto
qed

theorem pool_no_lost_wakeup_witness:
  "\<exists>p tr. pool_run (ThreadPool_new 2) tr (p :: nat pool) \<and> tp_tasks p = [8] \<and> Sleeping \<in> set (tp_workers p) \<and>
     (\<exists>w \<in> set (tp_workers p). w \<noteq> Sleeping \<and> w \<noteq> Returned)"
proof -
  let ?p = "\<lparr>tp_tasks = [8 :: nat], tp_stop = False, tp_workers = [Sleeping, Checking], tp_notify_one = 0, tp_notify_all = False\<rparr>"
  have "pool_execs (ThreadPool_new 2) [DoWorker 0, DoWorker 1, DoEnqueue 8, DoNotify 1] =
    Some ([Sleeps 0, Sleeps 1, Enqueued 8, Notified], ?p)" by code_simp
  then have run: "pool_run (ThreadPool_new 2) [Sleeps 0, Sleeps 1, Enqueued 8, Notified] ?p" by (rule pool_execs_run)
  with pool_no_lost_wakeup [OF run] show ?thesis by - (rule exI, rule exI, rule conjI, assumption, simp)
qed

section \<open>The destructor returns\<close>

text \<open>A bound on the steps that are left once the pool is stopped.\<close>

fun worker_weight :: "'a worker \<Rightarrow> nat" where
  "worker_weight Returned = 0"
| "worker_weight Checking = 1"
| "worker_weight (Running f) = 2"
| "worker_weight Sleeping = 2"

definition pool_measure :: "'a pool \<Rightarrow> nat" where
  "pool_measure p = 2 * length (tp_tasks p) + sum_list (map worker_weight (tp_workers p))
     + tp_notify_one p + (if tp_notify_all p then 1 else 0)"

lemma weight_update:
  assumes "i < length ws"
  shows "sum_list (map worker_weight (ws[i := w])) + worker_weight (ws ! i) = sum_list (map worker_weight ws) + worker_weight w"
  using assms sum_list_update [of i "map worker_weight ws" "worker_weight w"] member_le_sum_list [of "worker_weight (ws ! i)" "map worker_weight ws"]
  by (simp add: map_update)

lemma weight_woken: "sum_list (map worker_weight (map woken ws)) \<le> sum_list (map worker_weight ws)"
  by (induction ws) (auto simp: woken_def)

lemma stopped_step:
  "pool_step p a q \<Longrightarrow> tp_stop p \<Longrightarrow> tp_stop q \<and> pool_measure q < pool_measure p"
proof (induction rule: pool_step.induct)
  case (notify_all p)
  with weight_woken [of "tp_workers p"] show ?case by (simp add: pool_measure_def)
next
  case (sleep i p)
  then show ?case by simp
next
  case (return i p)
  with weight_update [OF return(1), of Returned] show ?case by (simp add: pool_measure_def ThreadPool_acquire_def)
next
  case (take i p f fs)
  with weight_update [OF take(1), of "Running f"] show ?case by (simp add: pool_measure_def ThreadPool_acquire_def)
next
  case (finish i p f)
  with weight_update [OF finish(1), of Checking] show ?case by (simp add: pool_measure_def ThreadPool_finish_def)
next
  case (notify_one p i)
  with weight_update [OF notify_one(2), of Checking] show ?case by (simp add: pool_measure_def ThreadPool_wake_def)
next
  case (spurious i p)
  with weight_update [OF spurious(1), of Checking] show ?case by (simp add: pool_measure_def ThreadPool_wake_def)
qed (auto simp: enqueue_Inr pool_measure_def)

lemma stopped_run:
  "pool_run p tr q \<Longrightarrow> tp_stop p \<Longrightarrow> tp_stop q \<and> length tr + pool_measure q \<le> pool_measure p"
  by (induction rule: pool_run.induct) (auto dest!: stopped_step)

lemma stopped_progress:
  assumes "pool_awake p" and "tp_stop p" and "\<not> ThreadPool_joined p"
  shows "\<exists>a q. a \<noteq> Spurious \<and> pool_step p a q"
proof -
  from assms(3) obtain i where i: "i < length (tp_workers p)" "tp_workers p ! i \<noteq> Returned"
    by (auto simp: ThreadPool_joined_def list_all_length)
  show ?thesis
  proof (cases "tp_workers p ! i")
    case Checking
    show ?thesis
    proof (cases "tp_tasks p")
      case Nil
      with pool_step.return [OF i(1) Checking assms(2)] show ?thesis by blast
    next
      case (Cons f fs)
      with pool_step.take [OF i(1) Checking] show ?thesis by blast
    qed
  next
    case (Running f)
    with pool_step.finish [OF i(1)] show ?thesis by blast
  next
    case Sleeping
    with i(1) have "Sleeping \<in> set (tp_workers p)" by (metis nth_mem)
    with assms(1,2) have "tp_notify_all p" by (simp add: pool_awake_def)
    with pool_step.notify_all show ?thesis by blast
  qed (use i in simp)
qed

lemma joined_done:
  assumes "pool_awake p" and "ThreadPool_joined p" and "tp_workers p \<noteq> []"
  shows "tp_tasks p = [] \<and> running p = {#}"
proof -
  from assms(2,3) have "Returned \<in> set (tp_workers p)" by (cases "tp_workers p") (simp_all add: ThreadPool_joined_def)
  moreover have "List.map_filter running_task ws = []" if "list_all (\<lambda>w. w = Returned) ws" for ws :: "'a worker list"
    using that by (induction ws) (simp_all add: List.map_filter_simps)
  ultimately show ?thesis using assms(1,2) by (simp add: pool_awake_def ThreadPool_joined_def running_def)
qed

lemma workers_step: "pool_step p a q \<Longrightarrow> length (tp_workers q) = length (tp_workers p)"
  by (induction rule: pool_step.induct) (auto simp: ThreadPool_enqueue_def pool_defs split: if_splits)

lemma workers_run: "pool_run p tr q \<Longrightarrow> length (tp_workers q) = length (tp_workers p)"
  by (induction rule: pool_run.induct) (simp_all add: workers_step)

text \<open>
  C16: the destructor of the pool returns. From any state the pool can reach, once \<open>stop\<close> is set,
  every run of the threads is at most \<open>pool_measure\<close> steps long, no state on the way is a
  deadlock (a step other than a spurious wake-up is possible until all workers have returned),
  and when they have, every task ever enqueued has been run to its end.
\<close>

theorem pool_destructor_returns:
  assumes "pool_run (ThreadPool_new n) tr p" and "0 < n" and "tp_stop p" and "pool_run p tr' q"
  shows "length tr' \<le> pool_measure p \<and>
    (\<not> ThreadPool_joined q \<longrightarrow> (\<exists>a r. a \<noteq> Spurious \<and> pool_step q a r)) \<and>
    (ThreadPool_joined q \<longrightarrow> mset (List.map_filter finished (tr @ tr')) = mset (List.map_filter enqueued (tr @ tr')))"
proof -
  have run: "pool_run (ThreadPool_new n) (tr @ tr') q" by (rule pool_run_append [OF assms(4,1)])
  have awake: "pool_awake q" by (rule pool_awake_run [OF run pool_awake_new])
  have stop: "tp_stop q" "length tr' \<le> pool_measure p" using stopped_run [OF assms(4,3)] by simp_all
  have "tp_workers q \<noteq> []" using workers_run [OF run] assms(2) by (auto simp: ThreadPool_new_def)
  with joined_done [OF awake] pool_ledger_run [OF run pool_ledger_new]
  have "mset (List.map_filter finished (tr @ tr')) = mset (List.map_filter enqueued (tr @ tr'))" if "ThreadPool_joined q"
    using that by (simp add: pool_ledger_def)
  with stop stopped_progress [OF awake] show ?thesis by simp
qed

theorem pool_destructor_returns_witness:
  "\<exists>p q :: nat pool. tp_stop p \<and> tp_tasks p = [7] \<and> ThreadPool_joined q \<and>
     pool_run p [Notified, Taken 0 7, Finished 0 7, Returning 0] q \<and> 4 \<le> pool_measure p"
proof -
  let ?p = "\<lparr>tp_tasks = [7 :: nat], tp_stop = True, tp_workers = [Sleeping], tp_notify_one = 1, tp_notify_all = True\<rparr>"
  let ?q = "\<lparr>tp_tasks = [] :: nat list, tp_stop = True, tp_workers = [Returned], tp_notify_one = 1, tp_notify_all = False\<rparr>"
  have "pool_execs (ThreadPool_new 1) [DoWorker 0, DoEnqueue 7, DoDestroy] = Some ([Sleeps 0, Enqueued 7, Stopped], ?p)" by code_simp
  then have p: "pool_run (ThreadPool_new 1) [Sleeps 0, Enqueued 7, Stopped] ?p" by (rule pool_execs_run)
  have "pool_execs ?p [DoNotifyAll, DoWorker 0, DoFinish 0, DoWorker 0] = Some ([Notified, Taken 0 7, Finished 0 7, Returning 0], ?q)"
    by code_simp
  then have q: "pool_run ?p [Notified, Taken 0 7, Finished 0 7, Returning 0] ?q" by (rule pool_execs_run)
  have "tp_stop ?p" "ThreadPool_joined ?q" by code_simp+
  with pool_destructor_returns [OF p _ _ q] q show ?thesis
    by - (rule exI [of _ ?p], rule exI [of _ ?q], simp)
qed

end
