(* ===== verification/EpollServer.thy ===== *)
theory EpollServer
  imports ThreadPool
begin

text \<open>
  \<open>TcpServer\<close> and \<open>Connection\<close> of \<open>claude/server.cpp\<close>: a server on \<open>epoll\<close> whose event loop hands
  readable connections to a thread pool.

  Connection objects are named by numbers; \<open>es_objs\<close> holds the objects that are alive. An object is
  alive as long as a \<open>shared_ptr\<close> refers to it: from the map \<open>connections\<close>, from a task in the queue or
  from a task that a worker runs. When the last reference goes, its destructor closes the file
  descriptor (\<open>EpServer_release\<close>, at the end of every step). A task runs in two or three stages,
  between which other threads may run: \<open>readData\<close>, then \<open>processData\<close> or \<open>removeConnection\<close>. System
  calls return what the event says.
\<close>

section \<open>Connections\<close>

definition EP_MAX_BUFFER_SIZE :: nat where
  "EP_MAX_BUFFER_SIZE = 4096"

datatype errno = EAGAIN | EWOULDBLOCK | EOther nat

datatype recv_result = Received bytes | RecvError errno

record ep_connection =
  ec_sockfd :: int
  ec_readBuffer :: bytes
  ec_bytesInBuffer :: nat

definition EpConnection_new :: "int \<Rightarrow> ep_connection" where
  "EpConnection_new sockfd = \<lparr>ec_sockfd = sockfd, ec_readBuffer = replicate EP_MAX_BUFFER_SIZE 0, ec_bytesInBuffer = 0\<rparr>"

definition EpConnection_readData :: "recv_result \<Rightarrow> ep_connection \<Rightarrow> int \<times> ep_connection" where
  "EpConnection_readData r c =
     (case r of
        RecvError _ \<Rightarrow> (-1, c)
      | Received d \<Rightarrow>
          (int (length d),
           if length d > 0
           then c\<lparr>ec_readBuffer := memcpy (ec_readBuffer c) (ec_bytesInBuffer c) d,
                  ec_bytesInBuffer := ec_bytesInBuffer c + length d\<rparr>
           else c))"

text \<open>
  \<open>processData\<close> stores a terminating zero behind the data and prints the buffer as a C string. The
  result is \<open>None\<close> where the store is past the end of the vector.
\<close>

definition EpConnection_processData :: "ep_connection \<Rightarrow> (ep_connection \<times> string list) option" where
  "EpConnection_processData c =
     (if ec_bytesInBuffer c > 0
      then (if ec_bytesInBuffer c < length (ec_readBuffer c)
            then (let buf = (ec_readBuffer c)[ec_bytesInBuffer c := 0]
                  in Some (c\<lparr>ec_readBuffer := buf, ec_bytesInBuffer := 0\<rparr>, [string_of (takeWhile (\<lambda>b. b \<noteq> 0) buf)]))
            else None)
      else Some (c, []))"

section \<open>The server\<close>

datatype ep_effect =
    EpAccept int
  | EpAcceptFailed
  | EpEpollAdd int
  | EpAddFailed int
  | EpEpollDel int
  | EpClose int
  | EpSend int bytes
  | EpRecv nat bytes
  | EpPrint nat string
  | EpReadError int
  | EpRemoved int
  | EpThrow string
  | EpOverrun nat

datatype task_stage = AtRead | AtProcess | AtRemove

record ep_flags =
  ev_in :: bool
  ev_err :: bool
  ev_hup :: bool

record ep_server =
  es_serverFd :: int
  es_epollFd :: int
  es_running :: bool
  es_pool :: "nat pool"
  es_connections :: "(int, nat) umap"
  \<comment> \<open>objects alive, the number of the next one, the stage of each worker's task, the descriptors
    registered with \<open>epoll\<close>, the results of \<open>epoll_wait\<close> still to be handled, and whether a write
    past the end of a vector has happened\<close>
  es_objs :: "(nat, ep_connection) umap"
  es_next :: nat
  es_stage :: "task_stage list"
  es_epoll :: "int list"
  es_batch :: "(int \<times> ep_flags) list"
  es_undefined :: bool

type_synonym ep_proc = "(ep_server, ep_effect) proc"

text \<open>
  The constructor, given what each system call returns. The result is the message of the exception
  or the server.
\<close>

record ep_syscalls =
  sc_epoll_create :: int
  sc_socket :: int
  sc_setsockopt :: int
  sc_fcntl :: int
  sc_bind :: int
  sc_listen :: int
  sc_epoll_ctl :: int

definition EpServer_new :: "ep_syscalls \<Rightarrow> nat \<Rightarrow> (string + ep_server) \<times> ep_effect list" where
  "EpServer_new sc threadPoolSize =
     (let epollFd = sc_epoll_create sc; serverFd = sc_socket sc;
          fail = (\<lambda>msg. (Inl msg, [EpClose serverFd, EpClose epollFd]))
      in if epollFd = -1 then (Inl ''Failed to create epoll instance'', [])
         else if serverFd = -1 then (Inl ''Failed to create socket'', [EpClose epollFd])
         else if sc_setsockopt sc < 0 then fail ''Failed to set socket options''
         else if sc_fcntl sc < 0 then fail ''Failed to set non-blocking mode''
         else if sc_bind sc < 0 then fail ''Failed to bind socket''
         else if sc_listen sc < 0 then fail ''Failed to listen on socket''
         else if sc_epoll_ctl sc < 0 then fail ''Failed to add server socket to epoll''
         else (Inr \<lparr>es_serverFd = serverFd, es_epollFd = epollFd, es_running = False, es_pool = ThreadPool_new threadPoolSize,
                 es_connections = [], es_objs = [], es_next = 0, es_stage = replicate threadPoolSize AtRead,
                 es_epoll = [], es_batch = [], es_undefined = False\<rparr>, []))"

text \<open>References to connection objects, and the end of the objects that have none.\<close>

definition task_refs :: "nat pool \<Rightarrow> nat list" where
  "task_refs p = tp_tasks p @ List.map_filter running_task (tp_workers p)"

definition referenced :: "ep_server \<Rightarrow> nat \<Rightarrow> bool" where
  "referenced s ob \<longleftrightarrow> ob \<in> snd ` set (es_connections s) \<or> ob \<in> set (task_refs (es_pool s))"

definition EpServer_release :: ep_proc where
  "EpServer_release s =
     (let dead = filter (\<lambda>(ob, c). \<not> referenced s ob) (es_objs s);
          fds = map (\<lambda>(ob, c). ec_sockfd c) dead
      in (s\<lparr>es_objs := filter (\<lambda>(ob, c). referenced s ob) (es_objs s),
            es_epoll := filter (\<lambda>fd. fd \<notin> set fds) (es_epoll s)\<rparr>,
          map EpClose fds))"

definition EpServer_removeConnection :: "int \<Rightarrow> ep_proc" where
  "EpServer_removeConnection fd =
     seqs [modify (\<lambda>s. s\<lparr>es_epoll := removeAll fd (es_epoll s)\<rparr>), emit (EpEpollDel fd),
           modify (\<lambda>s. s\<lparr>es_connections := AList.delete fd (es_connections s)\<rparr>), emit (EpRemoved fd)]"

text \<open>\<open>sendData\<close>: \<open>send\<close> has taken \<open>n\<close> bytes, or has failed; the callers ignore which.\<close>

definition EpConnection_sendData :: "bytes \<Rightarrow> int \<Rightarrow> int \<Rightarrow> ep_proc" where
  "EpConnection_sendData d n fd = if_do (0 \<le> n) (emit (EpSend fd (take (nat n) d)))"

definition welcomeMsg :: string where
  "welcomeMsg = ''Welcome to the high performance TCP server!'' @ [CHR 0x0A]"

definition EpServer_handleNewConnection :: "int \<Rightarrow> int \<Rightarrow> int \<Rightarrow> ep_proc" where
  "EpServer_handleNewConnection clientFd ctl n s =
     (if clientFd < 0 then emit EpAcceptFailed s
      else (let connection = es_next s in
        seqs [modify (\<lambda>s. s\<lparr>es_objs := (connection, EpConnection_new clientFd) # es_objs s, es_next := connection + 1\<rparr>),
              emit (EpAccept clientFd),
              if ctl < 0 then emit (EpAddFailed clientFd)
              else seqs [modify (\<lambda>s. s\<lparr>es_epoll := clientFd # es_epoll s\<rparr>), emit (EpEpollAdd clientFd),
                         modify (\<lambda>s. s\<lparr>es_connections := AList.update clientFd connection (es_connections s)\<rparr>),
                         EpConnection_sendData (bytes_of welcomeMsg) n clientFd]] s))"

definition EpServer_enqueue :: "nat \<Rightarrow> ep_proc" where
  "EpServer_enqueue ob s =
     (case ThreadPool_enqueue ob (es_pool s) of
        Inl msg \<Rightarrow> (s, [EpThrow msg])
      | Inr p \<Rightarrow> (s\<lparr>es_pool := p\<rparr>, []))"

definition EpServer_handleExistingConnection :: "int \<Rightarrow> ep_flags \<Rightarrow> ep_proc" where
  "EpServer_handleExistingConnection fd events s =
     (case map_of (es_connections s) fd of
        None \<Rightarrow> (s, [])
      | Some connection \<Rightarrow>
          seqs [if_do (ev_in events) (EpServer_enqueue connection),
                if_do (ev_err events \<or> ev_hup events) (EpServer_removeConnection fd)] s)"

text \<open>One pass of the loop over the events that \<open>epoll_wait\<close> has returned.\<close>

definition EpServer_handle :: "int \<Rightarrow> int \<Rightarrow> int \<Rightarrow> ep_proc" where
  "EpServer_handle clientFd ctl n s =
     (case es_batch s of
        [] \<Rightarrow> (s, [])
      | (fd, events) # batch \<Rightarrow>
          seqs [modify (\<lambda>s. s\<lparr>es_batch := batch\<rparr>),
                if fd = es_serverFd s then EpServer_handleNewConnection clientFd ctl n
                else EpServer_handleExistingConnection fd events] s)"

definition EpServer_start :: "ep_server \<Rightarrow> ep_server" where
  "EpServer_start s = s\<lparr>es_running := True\<rparr>"

definition EpServer_stop :: "ep_server \<Rightarrow> ep_server" where
  "EpServer_stop s = s\<lparr>es_running := False, es_connections := []\<rparr>"

text \<open>The body of the destructor; the pool is destroyed after it.\<close>

definition EpServer_destroy :: ep_proc where
  "EpServer_destroy =
     seqs [modify EpServer_stop, EpServer_release,
           (\<lambda>s. emit (EpClose (es_epollFd s)) s), (\<lambda>s. emit (EpClose (es_serverFd s)) s)]"

text \<open>\<open>broadcast\<close>, with what each \<open>send\<close> returns, in the order of the map.\<close>

definition EpServer_broadcast :: "bytes \<Rightarrow> int list \<Rightarrow> ep_proc" where
  "EpServer_broadcast d ns s = seqs (map (\<lambda>((fd, connection), n). EpConnection_sendData d n fd) (zip (es_connections s) ns)) s"

section \<open>The task of a worker\<close>

definition EpServer_update :: "nat \<Rightarrow> ep_connection \<Rightarrow> ep_server \<Rightarrow> ep_server" where
  "EpServer_update ob c s = s\<lparr>es_objs := AList.update ob c (es_objs s)\<rparr>"

definition EpServer_stage :: "nat \<Rightarrow> task_stage \<Rightarrow> ep_proc" where
  "EpServer_stage i st = modify (\<lambda>s. s\<lparr>es_stage := (es_stage s)[i := st]\<rparr>)"

definition EpServer_finish :: "nat \<Rightarrow> ep_proc" where
  "EpServer_finish i = modify (\<lambda>s. s\<lparr>es_pool := ThreadPool_finish i (es_pool s)\<rparr>)"

fun EpServer_task :: "nat \<Rightarrow> nat \<Rightarrow> ep_connection \<Rightarrow> task_stage \<Rightarrow> recv_result \<Rightarrow> ep_proc" where
  "EpServer_task i ob c AtRead r =
     (let (bytesRead, c') = EpConnection_readData r c in
      seqs [modify (EpServer_update ob c'),
            (case r of Received d \<Rightarrow> emit (EpRecv ob d) | RecvError _ \<Rightarrow> skip),
            if bytesRead > 0 then EpServer_stage i AtProcess
            else if bytesRead = 0 then EpServer_stage i AtRemove
            else if r \<noteq> RecvError EAGAIN \<and> r \<noteq> RecvError EWOULDBLOCK
            then seqs [emit (EpReadError (ec_sockfd c)), EpServer_stage i AtRemove]
            else EpServer_finish i])"
| "EpServer_task i ob c AtProcess r =
     (case EpConnection_processData c of
        None \<Rightarrow> seqs [modify (\<lambda>s. s\<lparr>es_undefined := True\<rparr>), emit (EpOverrun ob)]
      | Some (c', texts) \<Rightarrow>
          seqs [modify (EpServer_update ob c'), seqs (map (\<lambda>t. emit (EpPrint ob t)) texts), EpServer_finish i])"
| "EpServer_task i ob c AtRemove r = seqs [EpServer_removeConnection (ec_sockfd c), EpServer_finish i]"

definition EpServer_worker :: "nat \<Rightarrow> recv_result \<Rightarrow> ep_proc" where
  "EpServer_worker i r s =
     (case tp_workers (es_pool s) ! i of
        Running ob \<Rightarrow>
          (case map_of (es_objs s) ob of
             None \<Rightarrow> (s, [])
           | Some c \<Rightarrow> EpServer_task i ob c (es_stage s ! i) r s)
      | _ \<Rightarrow> (s, []))"

section \<open>Events\<close>

datatype ep_event =
    EvWait "(int \<times> ep_flags) list"
  | EvHandle int int int
  | EvPool "nat pool_move"
  | EvTask nat recv_result
  | EvBroadcast bytes "int list"
  | EvStop

fun worker_move :: "nat pool_move \<Rightarrow> bool" where
  "worker_move (DoEnqueue f) = False"
| "worker_move DoDestroy = False"
| "worker_move (DoFinish i) = False"
| "worker_move _ = True"

fun EpServer_event :: "ep_event \<Rightarrow> ep_proc" where
  "EpServer_event (EvWait batch) s = (s\<lparr>es_batch := batch\<rparr>, [])"
| "EpServer_event (EvHandle clientFd ctl n) s = EpServer_handle clientFd ctl n s"
| "EpServer_event (EvPool m) s =
     (case pool_exec (es_pool s) m of
        None \<Rightarrow> (s, [])
      | Some (a, p) \<Rightarrow>
          (s\<lparr>es_pool := p, es_stage := (case a of Taken i f \<Rightarrow> (es_stage s)[i := AtRead] | _ \<Rightarrow> es_stage s)\<rparr>, []))"
| "EpServer_event (EvTask i r) s = EpServer_worker i r s"
| "EpServer_event (EvBroadcast d ns) s = EpServer_broadcast d ns s"
| "EpServer_event EvStop s = (EpServer_stop s, [])"

definition EpServer_step :: "ep_server \<Rightarrow> ep_event \<Rightarrow> ep_server \<times> ep_effect list" where
  "EpServer_step s ev = seqs [EpServer_event ev, EpServer_release] s"

text \<open>
  What the kernel and the threads can do in a state: \<open>epoll_wait\<close> is called by the running loop and
  reports registered descriptors, \<open>accept\<close> returns a descriptor that is not open, \<open>recv\<close> returns no
  more than it was asked for, \<open>send\<close> takes no more than it was given. Nothing is said once a write
  past the end of a vector has happened.
\<close>

definition open_fds :: "ep_server \<Rightarrow> int list" where
  "open_fds s = es_serverFd s # es_epollFd s # map (\<lambda>(ob, c). ec_sockfd c) (es_objs s)"

fun kernel_ok :: "ep_server \<Rightarrow> ep_event \<Rightarrow> bool" where
  "kernel_ok s (EvWait batch) = (es_running s \<and> es_batch s = [] \<and> distinct (map fst batch)
     \<and> list_all (\<lambda>(fd, events). fd = es_serverFd s \<or> fd \<in> set (es_epoll s)) batch)"
| "kernel_ok s (EvHandle clientFd ctl n) = (es_batch s \<noteq> [] \<and> clientFd \<notin> set (open_fds s) \<and> n \<le> int (length welcomeMsg))"
| "kernel_ok s (EvPool m) = (worker_move m \<and> pool_exec (es_pool s) m \<noteq> None)"
| "kernel_ok s (EvTask i r) =
     (i < length (tp_workers (es_pool s)) \<and>
      (case tp_workers (es_pool s) ! i of
         Running ob \<Rightarrow>
           (case (map_of (es_objs s) ob, r) of
              (Some c, Received d) \<Rightarrow> length d \<le> EP_MAX_BUFFER_SIZE - ec_bytesInBuffer c
            | _ \<Rightarrow> True)
       | _ \<Rightarrow> False))"
| "kernel_ok s (EvBroadcast d ns) = (length ns = length (es_connections s) \<and> list_all (\<lambda>n. n \<le> int (length d)) ns)"
| "kernel_ok s EvStop = True"

definition EpServer_ok :: "ep_server \<Rightarrow> ep_event \<Rightarrow> bool" where
  "EpServer_ok s ev \<longleftrightarrow> \<not> es_undefined s \<and> kernel_ok s ev"

end
