(* ===== verification/EpollProps.thy ===== *)
theory EpollProps
  imports EpollServer
begin

text \<open>
  What holds of the epoll server in every run that the kernel allows: descriptors are owned by one
  object each and closed once, a task never removes the connection of another object, data are
  printed in the order in which they were received. Then the behaviours that break these
  expectations: stale events, the full buffer, failed system calls in the constructor.
\<close>

section \<open>The invariant\<close>

definition ep_inv :: "ep_server \<Rightarrow> bool" where
  "ep_inv s \<longleftrightarrow> umap_inv (es_connections s) \<and> distinct (map fst (es_objs s)) \<and> distinct (open_fds s)
     \<and> (\<forall>fd ob. map_of (es_connections s) fd = Some ob \<longrightarrow> (\<exists>c. map_of (es_objs s) ob = Some c \<and> ec_sockfd c = fd))
     \<and> set (task_refs (es_pool s)) \<subseteq> fst ` set (es_objs s)
     \<and> (\<forall>ob \<in> fst ` set (es_objs s). ob < es_next s)
     \<and> (\<forall>c \<in> snd ` set (es_objs s). length (ec_readBuffer c) = EP_MAX_BUFFER_SIZE \<and> ec_bytesInBuffer c \<le> EP_MAX_BUFFER_SIZE)"

lemma ep_invI:
  assumes "umap_inv (es_connections s)" "distinct (map fst (es_objs s))" "distinct (open_fds s)"
    "\<And>fd ob. map_of (es_connections s) fd = Some ob \<Longrightarrow> \<exists>c. map_of (es_objs s) ob = Some c \<and> ec_sockfd c = fd"
    "set (task_refs (es_pool s)) \<subseteq> fst ` set (es_objs s)"
    "\<And>ob. ob \<in> fst ` set (es_objs s) \<Longrightarrow> ob < es_next s"
    "\<And>c. c \<in> snd ` set (es_objs s) \<Longrightarrow> length (ec_readBuffer c) = EP_MAX_BUFFER_SIZE \<and> ec_bytesInBuffer c \<le> EP_MAX_BUFFER_SIZE"
  shows "ep_inv s"
  using assms unfolding ep_inv_def by auto

lemma ep_invD:
  assumes "ep_inv s"
  shows "umap_inv (es_connections s)" "distinct (map fst (es_objs s))" "distinct (open_fds s)"
    "map_of (es_connections s) fd = Some ob \<Longrightarrow> \<exists>c. map_of (es_objs s) ob = Some c \<and> ec_sockfd c = fd"
    "set (task_refs (es_pool s)) \<subseteq> fst ` set (es_objs s)"
    "ob \<in> fst ` set (es_objs s) \<Longrightarrow> ob < es_next s"
    "map_of (es_objs s) ob = Some c \<Longrightarrow> length (ec_readBuffer c) = EP_MAX_BUFFER_SIZE \<and> ec_bytesInBuffer c \<le> EP_MAX_BUFFER_SIZE"
  using assms unfolding ep_inv_def by (blast, blast, blast, blast, blast, blast) (use assms in \<open>force simp: ep_inv_def dest!: map_of_SomeD\<close>)

text \<open>Objects that are replaced by objects with the same descriptor.\<close>

lemma update_fds:
  "map_of objs ob = Some c \<Longrightarrow> ec_sockfd c' = ec_sockfd c \<Longrightarrow>
     map fst (AList.update ob c' objs) = map fst objs \<and>
     map (\<lambda>(ob, c). ec_sockfd c) (AList.update ob c' objs) = map (\<lambda>(ob, c). ec_sockfd c) objs"
  by (induction objs) (auto split: if_splits)

lemma set_update_vals: "v \<in> snd ` set (AList.update k w m) \<Longrightarrow> v = w \<or> v \<in> snd ` set m"
  by (induction m) (auto split: if_splits)

lemma ep_inv_update:
  assumes inv: "ep_inv s" and c: "map_of (es_objs s) ob = Some c" and fd: "ec_sockfd c' = ec_sockfd c"
    and buf: "length (ec_readBuffer c') = EP_MAX_BUFFER_SIZE" "ec_bytesInBuffer c' \<le> EP_MAX_BUFFER_SIZE"
  shows "ep_inv (EpServer_update ob c' s)"
proof (rule ep_invI)
  note same = update_fds [OF c fd]
  then have keys: "fst ` set (AList.update ob c' (es_objs s)) = fst ` set (es_objs s)" by (metis list.set_map)
  show "distinct (map fst (es_objs (EpServer_update ob c' s)))" "distinct (open_fds (EpServer_update ob c' s))"
    "set (task_refs (es_pool (EpServer_update ob c' s))) \<subseteq> fst ` set (es_objs (EpServer_update ob c' s))"
    using inv same keys by (simp_all add: ep_inv_def EpServer_update_def open_fds_def)
  show "ob' < es_next (EpServer_update ob c' s)" if "ob' \<in> fst ` set (es_objs (EpServer_update ob c' s))" for ob'
    using inv keys that by (auto simp: ep_inv_def EpServer_update_def)
  show "\<exists>d. map_of (es_objs (EpServer_update ob c' s)) ob' = Some d \<and> ec_sockfd d = fd'"
    if "map_of (es_connections (EpServer_update ob c' s)) fd' = Some ob'" for fd' ob'
    using inv c fd that by (fastforce simp: ep_inv_def EpServer_update_def update_conv')
  show "length (ec_readBuffer d) = EP_MAX_BUFFER_SIZE \<and> ec_bytesInBuffer d \<le> EP_MAX_BUFFER_SIZE"
    if "d \<in> snd ` set (es_objs (EpServer_update ob c' s))" for d
    using inv buf set_update_vals [of d ob c' "es_objs s"] that by (auto simp: ep_inv_def EpServer_update_def)
qed (use inv in \<open>simp add: ep_inv_def EpServer_update_def\<close>)

text \<open>Statements that leave the objects alone.\<close>

lemma ep_inv_frame:
  assumes "ep_inv s" and "es_objs t = es_objs s" and "es_next t = es_next s" and "es_serverFd t = es_serverFd s"
    and "es_epollFd t = es_epollFd s" and "umap_inv (es_connections t)"
    and "map_of (es_connections t) \<subseteq>\<^sub>m map_of (es_connections s)"
    and "set (task_refs (es_pool t)) \<subseteq> fst ` set (es_objs s)"
  shows "ep_inv t"
  using assms(1,6-8) unfolding ep_inv_def open_fds_def assms(2-5)
  by (auto simp: map_le_def) (metis domI)

text \<open>Statements that touch neither objects nor connections nor the pool.\<close>

lemma ep_inv_other [simp]:
  "ep_inv (s\<lparr>es_epoll := x\<rparr>) = ep_inv s" "ep_inv (s\<lparr>es_batch := b\<rparr>) = ep_inv s"
  "ep_inv (s\<lparr>es_stage := st\<rparr>) = ep_inv s" "ep_inv (s\<lparr>es_undefined := u\<rparr>) = ep_inv s"
  "ep_inv (s\<lparr>es_running := z\<rparr>) = ep_inv s"
  by (simp_all add: ep_inv_def open_fds_def)

lemma ep_inv_pool:
  assumes "ep_inv s" and "set (task_refs p) \<subseteq> fst ` set (es_objs s)"
  shows "ep_inv (s\<lparr>es_pool := p\<rparr>)"
  by (rule ep_inv_frame [OF assms(1)]) (simp_all add: assms ep_invD(1) [OF assms(1)])

lemma map_of_delete_le: "map_of (AList.delete k m) \<subseteq>\<^sub>m map_of m"
  by (auto simp: map_le_def delete_conv' dom_def)

lemma umap_inv_delete [simp]: "umap_inv m \<Longrightarrow> umap_inv (AList.delete k m)"
  by (rule umap.inv_del)

lemma refs_update:
  "set (List.map_filter f (ws[i := w])) \<subseteq> set (List.map_filter f ws) \<union> set_option (f w)"
  using set_update_subset_insert [of ws i w] by (fastforce simp: List.map_filter_def)

lemma refs_finish: "set (task_refs (ThreadPool_finish i p)) \<subseteq> set (task_refs p)"
  using refs_update [of running_task "tp_workers p" i Checking] by (auto simp: task_refs_def ThreadPool_finish_def)

lemma refs_exec:
  assumes "pool_exec p m = Some (a, q)" and "worker_move m"
  shows "set (task_refs q) \<subseteq> set (task_refs p)"
proof -
  have woken: "List.map_filter running_task (map woken ws) = List.map_filter running_task ws" for ws :: "nat worker list"
    by (induction ws) (auto simp: List.map_filter_simps woken_def split: option.splits)
  have "set (task_refs (ThreadPool_acquire i p)) \<subseteq> set (task_refs p)" for i
    using refs_update [of running_task "tp_workers p" i Sleeping] refs_update [of running_task "tp_workers p" i Returned]
      refs_update [of running_task "tp_workers p" i "Running (hd (tp_tasks p))"]
    by (cases "tp_tasks p") (auto simp: task_refs_def ThreadPool_acquire_def)
  moreover have "set (task_refs (ThreadPool_wake i p)) \<subseteq> set (task_refs p)"
    "set (task_refs (ThreadPool_wake i (p\<lparr>tp_notify_one := k\<rparr>))) \<subseteq> set (task_refs p)" for i k
    using refs_update [of running_task "tp_workers p" i Checking] by (auto simp: task_refs_def ThreadPool_wake_def)
  moreover have "task_refs (p\<lparr>tp_notify_one := k\<rparr>) = task_refs p"
    "task_refs (p\<lparr>tp_workers := map woken (tp_workers p), tp_notify_all := False\<rparr>) = task_refs p" for k
    by (simp_all add: task_refs_def woken)
  ultimately show ?thesis
    using assms by (cases m) (auto split: if_splits dest!: subsetD simp del: One_nat_def)
qed

lemma map_of_filter_key: "map_of (filter (\<lambda>(k, v). P k) m) k = (if P k then map_of m k else None)"
  by (induction m) auto

lemma ep_inv_release:
  assumes inv: "ep_inv s"
  shows "ep_inv (fst (EpServer_release s))"
proof (rule ep_invI)
  let ?s = "fst (EpServer_release s)"
  have objs: "es_objs ?s = filter (\<lambda>(ob, c). referenced s ob) (es_objs s)"
    and same: "es_connections ?s = es_connections s" "es_pool ?s = es_pool s" "es_next ?s = es_next s"
      "es_serverFd ?s = es_serverFd s" "es_epollFd ?s = es_epollFd s"
    by (simp_all add: EpServer_release_def Let_def)
  have sub: "set (es_objs ?s) \<subseteq> set (es_objs s)" by (auto simp: objs)
  show "distinct (map fst (es_objs ?s))" using inv by (simp add: objs ep_inv_def distinct_map_filter)
  show "distinct (open_fds ?s)"
    using inv sub unfolding open_fds_def same by (force simp: objs ep_inv_def open_fds_def distinct_map_filter)
  show "\<exists>c. map_of (es_objs ?s) ob = Some c \<and> ec_sockfd c = fd" if "map_of (es_connections ?s) fd = Some ob" for fd ob
  proof -
    from that have "referenced s ob" by (force simp: same referenced_def dest: map_of_SomeD)
    moreover from inv that obtain c where "map_of (es_objs s) ob = Some c" "ec_sockfd c = fd"
      unfolding ep_inv_def same by blast
    ultimately show ?thesis unfolding objs map_of_filter_key by simp
  qed
  show "set (task_refs (es_pool ?s)) \<subseteq> fst ` set (es_objs ?s)"
    using inv unfolding same by (force simp: objs ep_inv_def referenced_def)
  show "ob < es_next ?s" if "ob \<in> fst ` set (es_objs ?s)" for ob using inv sub that by (force simp: same ep_inv_def)
  show "length (ec_readBuffer c) = EP_MAX_BUFFER_SIZE \<and> ec_bytesInBuffer c \<le> EP_MAX_BUFFER_SIZE" if "c \<in> snd ` set (es_objs ?s)" for c
    using inv sub that by (force simp: ep_inv_def)
qed (use inv in \<open>simp add: EpServer_release_def Let_def ep_inv_def\<close>)


section \<open>Every event keeps it\<close>

lemma refs_enqueue: "ThreadPool_enqueue ob p = Inr p' \<Longrightarrow> set (task_refs p') = insert ob (set (task_refs p))"
  by (auto simp: enqueue_Inr task_refs_def)

lemma ep_inv_enqueue:
  assumes "ep_inv s" and "ob \<in> fst ` set (es_objs s)"
  shows "ep_inv (fst (EpServer_enqueue ob s))"
proof (cases "ThreadPool_enqueue ob (es_pool s)")
  case (Inr p)
  have "ep_inv (s\<lparr>es_pool := p\<rparr>)"
    by (rule ep_inv_pool) (use assms ep_invD(5) [OF assms(1)] refs_enqueue [OF Inr] in auto)
  with Inr show ?thesis by (simp add: EpServer_enqueue_def)
qed (use assms in \<open>simp add: EpServer_enqueue_def\<close>)

lemma ep_inv_removeConnection:
  assumes "ep_inv s"
  shows "ep_inv (fst (EpServer_removeConnection fd s))"
  by (rule ep_inv_frame [OF assms])
    (simp_all add: EpServer_removeConnection_def map_of_delete_le ep_invD [OF assms])

lemma ep_inv_existing:
  assumes "ep_inv s"
  shows "ep_inv (fst (EpServer_handleExistingConnection fd events s))"
proof (cases "map_of (es_connections s) fd")
  case (Some ob)
  from ep_invD(4) [OF assms this] have "ob \<in> fst ` set (es_objs s)" by (force dest!: map_of_SomeD)
  with Some assms show ?thesis
    by (simp add: EpServer_handleExistingConnection_def ep_inv_removeConnection ep_inv_enqueue)
qed (use assms in \<open>simp add: EpServer_handleExistingConnection_def\<close>)

lemma fst_sendData [simp]: "fst (EpConnection_sendData d n fd s) = s"
  by (simp add: EpConnection_sendData_def)

lemma ep_inv_accepted:
  assumes inv: "ep_inv s" and fresh: "clientFd \<notin> set (open_fds s)"
    and t: "t = s\<lparr>es_objs := (es_next s, EpConnection_new clientFd) # es_objs s, es_next := es_next s + 1\<rparr>"
  shows "ep_inv t" and "ep_inv (t\<lparr>es_connections := AList.update clientFd (es_next s) (es_connections s)\<rparr>)"
proof -
  have new: "es_next s \<notin> fst ` set (es_objs s)" using inv by (force simp: ep_inv_def)
  then have other: "map_of (es_objs s) (es_next s) = None" by (simp add: map_of_eq_None_iff)
  show "ep_inv t"
  proof (rule ep_invI)
    show "\<exists>c. map_of (es_objs t) ob = Some c \<and> ec_sockfd c = fd" if "map_of (es_connections t) fd = Some ob" for fd ob
      using inv that other unfolding t ep_inv_def by force
  qed (use inv fresh new in \<open>auto simp: t ep_inv_def open_fds_def EpConnection_new_def EP_MAX_BUFFER_SIZE_def less_Suc_eq\<close>)
  then show "ep_inv (t\<lparr>es_connections := AList.update clientFd (es_next s) (es_connections s)\<rparr>)"
    using umap.inv_put [of "es_connections s"] umap.look_put [of "es_connections s"]
    by (auto simp: ep_inv_def t EpConnection_new_def open_fds_def)
qed

lemma ep_inv_new:
  assumes "ep_inv s" and "clientFd \<notin> set (open_fds s)"
  shows "ep_inv (fst (EpServer_handleNewConnection clientFd ctl n s))"
proof -
  let ?t = "s\<lparr>es_objs := (es_next s, EpConnection_new clientFd) # es_objs s, es_next := es_next s + 1\<rparr>"
  have "ep_inv (?t\<lparr>es_epoll := e, es_connections := m\<rparr>) \<longleftrightarrow> ep_inv (?t\<lparr>es_connections := m\<rparr>)" for e m
    by (simp add: ep_inv_def open_fds_def)
  then show ?thesis
    using ep_inv_accepted [OF assms refl] by (simp add: EpServer_handleNewConnection_def Let_def assms(1))
qed

lemma ep_inv_stage: "ep_inv s \<Longrightarrow> ep_inv (fst (EpServer_stage i st s))"
  by (simp add: EpServer_stage_def)

lemma ep_inv_finish:
  assumes "ep_inv s"
  shows "ep_inv (fst (EpServer_finish i s))"
  using ep_inv_pool [OF assms] ep_invD(5) [OF assms] refs_finish [of i "es_pool s"] by (auto simp: EpServer_finish_def)

lemma readData_buffer:
  assumes "length (ec_readBuffer c) = EP_MAX_BUFFER_SIZE" and "ec_bytesInBuffer c \<le> EP_MAX_BUFFER_SIZE"
    and "\<And>d. r = Received d \<Longrightarrow> length d \<le> EP_MAX_BUFFER_SIZE - ec_bytesInBuffer c"
  shows "length (ec_readBuffer (snd (EpConnection_readData r c))) = EP_MAX_BUFFER_SIZE"
    and "ec_bytesInBuffer (snd (EpConnection_readData r c)) \<le> EP_MAX_BUFFER_SIZE"
    and "ec_sockfd (snd (EpConnection_readData r c)) = ec_sockfd c"
  using assms by (auto simp: EpConnection_readData_def split: recv_result.split)

lemma ep_inv_task:
  assumes inv: "ep_inv s" and c: "map_of (es_objs s) ob = Some c"
    and r: "\<And>d. r = Received d \<Longrightarrow> length d \<le> EP_MAX_BUFFER_SIZE - ec_bytesInBuffer c"
  shows "ep_inv (fst (EpServer_task i ob c st r s))"
proof -
  note buf = ep_invD(7) [OF inv c, THEN conjunct1] ep_invD(7) [OF inv c, THEN conjunct2]
  show ?thesis
  proof (cases st)
    case AtRead
    have "ep_inv (EpServer_update ob (snd (EpConnection_readData r c)) s)"
      using readData_buffer [OF buf r] by (intro ep_inv_update [OF inv c]) simp_all
    then show ?thesis
      using AtRead by (auto simp: case_prod_beta Let_def intro!: ep_inv_stage ep_inv_finish split: recv_result.split)
  next
    case AtProcess
    have "ep_inv (EpServer_update ob c' s)" if "EpConnection_processData c = Some (c', ts)" for c' ts
      using that buf by (intro ep_inv_update [OF inv c]) (auto simp: EpConnection_processData_def Let_def split: if_splits)
    with AtProcess inv show ?thesis
      by (auto intro!: ep_inv_finish split: option.split)
  next
    case AtRemove
    with inv show ?thesis by (simp add: ep_inv_finish ep_inv_removeConnection)
  qed
qed

lemma broadcast_fst: "fst (seqs (map (\<lambda>((fd, ob), n). EpConnection_sendData d n fd) xs) s) = s"
  by (induction xs) (simp_all add: case_prod_beta)

lemma ep_inv_event:
  assumes inv: "ep_inv s" and ok: "kernel_ok s ev"
  shows "ep_inv (fst (EpServer_event ev s))"
proof (cases ev)
  case (EvHandle clientFd ctl n)
  have "open_fds (s\<lparr>es_batch := b\<rparr>) = open_fds s" for b by (simp add: open_fds_def)
  with EvHandle ok inv show ?thesis
    by (auto simp: EpServer_handle_def split: list.split intro: ep_inv_existing ep_inv_new)
next
  case (EvPool m)
  show ?thesis
  proof (cases "pool_exec (es_pool s) m")
    case (Some ap)
    moreover obtain a p where "ap = (a, p)" by fastforce
    ultimately have "set (task_refs p) \<subseteq> set (task_refs (es_pool s))" using refs_exec EvPool ok by simp
    then have "ep_inv (s\<lparr>es_pool := p\<rparr>)" using ep_inv_pool [OF inv] ep_invD(5) [OF inv] by blast
    with Some \<open>ap = (a, p)\<close> EvPool show ?thesis by (simp split: pool_act.split)
  qed (use EvPool inv in simp)
next
  case (EvTask i r)
  then show ?thesis
    using inv ok by (auto simp: EpServer_worker_def split: worker.splits option.splits intro!: ep_inv_task)
next
  case (EvBroadcast d ns)
  with inv show ?thesis by (simp only: EpServer_broadcast_def EpServer_event.simps broadcast_fst)
qed (use inv in \<open>auto simp: ep_inv_def open_fds_def EpServer_stop_def umap_inv_def\<close>)

lemma EpServer_step_fst [simp]: "fst (EpServer_step s ev) = fst (EpServer_release (fst (EpServer_event ev s)))"
  and EpServer_step_snd [simp]: "snd (EpServer_step s ev) = snd (EpServer_event ev s) @ snd (EpServer_release (fst (EpServer_event ev s)))"
  by (simp_all add: EpServer_step_def)

interpretation epoll: machine EpServer_step EpServer_ok ep_inv
  by unfold_locales (auto simp: EpServer_ok_def intro: ep_inv_release ep_inv_event)

text \<open>A server that the constructor has returned and \<open>start\<close> runs.\<close>

definition started :: "ep_syscalls \<Rightarrow> nat \<Rightarrow> ep_server \<Rightarrow> bool" where
  "started sc n s \<longleftrightarrow> sc_socket sc \<noteq> sc_epoll_create sc \<and>
     (\<exists>s0. EpServer_new sc n = (Inr s0, []) \<and> s = EpServer_start s0)"

lemma started_fields:
  assumes "started sc n s"
  shows "es_connections s = []" "es_objs s = []" "es_pool s = ThreadPool_new n" "es_batch s = []" "es_next s = 0"
    "es_serverFd s = sc_socket sc" "es_epollFd s = sc_epoll_create sc" "sc_socket sc \<noteq> sc_epoll_create sc"
  using assms by (auto simp: started_def EpServer_new_def EpServer_start_def Let_def split: if_splits)

lemma started_inv:
  assumes "started sc n s"
  shows "ep_inv s"
proof -
  have "task_refs (ThreadPool_new n) = []"
    by (induction n) (simp_all add: task_refs_def ThreadPool_new_def List.map_filter_simps)
  with started_fields [OF assms] show ?thesis
    by (simp add: ep_inv_def umap_inv_def open_fds_def)
qed

section \<open>Tasks and file descriptors\<close>

lemma map_of_update_frame: "es_connections (fst (EpServer_release s)) = es_connections s"
  by (simp add: EpServer_release_def Let_def)

lemma running_ref:
  assumes "worker_is p i (Running ob)"
  shows "ob \<in> set (task_refs p)"
proof -
  have "ob \<in> set (List.map_filter running_task ws)" if "Running ob \<in> set ws" for ws
    using that by (induction ws) (auto simp: List.map_filter_simps split: option.splits)
  moreover from assms have "Running ob \<in> set (tp_workers p)" unfolding worker_is_def by (metis nth_mem)
  ultimately show ?thesis by (simp add: task_refs_def)
qed

lemma task_connections:
  "es_connections (fst (EpServer_task i ob c st r s)) =
     (if st = AtRemove then AList.delete (ec_sockfd c) (es_connections s) else es_connections s)"
  by (cases st) (auto simp: EpServer_removeConnection_def EpServer_finish_def EpServer_stage_def EpServer_update_def
      case_prod_beta Let_def split: recv_result.split option.split)

text \<open>
  The object of a task is alive as long as the task runs, so its descriptor has not been
  given to another connection: the only connection that a task can remove is its own.
\<close>

theorem epoll_task_removes_own:
  assumes "started sc n s0" and "allowed EpServer_ok EpServer_step s0 evs" and "s = fst (run EpServer_step s0 evs)"
    and "worker_is (es_pool s) i (Running ob)"
  shows "\<exists>c. map_of (es_objs s) ob = Some c \<and>
    (\<forall>fd. map_of (es_connections (fst (EpServer_step s (EvTask i r)))) fd \<noteq> map_of (es_connections s) fd \<longrightarrow>
       fd = ec_sockfd c \<and> map_of (es_connections s) fd = Some ob)"
proof -
  have inv: "ep_inv s" unfolding assms(3) by (rule epoll.run_inv [OF started_inv [OF assms(1)] assms(2)])
  from running_ref [OF assms(4)] ep_invD(5) [OF inv] obtain c where c: "map_of (es_objs s) ob = Some c"
    by (metis (no_types, opaque_lifting) map_of_eq_None_iff option.exhaust subsetD)
  have own: "ob' = ob" if conn: "map_of (es_connections s) (ec_sockfd c) = Some ob'" for ob'
  proof -
    from ep_invD(4) [OF inv conn] obtain c' where c': "map_of (es_objs s) ob' = Some c'" "ec_sockfd c' = ec_sockfd c" by blast
    have "inj_on (\<lambda>(ob, c). ec_sockfd c) (set (es_objs s))"
      using ep_invD(3) [OF inv] by (simp add: open_fds_def distinct_map)
    with c c' show ?thesis by (auto dest!: map_of_SomeD inj_onD [of _ _ "(ob, c)" "(ob', c')"])
  qed
  have "es_connections (fst (EpServer_step s (EvTask i r))) =
    (if es_stage s ! i = AtRemove then AList.delete (ec_sockfd c) (es_connections s) else es_connections s)"
    using assms(4) c by (simp add: worker_is_def EpServer_worker_def map_of_update_frame task_connections)
  moreover have "fd = ec_sockfd c \<and> map_of (es_connections s) fd = Some ob"
    if "map_of (AList.delete (ec_sockfd c) (es_connections s)) fd \<noteq> map_of (es_connections s) fd" for fd
    using that own by (cases "map_of (es_connections s) fd") (auto simp: delete_conv' split: if_splits)
  ultimately show ?thesis using c by auto
qed

text \<open>The descriptors of the objects alive, and what each event does to them.\<close>

abbreviation fds :: "ep_server \<Rightarrow> int list" where
  "fds s \<equiv> map (\<lambda>(ob, c). ec_sockfd c) (es_objs s)"

lemma count_list_map_inj: "inj f \<Longrightarrow> count_list (map f xs) (f x) = count_list xs x"
  by (induction xs) (auto simp: inj_eq)

lemma count_filter_split:
  "count_list (map f (filter P xs)) y + count_list (map f (filter (\<lambda>x. \<not> P x) xs)) y = count_list (map f xs) y"
  by (induction xs) auto

lemma release_fds:
  "count_list (snd (EpServer_release s)) (EpClose fd) + count_list (fds (fst (EpServer_release s))) fd = count_list (fds s) fd"
  "count_list (snd (EpServer_release s)) (EpAccept fd) = 0"
proof -
  have "(\<lambda>x. \<not> (\<lambda>(ob, c). referenced s ob) x) = (\<lambda>(ob, c :: ep_connection). \<not> referenced s ob)" by auto
  with count_filter_split [of "\<lambda>(ob, c). ec_sockfd c" "\<lambda>(ob, c). referenced s ob" "es_objs s" fd]
    count_list_map_inj [of EpClose "map (\<lambda>(ob, c). ec_sockfd c) (filter (\<lambda>(ob, c). \<not> referenced s ob) (es_objs s))" fd]
  show "count_list (snd (EpServer_release s)) (EpClose fd) + count_list (fds (fst (EpServer_release s))) fd = count_list (fds s) fd"
    by (simp add: EpServer_release_def Let_def inj_def del: map_map)
  show "count_list (snd (EpServer_release s)) (EpAccept fd) = 0"
    by (rule count_notin) (auto simp: EpServer_release_def Let_def)
qed

lemmas task_statements = EpServer_removeConnection_def EpServer_finish_def EpServer_stage_def EpServer_update_def

lemma task_effects:
  "x \<in> set (snd (EpServer_task i ob c st r s)) \<Longrightarrow>
     (\<exists>d. x = EpRecv ob d) \<or> (\<exists>t. x = EpPrint ob t) \<or> x \<in> {EpReadError (ec_sockfd c), EpOverrun ob, EpEpollDel (ec_sockfd c), EpRemoved (ec_sockfd c)}"
proof (cases st)
  case AtRead
  moreover assume "x \<in> set (snd (EpServer_task i ob c st r s))"
  ultimately show ?thesis
    by (cases r) (auto simp: task_statements EpConnection_readData_def split: if_splits)
next
  case AtProcess
  moreover assume "x \<in> set (snd (EpServer_task i ob c st r s))"
  ultimately show ?thesis
    by (cases "EpConnection_processData c") (auto simp: task_statements)
next
  case AtRemove
  moreover assume "x \<in> set (snd (EpServer_task i ob c st r s))"
  ultimately show ?thesis by (auto simp: task_statements)
qed

lemma task_fds:
  assumes "map_of (es_objs s) ob = Some c"
  shows "fds (fst (EpServer_task i ob c st r s)) = fds s"
proof (cases st)
  case AtRead
  have "ec_sockfd (snd (EpConnection_readData r c)) = ec_sockfd c"
    by (simp add: EpConnection_readData_def split: recv_result.split)
  with AtRead update_fds [OF assms this] show ?thesis
    by (cases r) (simp_all add: task_statements case_prod_beta Let_def)
next
  case AtProcess
  show ?thesis
  proof (cases "EpConnection_processData c")
    case (Some ct)
    then have "ec_sockfd (fst ct) = ec_sockfd c"
      by (auto simp: EpConnection_processData_def Let_def split: if_splits)
    with AtProcess Some update_fds [OF assms this] show ?thesis by (simp add: task_statements case_prod_beta)
  qed (use AtProcess in simp)
qed (simp add: task_statements)

lemma broadcast_effects:
  "x \<in> set (snd (seqs (map (\<lambda>((fd, ob), n). EpConnection_sendData d n fd) xs) s)) \<Longrightarrow> \<exists>fd b. x = EpSend fd b"
  by (induction xs arbitrary: s) (auto simp: EpConnection_sendData_def split: if_splits)

lemma event_fds:
  "count_list (fds (fst (EpServer_event ev s))) fd = count_list (fds s) fd + count_list (snd (EpServer_event ev s)) (EpAccept fd)
   \<and> count_list (snd (EpServer_event ev s)) (EpClose fd) = 0"
proof (cases ev)
  case (EvTask i r)
  show ?thesis
  proof (cases "\<exists>ob c. tp_workers (es_pool s) ! i = Running ob \<and> map_of (es_objs s) ob = Some c")
    case True
    then obtain ob c where o: "tp_workers (es_pool s) ! i = Running ob" "map_of (es_objs s) ob = Some c" by blast
    let ?t = "EpServer_task i ob c (es_stage s ! i) r s"
    have "EpClose fd \<notin> set (snd ?t)" "EpAccept fd \<notin> set (snd ?t)"
      using task_effects [of "EpClose fd"] task_effects [of "EpAccept fd"] by blast+
    then show ?thesis using EvTask o task_fds [OF o(2)] by (simp add: EpServer_worker_def)
  next
    case False
    then have "EpServer_worker i r s = (s, [])" by (auto simp: EpServer_worker_def split: worker.split option.split)
    then show ?thesis using EvTask by simp
  qed
next
  case (EvBroadcast d ns)
  with broadcast_effects [of _ d "zip (es_connections s) ns" s] broadcast_fst [of d "zip (es_connections s) ns" s]
  show ?thesis by (fastforce simp: EpServer_broadcast_def intro!: count_notin)
next
  case (EvHandle clientFd ctl n)
  then show ?thesis
    by (auto simp: EpServer_handle_def EpServer_handleNewConnection_def EpServer_handleExistingConnection_def EpServer_enqueue_def
        EpServer_removeConnection_def EpConnection_new_def EpConnection_sendData_def Let_def split: list.split option.split sum.split)
qed (auto simp: EpServer_stop_def split: option.split)

definition fd_ledger :: "ep_server \<Rightarrow> ep_effect list \<Rightarrow> bool" where
  "fd_ledger s os \<longleftrightarrow> (\<forall>fd. count_list os (EpClose fd) + count_list (fds s) fd = count_list os (EpAccept fd))"

interpretation epoll_fds: traced_machine EpServer_step EpServer_ok fd_ledger
proof
  fix s os ev
  assume "fd_ledger s os"
  then show "fd_ledger (fst (EpServer_step s ev)) (os @ snd (EpServer_step s ev))"
    using event_fds [of ev s] release_fds [of "fst (EpServer_event ev s)"]
    unfolding fd_ledger_def by (simp add: algebra_simps)
qed

text \<open>A small server, one thread, and the events by which it accepts a client and reads from it.\<close>

abbreviation sample_syscalls :: ep_syscalls where
  "sample_syscalls \<equiv> \<lparr>sc_epoll_create = 3, sc_socket = 4, sc_setsockopt = 0, sc_fcntl = 0, sc_bind = 0, sc_listen = 0, sc_epoll_ctl = 0\<rparr>"

definition sample_epoll :: ep_server where
  "sample_epoll = EpServer_start (projr (fst (EpServer_new sample_syscalls 1)))"

lemma sample_started: "started sample_syscalls 1 sample_epoll"
proof -
  have "EpServer_new sample_syscalls 1 = (Inr (projr (fst (EpServer_new sample_syscalls 1))), [])" by code_simp
  then show ?thesis unfolding started_def sample_epoll_def by auto
qed

text \<open>Evaluation of runs, with the buffers of the connections left as they are.\<close>

lemma EpConnection_new_fields [simp]: "ec_sockfd (EpConnection_new fd) = fd" "ec_bytesInBuffer (EpConnection_new fd) = 0"
  by (simp_all add: EpConnection_new_def)

lemma sample_epoll_eq: "sample_epoll = \<lparr>es_serverFd = 4, es_epollFd = 3, es_running = True,
    es_pool = \<lparr>tp_tasks = [], tp_stop = False, tp_workers = [Checking], tp_notify_one = 0, tp_notify_all = False\<rparr>,
    es_connections = [], es_objs = [], es_next = 0, es_stage = [AtRead], es_epoll = [], es_batch = [], es_undefined = False\<rparr>"
  by code_simp

lemmas epoll_eval = sample_epoll_eq EpServer_ok_def open_fds_def EpServer_handle_def EpServer_handleNewConnection_def
  EpServer_handleExistingConnection_def EpServer_enqueue_def EpConnection_sendData_def EpServer_release_def referenced_def
  task_refs_def List.map_filter_simps pool_defs worker_is_def EpServer_worker_def EpConnection_readData_def
  EpServer_update_def task_statements Let_def

abbreviation readable :: ep_flags where
  "readable \<equiv> \<lparr>ev_in = True, ev_err = False, ev_hup = False\<rparr>"

abbreviation accept_events :: "int \<Rightarrow> ep_event list" where
  "accept_events fd \<equiv> [EvWait [(4, readable)], EvHandle fd 0 44]"

abbreviation read_events :: "int \<Rightarrow> recv_result \<Rightarrow> ep_event list" where
  "read_events fd r \<equiv> [EvWait [(fd, readable)], EvHandle (-1) 0 0, EvPool (DoWorker 0), EvTask 0 r]"

theorem epoll_task_removes_own_witness:
  "let s = fst (run EpServer_step sample_epoll (accept_events 5 @ read_events 5 (Received [])));
       s' = fst (EpServer_step s (EvTask 0 (Received [])))
   in \<exists>c. map_of (es_objs s) 0 = Some c \<and> es_connections s = [(5, 0)] \<and> es_connections s' = [] \<and>
     (\<forall>fd. map_of (es_connections s') fd \<noteq> map_of (es_connections s) fd \<longrightarrow> fd = ec_sockfd c \<and> map_of (es_connections s) fd = Some 0)"
proof -
  let ?evs = "accept_events 5 @ read_events 5 (Received [])"
  let ?s = "fst (run EpServer_step sample_epoll ?evs)"
  have ok: "allowed EpServer_ok EpServer_step sample_epoll ?evs" by (simp add: epoll_eval welcomeMsg_def)
  have w: "worker_is (es_pool ?s) 0 (Running 0)" by (simp add: epoll_eval)
  have c: "es_connections ?s = [(5, 0)]" "es_connections (fst (EpServer_step ?s (EvTask 0 (Received [])))) = []" by (simp_all add: epoll_eval)
  from epoll_task_removes_own [OF sample_started ok refl w, of "Received []"] c show ?thesis
    unfolding Let_def by blast
qed

text \<open>
  C18: every descriptor that \<open>accept\<close> has returned is closed exactly once: in every run, a
  descriptor has been closed as often as it was accepted, less one if an object that owns it is
  alive, and no two objects own the same.
\<close>

theorem epoll_fd_closed_once:
  assumes "started sc n s0" and "allowed EpServer_ok EpServer_step s0 evs" and "run EpServer_step s0 evs = (s, os)"
  shows "count_list os (EpClose fd) + count_list (fds s) fd = count_list os (EpAccept fd) \<and> distinct (fds s)"
proof -
  have "fd_ledger s0 []" using started_fields(2) [OF assms(1)] by (simp add: fd_ledger_def)
  from epoll_fds.run_tinv [OF this assms(2)] assms(3) have "fd_ledger s os" by simp
  moreover have "ep_inv s" using epoll.run_inv [OF started_inv [OF assms(1)] assms(2)] assms(3) by simp
  ultimately show ?thesis using ep_invD(3) [of s] by (simp add: fd_ledger_def open_fds_def)
qed

theorem epoll_fd_closed_once_witness:
  "let (s, os) = run EpServer_step sample_epoll
         (accept_events 5 @ read_events 5 (Received []) @ [EvTask 0 (Received []), EvWait [(4, readable)], EvHandle 5 0 44])
   in count_list os (EpClose 5) + count_list (fds s) 5 = count_list os (EpAccept 5) \<and> count_list os (EpAccept 5) = 2"
proof -
  let ?evs = "accept_events 5 @ read_events 5 (Received []) @ [EvTask 0 (Received []), EvWait [(4, readable)], EvHandle 5 0 44]"
  have ok: "allowed EpServer_ok EpServer_step sample_epoll ?evs" by (simp add: epoll_eval welcomeMsg_def)
  have "count_list (snd (run EpServer_step sample_epoll ?evs)) (EpAccept 5) = 2" by (simp add: epoll_eval)
  with epoll_fd_closed_once [OF sample_started ok, of "fst (run EpServer_step sample_epoll ?evs)" "snd (run EpServer_step sample_epoll ?evs)" 5]
  show ?thesis by (simp add: case_prod_beta del: fst_run_Cons snd_run_Cons EpServer_step_fst EpServer_step_snd append.simps)
qed

section \<open>Data are printed in the order in which they are received\<close>

fun recv_by :: "nat \<Rightarrow> ep_effect \<Rightarrow> bytes option" where
  "recv_by ob (EpRecv ob' d) = (if ob' = ob then Some d else None)"
| "recv_by ob _ = None"

fun print_by :: "nat \<Rightarrow> ep_effect \<Rightarrow> bytes option" where
  "print_by ob (EpPrint ob' t) = (if ob' = ob then Some (bytes_of t) else None)"
| "print_by ob _ = None"

definition ep_received :: "nat \<Rightarrow> ep_effect list \<Rightarrow> bytes" where
  "ep_received ob os = concat (List.map_filter (recv_by ob) os)"

definition printed :: "nat \<Rightarrow> ep_effect list \<Rightarrow> bytes" where
  "printed ob os = concat (List.map_filter (print_by ob) os)"

lemma ep_received_simps [simp]:
  "ep_received ob [] = []" "ep_received ob (os @ os') = ep_received ob os @ ep_received ob os'"
  "printed ob [] = []" "printed ob (os @ os') = printed ob os @ printed ob os'"
  by (simp_all add: ep_received_def printed_def List.map_filter_simps)

lemma silent_effects:
  assumes "\<And>x. x \<in> set os \<Longrightarrow> recv_by ob x = None \<and> print_by ob x = None"
  shows "ep_received ob os = []" "printed ob os = []"
  using assms by (induction os) (auto simp: ep_received_def printed_def List.map_filter_simps)

text \<open>What is received and not printed yet is at the front of the buffer.\<close>

definition buffered :: "ep_connection \<Rightarrow> bytes" where
  "buffered c = take (ec_bytesInBuffer c) (ec_readBuffer c)"

lemma buffered_readData:
  assumes "length (ec_readBuffer c) = EP_MAX_BUFFER_SIZE" and "ec_bytesInBuffer c \<le> EP_MAX_BUFFER_SIZE"
  shows "buffered (snd (EpConnection_readData (Received d) c)) = buffered c @ d"
  using assms by (auto simp: buffered_def EpConnection_readData_def memcpy_def)

lemma buffered_processData:
  assumes "EpConnection_processData c = Some (c', ts)" and "0 \<notin> set (buffered c)"
  shows "buffered c' = []" and "concat (map bytes_of ts) = buffered c"
proof -
  have "takeWhile (\<lambda>b. b \<noteq> 0) (buf[n := 0]) = take n buf" if "n < length buf" "0 \<notin> set (take n buf)" for n and buf :: bytes
  proof -
    have "takeWhile (\<lambda>b. b \<noteq> 0) (take n buf @ 0 # drop (Suc n) buf) = take n buf @ takeWhile (\<lambda>b. b \<noteq> 0) (0 # drop (Suc n) buf)"
      by (rule takeWhile_append2) (use that(2) in auto)
    with that(1) show ?thesis by (simp add: upd_conv_take_nth_drop)
  qed
  then show "buffered c' = []" "concat (map bytes_of ts) = buffered c"
    using assms by (auto simp: EpConnection_processData_def buffered_def Let_def split: if_splits)
qed

text \<open>Events other than the steps of a task neither receive nor print, and change no object.\<close>

lemma handle_effects:
  "x \<in> set (snd (EpServer_handle clientFd ctl n s)) \<Longrightarrow> recv_by ob x = None \<and> print_by ob x = None"
  by (auto simp: EpServer_handle_def EpServer_handleNewConnection_def EpServer_handleExistingConnection_def EpServer_enqueue_def
      EpServer_removeConnection_def EpConnection_sendData_def Let_def split: list.splits option.splits sum.splits if_splits)

lemma other_event_silent:
  assumes "\<And>i r. ev \<noteq> EvTask i r"
  shows "ep_received ob (snd (EpServer_event ev s)) = []" "printed ob (snd (EpServer_event ev s)) = []"
proof -
  have "recv_by ob x = None \<and> print_by ob x = None" if "x \<in> set (snd (EpServer_event ev s))" for x
    using that assms handle_effects [of x] broadcast_effects [of x]
    by (cases ev) (fastforce simp: EpServer_broadcast_def split: option.splits)+
  then show "ep_received ob (snd (EpServer_event ev s)) = []" "printed ob (snd (EpServer_event ev s)) = []"
    by (simp_all add: silent_effects)
qed

lemma release_silent:
  "ep_received ob (snd (EpServer_release s)) = []" "printed ob (snd (EpServer_release s)) = []"
  by (rule silent_effects; auto simp: EpServer_release_def Let_def)+

lemma other_event_objs:
  assumes "\<And>i r. ev \<noteq> EvTask i r"
  shows "es_objs (fst (EpServer_event ev s)) = es_objs s \<and> es_next (fst (EpServer_event ev s)) = es_next s \<or>
    (\<exists>fd. es_objs (fst (EpServer_event ev s)) = (es_next s, EpConnection_new fd) # es_objs s \<and>
       es_next (fst (EpServer_event ev s)) = es_next s + 1)"
  using assms
  by (cases ev) (auto simp: EpServer_handle_def EpServer_handleNewConnection_def EpServer_handleExistingConnection_def
      EpServer_enqueue_def EpServer_removeConnection_def EpServer_broadcast_def broadcast_fst EpServer_stop_def Let_def
      split: list.splits option.splits sum.splits)

definition print_ledger :: "ep_server \<Rightarrow> ep_effect list \<Rightarrow> bool" where
  "print_ledger s os \<longleftrightarrow>
     (\<forall>ob \<ge> es_next s. ep_received ob os = [] \<and> printed ob os = []) \<and>
     (\<forall>ob c. map_of (es_objs s) ob = Some c \<longrightarrow> 0 \<notin> set (ep_received ob os) \<longrightarrow>
        ep_received ob os = printed ob os @ buffered c)"

text \<open>One stage of a task.\<close>

lemma task_objs_other: "ob' \<noteq> ob \<Longrightarrow> map_of (es_objs (fst (EpServer_task i ob c st r s))) ob' = map_of (es_objs s) ob'"
  by (cases st) (auto simp: task_statements update_conv' case_prod_beta Let_def split: recv_result.split option.split)

lemma task_next: "es_next (fst (EpServer_task i ob c st r s)) = es_next s"
  by (cases st) (auto simp: task_statements case_prod_beta Let_def split: recv_result.split option.split)

lemma task_effects_other:
  assumes "ob' \<noteq> ob"
  shows "ep_received ob' (snd (EpServer_task i ob c st r s)) = []" "printed ob' (snd (EpServer_task i ob c st r s)) = []"
proof -
  have "recv_by ob' x = None \<and> print_by ob' x = None" if "x \<in> set (snd (EpServer_task i ob c st r s))" for x
    using task_effects [OF that] assms by auto
  then show "ep_received ob' (snd (EpServer_task i ob c st r s)) = []" "printed ob' (snd (EpServer_task i ob c st r s)) = []"
    by (simp_all add: silent_effects)
qed

lemma task_own:
  assumes c: "map_of (es_objs s) ob = Some c" and inv: "ep_inv s" and z: "0 \<notin> set (buffered c)"
    and c': "map_of (es_objs (fst (EpServer_task i ob c st r s))) ob = Some c'"
  shows "buffered c @ ep_received ob (snd (EpServer_task i ob c st r s)) = printed ob (snd (EpServer_task i ob c st r s)) @ buffered c'"
proof (cases st)
  case AtRead
  then have c'': "c' = snd (EpConnection_readData r c)"
    using c' by (auto simp: task_statements update_conv' case_prod_beta Let_def split: recv_result.splits if_splits)
  show ?thesis
  proof (cases r)
    case (Received d)
    with AtRead c'' buffered_readData [of c d] ep_invD(7) [OF inv c] show ?thesis
      by (auto simp: ep_received_def printed_def List.map_filter_simps task_statements EpConnection_readData_def)
  next
    case (RecvError e)
    with AtRead c'' show ?thesis
      by (auto simp: ep_received_def printed_def List.map_filter_simps task_statements EpConnection_readData_def)
  qed
next
  case AtProcess
  show ?thesis
  proof (cases "EpConnection_processData c")
    case None
    with AtProcess c c' show ?thesis by (auto simp: ep_received_def printed_def List.map_filter_simps)
  next
    case (Some ct)
    obtain d ts where ct: "ct = (d, ts)" by fastforce
    have "ep_received ob (map (EpPrint ob) ts) = []" "printed ob (map (EpPrint ob) ts) = concat (map bytes_of ts)"
      by (induction ts) (simp_all add: ep_received_def printed_def List.map_filter_simps)
    with AtProcess Some c' buffered_processData [OF Some [unfolded ct] z] show ?thesis
      by (auto simp: ct task_statements update_conv')
  qed
next
  case AtRemove
  with c c' show ?thesis by (auto simp: task_statements ep_received_def printed_def List.map_filter_simps)
qed

lemma print_ledger_task:
  assumes led: "print_ledger s os" and inv: "ep_inv s" and c: "map_of (es_objs s) ob = Some c"
    and t: "t = EpServer_task i ob c st r s"
  shows "print_ledger (fst t) (os @ snd t)"
  unfolding print_ledger_def
proof (intro conjI allI impI)
  have less: "ob < es_next s" using ep_invD(6) [OF inv] c by (force dest: map_of_SomeD)
  fix ob' assume "es_next (fst t) \<le> ob'"
  then have "ob' \<noteq> ob" "es_next s \<le> ob'" using less by (simp_all add: t task_next)
  then show "ep_received ob' (os @ snd t) = []" "printed ob' (os @ snd t) = []"
    using led task_effects_other [of ob' ob i c st r s] by (simp_all add: t print_ledger_def)
next
  fix ob' c' assume c': "map_of (es_objs (fst t)) ob' = Some c'" and z: "0 \<notin> set (ep_received ob' (os @ snd t))"
  show "ep_received ob' (os @ snd t) = printed ob' (os @ snd t) @ buffered c'"
  proof (cases "ob' = ob")
    case True
    have now: "ep_received ob os = printed ob os @ buffered c" using led c z True by (simp add: print_ledger_def)
    with z True have "0 \<notin> set (buffered c)" by auto
    from task_own [OF c inv this] c' True now show ?thesis by (simp add: t)
  next
    case False
    with led z c' task_effects_other [OF False, of i c st r s] show ?thesis
      by (simp add: t task_objs_other print_ledger_def)
  qed
qed

lemma print_ledger_event:
  assumes led: "print_ledger s os" and inv: "ep_inv s"
  shows "print_ledger (fst (EpServer_event ev s)) (os @ snd (EpServer_event ev s))"
proof (cases "\<exists>i r. ev = EvTask i r")
  case False
  then have noTask: "\<And>i r. ev \<noteq> EvTask i r" by blast
  have "buffered (EpConnection_new fd) = []" for fd by (simp add: buffered_def)
  with led other_event_silent [OF noTask, of _ s] other_event_objs [OF noTask, of s] show ?thesis
    by (auto simp: print_ledger_def split: if_splits)
next
  case True
  then obtain i r where ev: "ev = EvTask i r" by blast
  show ?thesis
  proof (cases "\<exists>ob c. tp_workers (es_pool s) ! i = Running ob \<and> map_of (es_objs s) ob = Some c")
    case False
    then have "EpServer_worker i r s = (s, [])" by (auto simp: EpServer_worker_def split: worker.split option.split)
    with ev led show ?thesis by simp
  next
    case True
    then obtain ob c where "tp_workers (es_pool s) ! i = Running ob" "map_of (es_objs s) ob = Some c" by blast
    with ev print_ledger_task [OF led inv this(2) refl] show ?thesis by (simp add: EpServer_worker_def)
  qed
qed

lemma print_ledger_release:
  assumes "print_ledger s os"
  shows "print_ledger (fst (EpServer_release s)) (os @ snd (EpServer_release s))"
proof -
  have "map_of (es_objs (fst (EpServer_release s))) ob = Some c \<Longrightarrow> map_of (es_objs s) ob = Some c" for ob c
    by (simp add: EpServer_release_def Let_def map_of_filter_key split: if_splits)
  moreover have "es_next (fst (EpServer_release s)) = es_next s" by (simp add: EpServer_release_def Let_def)
  ultimately show ?thesis using assms unfolding print_ledger_def by (simp add: release_silent)
qed

interpretation epoll_prints: traced_machine EpServer_step EpServer_ok "\<lambda>s os. ep_inv s \<and> print_ledger s os"
proof
  fix s os ev
  assume "ep_inv s \<and> print_ledger s os" and "EpServer_ok s ev"
  then show "ep_inv (fst (EpServer_step s ev)) \<and> print_ledger (fst (EpServer_step s ev)) (os @ snd (EpServer_step s ev))"
    using epoll.step_inv [of s ev] print_ledger_release [OF print_ledger_event [of s os ev]] by auto
qed



section \<open>The pool of the server\<close>

lemma event_pool:
  assumes ok: "kernel_ok s ev"
  shows "\<exists>tr. pool_run (es_pool s) tr (es_pool (fst (EpServer_event ev s)))"
proof (cases ev)
  case (EvHandle clientFd ctl n)
  have "\<exists>tr. pool_run (es_pool s) tr (es_pool (fst (EpServer_enqueue ob s)))" for ob and s :: ep_server
    using pool_run_refl pool_run_step [OF pool_run_refl pool_step.enqueue]
    by (fastforce simp: EpServer_enqueue_def split: sum.split)
  note enq = this [of "s\<lparr>es_batch := b\<rparr>" for b, simplified]
  have rem: "es_pool (fst (EpServer_removeConnection fd t)) = es_pool t" for fd t by (simp add: EpServer_removeConnection_def)
  have new: "es_pool (fst (EpServer_handleNewConnection clientFd ctl n t)) = es_pool t" for t
    by (simp add: EpServer_handleNewConnection_def Let_def)
  show ?thesis
    using EvHandle enq pool_run_refl [of "es_pool s"]
    by (auto simp: EpServer_handle_def new EpServer_handleExistingConnection_def rem split: list.split option.split)
next
  case (EvPool m)
  then obtain a p where "pool_exec (es_pool s) m = Some (a, p)" using ok by auto
  with EvPool pool_run_step [OF pool_run_refl pool_exec_step] show ?thesis by fastforce
next
  case (EvTask i r)
  with ok obtain ob where ob: "i < length (tp_workers (es_pool s))" "tp_workers (es_pool s) ! i = Running ob"
    by (auto split: worker.splits)
  have "es_pool (fst (EpServer_task i ob c st r s)) \<in> {es_pool s, ThreadPool_finish i (es_pool s)}" for c st
    by (cases st) (auto simp: task_statements case_prod_beta Let_def split: recv_result.split option.split)
  then have "es_pool (fst (EpServer_worker i r s)) \<in> {es_pool s, ThreadPool_finish i (es_pool s)}"
    using ob by (auto simp: EpServer_worker_def split: option.split)
  with EvTask pool_run_refl [of "es_pool s"] pool_run_step [OF pool_run_refl pool_step.finish [OF ob]]
  show ?thesis by auto
next
  case (EvBroadcast d ns)
  with pool_run_refl [of "es_pool s"] show ?thesis by (auto simp: EpServer_broadcast_def broadcast_fst)
qed (use pool_run_refl [of "es_pool s"] in \<open>auto simp: EpServer_stop_def\<close>)

interpretation epoll_pool: machine EpServer_step EpServer_ok "\<lambda>s. \<exists>tr. pool_run (ThreadPool_new n) tr (es_pool s)" for n
proof
  fix s ev
  assume "\<exists>tr. pool_run (ThreadPool_new n) tr (es_pool s)" and "EpServer_ok s ev"
  then obtain tr tr' where "pool_run (ThreadPool_new n) tr (es_pool s)" "pool_run (es_pool s) tr' (es_pool (fst (EpServer_event ev s)))"
    using event_pool [of s ev] by (auto simp: EpServer_ok_def)
  then have "pool_run (ThreadPool_new n) (tr @ tr') (es_pool (fst (EpServer_event ev s)))" by (rule pool_run_append [rotated])
  then show "\<exists>tr. pool_run (ThreadPool_new n) tr (es_pool (fst (EpServer_step s ev)))" by (auto simp: EpServer_release_def Let_def)
qed



section \<open>Where the server fails\<close>



text \<open>
  The events of one call of \<open>epoll_wait\<close> can be stale. A client hangs up; a worker that reads the
  end of its stream removes the connection and closes the descriptor; the loop accepts a new client,
  which is given the same descriptor, and then handles the hang-up of the old one: the new client
  is disconnected.
\<close>

theorem epoll_stale_event:
  "let hup = \<lparr>ev_in = False, ev_err = False, ev_hup = True\<rparr>;
       evs = accept_events 5 @ [EvWait [(5, readable)], EvHandle (-1) 0 0, EvWait [(4, readable), (5, hup)],
         EvPool (DoWorker 0), EvTask 0 (Received []), EvTask 0 (Received []), EvHandle 5 0 44];
       s = fst (run EpServer_step sample_epoll evs); (s', os) = EpServer_step s (EvHandle (-1) 0 0)
   in allowed EpServer_ok EpServer_step sample_epoll (evs @ [EvHandle (-1) 0 0]) \<and>
      es_connections s = [(5, 1)] \<and> es_connections s' = [] \<and> os = [EpEpollDel 5, EpRemoved 5, EpClose 5]"
  by (simp add: epoll_eval welcomeMsg_def case_prod_beta)

text \<open>
  The constructor leaks no descriptor. It throws exactly if a system call fails, and then it
  has closed every descriptor that it had opened; otherwise it has closed none.
\<close>

theorem epoll_constructor_cleans_up:
  "let opened = (if sc_epoll_create sc = -1 then [] else if sc_socket sc = -1 then [sc_epoll_create sc]
                 else [sc_socket sc, sc_epoll_create sc]);
       failed = (sc_epoll_create sc = -1 \<or> sc_socket sc = -1 \<or> sc_setsockopt sc < 0 \<or> sc_fcntl sc < 0 \<or>
                 sc_bind sc < 0 \<or> sc_listen sc < 0 \<or> sc_epoll_ctl sc < 0);
       (res, os) = EpServer_new sc n
   in isl res = failed \<and> os = (if failed then map EpClose opened else [])"
  by (simp add: EpServer_new_def Let_def)

end
