(* ===== verification/Smpp.thy ===== *)
theory Smpp
  imports ByteOrder Framing Reader
begin

text \<open>
  The SMPP library of \<open>new_chatgpt/main.cpp\<close>: PDUs, the session that clients and servers share,
  and the client and the server on top of it.

  A PDU is a value; the members that a constructor leaves uninitialised get their value from the
  environment (\<open>sm_junk\<close>). \<open>to_buffers\<close> returns a buffer that refers to an array of its own stack
  frame; the model takes the bytes that the array held. The derived classes call members of \<open>body\<close>,
  which is a pointer, as if it were the vector; the vector is meant. \<open>SmppSession::connect\<close>, which
  \<open>SmppClient::connect\<close> calls, is not part of the sources.
\<close>

section \<open>PDUs\<close>

definition MAX_HEADER :: nat where
  "MAX_HEADER = 16"

definition MAX_PDU_SIZE :: nat where
  "MAX_PDU_SIZE = 1024 * 8"

record smpp_pdu =
  command_length :: u32
  command_id :: u32
  command_status :: u32
  sequence_number :: u32
  body :: bytes

text \<open>\<open>native_to_big\<close> and \<open>big_to_native\<close> of Boost.Endian are \<open>htonl\<close> and \<open>ntohl\<close>.\<close>

definition to_buffers :: "endian \<Rightarrow> smpp_pdu \<Rightarrow> bytes" where
  "to_buffers h pdu =
     mem_u32 h (htonl h (command_length pdu)) @ mem_u32 h (htonl h (command_id pdu)) @
     mem_u32 h (htonl h (command_status pdu)) @ mem_u32 h (htonl h (sequence_number pdu)) @ body pdu"

datatype parsed = NullPdu | ParsedPdu smpp_pdu | UndefinedRange

text \<open>
  \<open>deserialize\<close>: the body is assigned from \<open>data + 16\<close> to \<open>data + cmd_len\<close>, which is no valid range if
  the length is below 16.
\<close>

definition deserialize :: "endian \<Rightarrow> bytes \<Rightarrow> nat \<Rightarrow> parsed" where
  "deserialize h data n =
     (if n < MAX_HEADER then NullPdu
      else (let cmd_len = ntohl h (u32_mem h (take 4 data)) in
        if n < unat cmd_len \<or> unat cmd_len > MAX_PDU_SIZE then NullPdu
        else if unat cmd_len < 16 then UndefinedRange
        else ParsedPdu \<lparr>command_length = cmd_len,
               command_id = ntohl h (u32_mem h (take 4 (drop 4 data))),
               command_status = ntohl h (u32_mem h (take 4 (drop 8 data))),
               sequence_number = ntohl h (u32_mem h (take 4 (drop 12 data))),
               body = take (unat cmd_len - 16) (drop 16 data)\<rparr>))"

record smpp_env =
  sm_host :: endian
  sm_junk :: u32

definition SmppPdu_new :: "smpp_env \<Rightarrow> smpp_pdu" where
  "SmppPdu_new e = \<lparr>command_length = sm_junk e, command_id = sm_junk e, command_status = sm_junk e,
     sequence_number = sm_junk e, body = []\<rparr>"

definition BindTransceiver :: "smpp_env \<Rightarrow> u32 \<Rightarrow> string \<Rightarrow> string \<Rightarrow> smpp_pdu" where
  "BindTransceiver e sq system_id password = (SmppPdu_new e)
     \<lparr>command_id := 0x00000009, command_status := 0, sequence_number := sq,
      body := bytes_of system_id @ [0] @ bytes_of password @ [0] @ [0, 0x34, 0, 0, 0]\<rparr>"

definition BindTransceiverResp :: "smpp_env \<Rightarrow> u32 \<Rightarrow> u32 \<Rightarrow> smpp_pdu" where
  "BindTransceiverResp e sq status = (SmppPdu_new e)
     \<lparr>command_id := 0x80000009, command_status := status, sequence_number := sq,
      body := bytes_of ''SMPP-SERVER'' @ [0]\<rparr>"

definition EnquireLink :: "smpp_env \<Rightarrow> u32 \<Rightarrow> smpp_pdu" where
  "EnquireLink e sq = (SmppPdu_new e)\<lparr>command_id := 0x00000015, command_status := 0, sequence_number := sq\<rparr>"

section \<open>Sessions\<close>

text \<open>
  The request callback is the application's, or the one that \<open>SmppServer\<close> installs. A session keeps
  the reads, writes and timer waits it has outstanding.
\<close>

datatype smpp_handler = NoHandler | UserHandler | ServerBind

record smpp_session =
  ss_seq :: u32
  ss_pending_timers :: "(u32, unit) umap"
  ss_streambuf :: bytes
  ss_on_request :: smpp_handler
  ss_on_response :: bool
  ss_on_timeout :: bool
  ss_on_close :: bool
  \<comment> \<open>held by Boost.Asio: the read, the writes, the waits of the request timers, those of the
    inactivity timer, whether the socket is open\<close>
  ss_reading :: "read_op option"
  ss_writing :: "bytes list"
  ss_waits :: "u32 list"
  ss_inactivity :: nat
  ss_open :: bool

datatype smpp_effect =
    SmStartRead read_op
  | SmWrite bytes
  | SmTimerWait u32
  | SmTimerCancel u32
  | SmInactivityWait
  | SmSocketClose
  | SmCallRequest smpp_pdu
  | SmCallResponse smpp_pdu
  | SmCallTimeout u32
  | SmCallClose
  | SmIoContextStop
  | SmThreadStart
  | SmThreadJoin
  | SmUndefined

type_synonym smpp_proc = "(smpp_session, smpp_effect) proc"

definition SmppSession_new :: smpp_session where
  "SmppSession_new = \<lparr>ss_seq = 1, ss_pending_timers = [], ss_streambuf = [], ss_on_request = NoHandler,
     ss_on_response = False, ss_on_timeout = False, ss_on_close = False, ss_reading = None, ss_writing = [],
     ss_waits = [], ss_inactivity = 0, ss_open = True\<rparr>"

definition SmppSession_close :: smpp_proc where
  "SmppSession_close =
     seqs [modify (\<lambda>s. s\<lparr>ss_open := False\<rparr>), emit SmSocketClose,
           (\<lambda>s. if_do (ss_on_close s) (emit SmCallClose) s)]"

definition SmppSession_write :: "bytes \<Rightarrow> smpp_proc" where
  "SmppSession_write d = seqs [modify (\<lambda>s. s\<lparr>ss_writing := ss_writing s @ [d]\<rparr>), emit (SmWrite d)]"

text \<open>
  \<open>send_batch\<close>: the sixteen bytes at \<open>&pdu->command_length\<close> are the members as they are in memory.
  The result is the list of PDUs with the numbers they were given.
\<close>

fun number_pdus :: "u32 \<Rightarrow> smpp_pdu list \<Rightarrow> smpp_pdu list" where
  "number_pdus sq [] = []"
| "number_pdus sq (pdu # pdus) = pdu\<lparr>sequence_number := sq\<rparr> # number_pdus (sq + 1) pdus"

definition pdu_memory :: "endian \<Rightarrow> smpp_pdu \<Rightarrow> bytes" where
  "pdu_memory h pdu = mem_u32 h (command_length pdu) @ mem_u32 h (command_id pdu) @
     mem_u32 h (command_status pdu) @ mem_u32 h (sequence_number pdu)"

definition SmppSession_send_batch :: "smpp_env \<Rightarrow> smpp_pdu list \<Rightarrow> smpp_proc" where
  "SmppSession_send_batch e pdus s =
     (let numbered = number_pdus (ss_seq s) pdus in
      seqs [modify (\<lambda>s. s\<lparr>ss_seq := ss_seq s + of_nat (length pdus)\<rparr>),
            SmppSession_write (concat (map (\<lambda>pdu. pdu_memory (sm_host e) pdu @ body pdu) numbered))] s)"

definition SmppSession_send_pdu :: "smpp_env \<Rightarrow> smpp_pdu \<Rightarrow> smpp_proc" where
  "SmppSession_send_pdu e pdu s =
     (let sq = ss_seq s; pdu' = pdu\<lparr>sequence_number := sq\<rparr> in
      seqs [modify (\<lambda>s. s\<lparr>ss_seq := sq + 1\<rparr>),
            modify (\<lambda>s. s\<lparr>ss_waits := ss_waits s @ [sq]\<rparr>), emit (SmTimerWait sq),
            modify (\<lambda>s. s\<lparr>ss_pending_timers := emplace sq () (ss_pending_timers s)\<rparr>),
            SmppSession_write (to_buffers (sm_host e) pdu')] s)"

definition SmppSession_onWrite :: "error_code \<Rightarrow> smpp_proc" where
  "SmppSession_onWrite ec =
     seqs [modify (\<lambda>s. s\<lparr>ss_writing := tl (ss_writing s)\<rparr>), if_do (ec \<noteq> None) SmppSession_close]"

definition SmppSession_onTimer :: "u32 \<Rightarrow> error_code \<Rightarrow> smpp_proc" where
  "SmppSession_onTimer sq ec =
     seqs [modify (\<lambda>s. s\<lparr>ss_waits := remove1 sq (ss_waits s)\<rparr>),
           if_do (ec = None)
             (seqs [modify (\<lambda>s. s\<lparr>ss_pending_timers := AList.delete sq (ss_pending_timers s)\<rparr>),
                    (\<lambda>s. if_do (ss_on_timeout s) (emit (SmCallTimeout sq)) s)])]"

definition SmppSession_reset_inactivity_timer :: smpp_proc where
  "SmppSession_reset_inactivity_timer =
     seqs [modify (\<lambda>s. s\<lparr>ss_inactivity := ss_inactivity s + 1\<rparr>), emit SmInactivityWait]"

definition SmppSession_onInactivity :: "error_code \<Rightarrow> smpp_proc" where
  "SmppSession_onInactivity ec =
     seqs [modify (\<lambda>s. s\<lparr>ss_inactivity := ss_inactivity s - 1\<rparr>), if_do (ec = None) SmppSession_close]"

definition SmppSession_read :: "read_op \<Rightarrow> smpp_proc" where
  "SmppSession_read n = seqs [modify (\<lambda>s. s\<lparr>ss_reading := Some n\<rparr>), emit (SmStartRead n)]"

definition SmppSession_read_header :: smpp_proc where
  "SmppSession_read_header = SmppSession_read RdHeader"

definition SmppSession_read_body :: "nat \<Rightarrow> smpp_proc" where
  "SmppSession_read_body n = SmppSession_read (RdBody n)"

definition SmppSession_start :: smpp_proc where
  "SmppSession_start = seqs [SmppSession_reset_inactivity_timer, SmppSession_read_header]"

definition SmppSession_handle_header :: "smpp_env \<Rightarrow> smpp_proc" where
  "SmppSession_handle_header e s =
     (let cmd_len = ntohl (sm_host e) (u32_mem (sm_host e) (take 4 (ss_streambuf s))) in
      if unat cmd_len < MAX_HEADER \<or> unat cmd_len > MAX_PDU_SIZE then SmppSession_close s
      else SmppSession_read_body (unat cmd_len - MAX_HEADER) s)"

definition SmppSession_onHeader :: "smpp_env \<Rightarrow> error_code \<Rightarrow> bytes \<Rightarrow> smpp_proc" where
  "SmppSession_onHeader e ec d =
     seqs [modify (\<lambda>s. s\<lparr>ss_reading := None, ss_streambuf := ss_streambuf s @ d\<rparr>),
           if ec \<noteq> None then SmppSession_close else SmppSession_handle_header e]"

text \<open>The request callback that \<open>SmppServer::start_accept\<close> gives its sessions.\<close>

definition SmppServer_on_request :: "smpp_env \<Rightarrow> smpp_pdu \<Rightarrow> smpp_proc" where
  "SmppServer_on_request e p =
     if_do (command_id p = 0x00000009) (SmppSession_send_pdu e (BindTransceiverResp e (sequence_number p) 0))"

definition SmppSession_request :: "smpp_env \<Rightarrow> smpp_pdu \<Rightarrow> smpp_proc" where
  "SmppSession_request e pdu s =
     (case ss_on_request s of
        NoHandler \<Rightarrow> skip s
      | UserHandler \<Rightarrow> emit (SmCallRequest pdu) s
      | ServerBind \<Rightarrow> SmppServer_on_request e pdu s)"

definition SmppSession_handle_pdu :: "smpp_env \<Rightarrow> smpp_pdu \<Rightarrow> smpp_proc" where
  "SmppSession_handle_pdu e pdu s =
     (if map_of (ss_pending_timers s) (sequence_number pdu) \<noteq> None
      then seqs [emit (SmTimerCancel (sequence_number pdu)),
                 modify (\<lambda>s. s\<lparr>ss_pending_timers := AList.delete (sequence_number pdu) (ss_pending_timers s)\<rparr>),
                 (\<lambda>s. if_do (ss_on_response s) (emit (SmCallResponse pdu)) s)] s
      else SmppSession_request e pdu s)"

definition SmppSession_parse_pdu :: "smpp_env \<Rightarrow> nat \<Rightarrow> smpp_proc" where
  "SmppSession_parse_pdu e n s =
     (let pdu = deserialize (sm_host e) (ss_streambuf s) n in
      seqs [modify (\<lambda>s. s\<lparr>ss_streambuf := drop n (ss_streambuf s)\<rparr>),
            (case pdu of NullPdu \<Rightarrow> skip | UndefinedRange \<Rightarrow> emit SmUndefined | ParsedPdu p \<Rightarrow> SmppSession_handle_pdu e p)] s)"

definition SmppSession_onBody :: "smpp_env \<Rightarrow> nat \<Rightarrow> error_code \<Rightarrow> bytes \<Rightarrow> smpp_proc" where
  "SmppSession_onBody e n ec d =
     seqs [modify (\<lambda>s. s\<lparr>ss_reading := None, ss_streambuf := ss_streambuf s @ d\<rparr>),
           if ec \<noteq> None then SmppSession_close
           else seqs [SmppSession_parse_pdu e (n + MAX_HEADER), SmppSession_reset_inactivity_timer, SmppSession_read_header]]"

section \<open>Events\<close>

datatype smpp_event =
    SmStart
  | SmSendPdu smpp_pdu
  | SmSendBatch "smpp_pdu list"
  | SmDoClose
  | SmReadDone error_code bytes
  | SmWriteDone error_code
  | SmTimerFired u32 error_code
  | SmInactivityFired error_code

fun SmppSession_step :: "smpp_env \<Rightarrow> smpp_session \<Rightarrow> smpp_event \<Rightarrow> smpp_session \<times> smpp_effect list" where
  "SmppSession_step e s SmStart = SmppSession_start s"
| "SmppSession_step e s (SmSendPdu pdu) = SmppSession_send_pdu e pdu s"
| "SmppSession_step e s (SmSendBatch pdus) = SmppSession_send_batch e pdus s"
| "SmppSession_step e s SmDoClose = SmppSession_close s"
| "SmppSession_step e s (SmReadDone ec d) =
     (case ss_reading s of
        None \<Rightarrow> (s, [])
      | Some RdHeader \<Rightarrow> SmppSession_onHeader e ec d s
      | Some (RdBody n) \<Rightarrow> SmppSession_onBody e n ec d s)"
| "SmppSession_step e s (SmWriteDone ec) = SmppSession_onWrite ec s"
| "SmppSession_step e s (SmTimerFired sq ec) = SmppSession_onTimer sq ec s"
| "SmppSession_step e s (SmInactivityFired ec) = SmppSession_onInactivity ec s"

definition SmppSession_want :: "smpp_session \<Rightarrow> nat option" where
  "SmppSession_want s = (case ss_reading s of None \<Rightarrow> None | Some RdHeader \<Rightarrow> Some MAX_HEADER | Some (RdBody n) \<Rightarrow> Some n)"

fun SmppSession_ok :: "smpp_session \<Rightarrow> smpp_event \<Rightarrow> bool" where
  "SmppSession_ok s SmStart = (ss_reading s = None \<and> ss_streambuf s = [] \<and> ss_open s)"
| "SmppSession_ok s (SmReadDone ec d) =
     (ss_reading s \<noteq> None \<and> (ec = None \<longrightarrow> SmppSession_want s = Some (length d)) \<and>
      (ec = None \<longrightarrow> ss_open s))"
| "SmppSession_ok s (SmWriteDone ec) = (ss_writing s \<noteq> [])"
| "SmppSession_ok s (SmTimerFired sq ec) = (sq \<in> set (ss_waits s))"
| "SmppSession_ok s (SmInactivityFired ec) = (0 < ss_inactivity s)"
| "SmppSession_ok s _ = True"

section \<open>Client and server\<close>

text \<open>The client forwards the session's callbacks to its own, if they are set.\<close>

definition SmppClient_new :: smpp_session where
  "SmppClient_new = SmppSession_new\<lparr>ss_on_request := UserHandler, ss_on_response := True, ss_on_timeout := True, ss_on_close := True\<rparr>"

definition SmppClient_bind_transceiver :: "smpp_env \<Rightarrow> string \<Rightarrow> string \<Rightarrow> smpp_proc" where
  "SmppClient_bind_transceiver e sys_id pwd = SmppSession_send_pdu e (BindTransceiver e 1 sys_id pwd)"

text \<open>\<open>close\<close> of the client; \<open>joinable\<close> says whether \<open>connect\<close> has started the thread.\<close>

definition SmppClient_close :: "bool \<Rightarrow> smpp_proc" where
  "SmppClient_close joinable = seqs [SmppSession_close, emit SmIoContextStop, if_do joinable (emit SmThreadJoin)]"

definition SmppServer_session :: smpp_session where
  "SmppServer_session = SmppSession_new\<lparr>ss_on_request := ServerBind\<rparr>"

text \<open>
  The server's sessions, the last one being that of the outstanding accept; the handler of
  \<open>async_accept\<close> starts it, unless it failed, and accepts again.
\<close>

definition SmppServer_new :: "smpp_session list" where
  "SmppServer_new = [SmppServer_session]"

definition SmppServer_onAccept :: "error_code \<Rightarrow> smpp_session list \<Rightarrow> smpp_session list \<times> smpp_effect list" where
  "SmppServer_onAccept ec ss =
     (let (s, os) = (if ec = None then SmppSession_start (last ss) else (last ss, []))
      in (butlast ss @ [s] @ [SmppServer_session], os))"

text \<open>The destructor stops the context and joins the threads that run it.\<close>

definition SmppServer_destroy :: "nat \<Rightarrow> smpp_effect list" where
  "SmppServer_destroy threads = SmIoContextStop # replicate threads SmThreadJoin"

end
