(* ===== verification/SmppProps.thy ===== *)
theory SmppProps
  imports Smpp
begin

text \<open>
  What holds of the SMPP library: the PDU format is a packet codec on every host, a session handles
  a stream of PDUs as a specification on whole PDUs does, \<open>send_batch\<close> agrees with \<open>send_pdu\<close> on the
  wire on big-endian hosts only, and every request that is sent is answered or timed out at most
  once.
\<close>

section \<open>The PDU format\<close>

definition wf_pdu :: "smpp_pdu \<Rightarrow> bool" where
  "wf_pdu p \<longleftrightarrow> unat (command_length p) = 16 + length (body p) \<and> 16 + length (body p) \<le> MAX_PDU_SIZE"

text \<open>The next PDU of a stream and the bytes after it, with the length that its header announces.\<close>

definition decode_pdu :: "endian \<Rightarrow> bytes \<Rightarrow> (smpp_pdu \<times> bytes) option" where
  "decode_pdu h bs =
     (case deserialize h bs (length bs) of
        ParsedPdu p \<Rightarrow> Some (p, drop (unat (command_length p)) bs)
      | _ \<Rightarrow> None)"

definition pdu_header :: "smpp_pdu \<Rightarrow> bytes" where
  "pdu_header p = be_bytes (command_length p) @ be_bytes (command_id p) @
     be_bytes (command_status p) @ be_bytes (sequence_number p)"

lemma to_buffers_wire [codec_simps]: "to_buffers h p = pdu_header p @ body p"
  by (simp add: to_buffers_def pdu_header_def)

lemma length_pdu_header [simp]: "length (pdu_header p) = 16"
  by (simp add: pdu_header_def)

lemma pdu_header_fields [simp, codec_simps]:
  "take 4 (pdu_header p @ r) = be_bytes (command_length p)"
  "take 4 (drop 4 (pdu_header p @ r)) = be_bytes (command_id p)"
  "take 4 (drop 8 (pdu_header p @ r)) = be_bytes (command_status p)"
  "take 4 (drop 12 (pdu_header p @ r)) = be_bytes (sequence_number p)"
  "take 4 (pdu_header p) = be_bytes (command_length p)"
  "take 4 (drop 4 (pdu_header p)) = be_bytes (command_id p)"
  "take 4 (drop 8 (pdu_header p)) = be_bytes (command_status p)"
  "drop 12 (pdu_header p) = be_bytes (sequence_number p)"
  by (simp_all add: pdu_header_def)

lemma deserialize_to_buffers:
  "wf_pdu p \<Longrightarrow> 16 + length (body p) \<le> n \<Longrightarrow> deserialize h (pdu_header p @ body p @ rest) n = ParsedPdu p"
  by (simp add: deserialize_def wf_pdu_def MAX_HEADER_def Let_def)

lemma decode_to_buffers: "wf_pdu p \<Longrightarrow> decode_pdu h (to_buffers h' p @ rest) = Some (p, rest)"
  by (simp add: decode_pdu_def to_buffers_wire deserialize_to_buffers wf_pdu_def)

lemma decode_pdu_partial:
  assumes "wf_pdu p" and "strict_prefix q (to_buffers h' p)"
  shows "decode_pdu h q = None"
proof (cases "length q < 16")
  case True
  then show ?thesis by (simp add: decode_pdu_def deserialize_def MAX_HEADER_def)
next
  case False
  from assms(2) obtain r where r: "to_buffers h' p = q @ r" and short: "length q < length (to_buffers h' p)"
    by (auto simp: strict_prefix_def prefix_def)
  have "take 4 q = take 4 (to_buffers h' p)"
    using False by (simp add: r)
  then have "ntohl h (u32_mem h (take 4 q)) = command_length p"
    using False by (simp add: to_buffers_wire)
  with short assms(1) show ?thesis
    by (simp add: decode_pdu_def deserialize_def Let_def to_buffers_wire wf_pdu_def)
qed

interpretation smpp: framing "to_buffers h" "decode_pdu h'" wf_pdu for h h'
proof unfold_locales
  show "to_buffers h f \<noteq> []" for f
    using length_pdu_header [of f] by (auto simp: to_buffers_wire simp del: length_pdu_header)
qed (simp_all add: decode_to_buffers decode_pdu_partial)


definition smpp_sample :: smpp_env where
  "smpp_sample = \<lparr>sm_host = LittleEndian, sm_junk = 7\<rparr>"

definition sample_bind :: smpp_pdu where
  "sample_bind = \<lparr>command_length = 19, command_id = 9, command_status = 0, sequence_number = 5, body = [65, 0, 0]\<rparr>"

definition sample_link :: smpp_pdu where
  "sample_link = \<lparr>command_length = 16, command_id = 0x15, command_status = 0, sequence_number = 6, body = []\<rparr>"

lemma wf_samples [simp]: "wf_pdu sample_bind" "wf_pdu sample_link"
  by (simp_all add: wf_pdu_def sample_bind_def sample_link_def MAX_PDU_SIZE_def)


section \<open>Receiving\<close>

definition SmppSession_deliver :: "smpp_env \<Rightarrow> smpp_session \<Rightarrow> bytes \<Rightarrow> smpp_session \<times> smpp_effect list" where
  "SmppSession_deliver e s d = SmppSession_step e s (SmReadDone None d)"

text \<open>
  The specification on whole PDUs. Its state is the numbers of the requests that wait for a response,
  and the next number. A PDU with one of the numbers is the response; any other is a request. The
  server's handler answers a bind request with a PDU of its own number, which waits for a response
  in turn.
\<close>

type_synonym smpp_spec_state = "smpp_handler \<times> bool \<times> u32 \<times> u32 set"

definition smpp_bind_reply :: "smpp_env \<Rightarrow> u32 \<Rightarrow> smpp_pdu" where
  "smpp_bind_reply e sq = (BindTransceiverResp e sq 0)"

fun smpp_spec :: "smpp_env \<Rightarrow> smpp_spec_state \<Rightarrow> smpp_pdu \<Rightarrow> smpp_spec_state \<times> smpp_effect list" where
  "smpp_spec e (g, r, sq, P) p =
     (if sequence_number p \<in> P
      then ((g, r, sq, P - {sequence_number p}),
            SmTimerCancel (sequence_number p) # (if r then [SmCallResponse p] else []))
      else case g of
        NoHandler \<Rightarrow> ((g, r, sq, P), [])
      | UserHandler \<Rightarrow> ((g, r, sq, P), [SmCallRequest p])
      | ServerBind \<Rightarrow>
          if command_id p = 9
          then ((g, r, sq + 1, insert sq P), [SmTimerWait sq, SmWrite (to_buffers (sm_host e) (smpp_bind_reply e sq))])
          else ((g, r, sq, P), []))"

definition smpp_abs :: "smpp_session \<Rightarrow> smpp_spec_state" where
  "smpp_abs s = (ss_on_request s, ss_on_response s, ss_seq s, dom (map_of (ss_pending_timers s)))"

fun smpp_visible :: "smpp_effect \<Rightarrow> smpp_effect option" where
  "smpp_visible (SmStartRead _) = None"
| "smpp_visible SmInactivityWait = None"
| "smpp_visible x = Some x"

definition smpp_idle :: "smpp_session \<Rightarrow> bool" where
  "smpp_idle s \<longleftrightarrow> ss_reading s = Some RdHeader \<and> ss_streambuf s = [] \<and> umap_inv (ss_pending_timers s)"

lemma map_of_delete_dom: "umap_inv m \<Longrightarrow> dom (map_of (AList.delete k m)) = dom (map_of m) - {k}"
  by (auto simp: umap.look_del)

lemma dom_emplace: "dom (map_of (emplace k v m)) = insert k (dom (map_of m))"
  by (auto simp: map_of_emplace split: option.splits)

lemma number_bind_reply [simp]: "BindTransceiverResp e q st\<lparr>sequence_number := q'\<rparr> = BindTransceiverResp e q' st"
  by (simp add: BindTransceiverResp_def)

lemmas smpp_handler_defs =
  SmppSession_handle_pdu_def SmppSession_request_def SmppServer_on_request_def SmppSession_send_pdu_def
  SmppSession_write_def Let_def

lemma handle_pdu_keeps:
  "ss_reading (fst (SmppSession_handle_pdu e p s)) = ss_reading s"
  "ss_streambuf (fst (SmppSession_handle_pdu e p s)) = ss_streambuf s"
  "umap_inv (ss_pending_timers s) \<Longrightarrow> umap_inv (ss_pending_timers (fst (SmppSession_handle_pdu e p s)))"
  by (auto simp: smpp_handler_defs umap.inv_del umap_inv_emplace split: smpp_handler.splits)

lemma handle_pdu_spec:
  assumes "umap_inv (ss_pending_timers s)"
  shows "(smpp_abs (fst (SmppSession_handle_pdu e p s)), List.map_filter smpp_visible (snd (SmppSession_handle_pdu e p s)))
    = smpp_spec e (smpp_abs s) p"
  using assms by (auto simp: smpp_handler_defs smpp_abs_def map_of_delete_dom dom_emplace smpp_bind_reply_def
      domIff List.map_filter_def split: smpp_handler.splits)

lemma smpp_header_read:
  assumes "smpp_idle s" and "wf_pdu p"
  shows "SmppSession_deliver e s (pdu_header p) =
    (s\<lparr>ss_reading := Some (RdBody (length (body p))), ss_streambuf := pdu_header p\<rparr>, [SmStartRead (RdBody (length (body p)))])"
  using assms by (simp add: SmppSession_deliver_def smpp_idle_def wf_pdu_def SmppSession_onHeader_def
      SmppSession_handle_header_def MAX_HEADER_def SmppSession_read_body_def SmppSession_read_def prod_eq_iff)

lemma smpp_body_step:
  fixes s :: smpp_session and e :: smpp_env
  assumes "wf_pdu p" and "ss_reading s = Some (RdBody (length (body p)))" and "ss_streambuf s = pdu_header p"
  defines "h \<equiv> SmppSession_handle_pdu e p (s\<lparr>ss_reading := None, ss_streambuf := []\<rparr>)"
  shows "SmppSession_step e s (SmReadDone None (body p)) =
      ((fst h)\<lparr>ss_inactivity := ss_inactivity (fst h) + 1, ss_reading := Some RdHeader\<rparr>,
       snd h @ [SmInactivityWait, SmStartRead RdHeader])"
proof -
  have parsed: "deserialize (sm_host e) (pdu_header p @ body p) (length (body p) + 16) = ParsedPdu p"
    using deserialize_to_buffers [OF assms(1), of _ "sm_host e" "[]"] by simp
  show ?thesis
    using assms by (simp add: SmppSession_onBody_def SmppSession_parse_pdu_def parsed
        SmppSession_reset_inactivity_timer_def SmppSession_read_header_def SmppSession_read_def MAX_HEADER_def
        Let_def prod_eq_iff)
qed

lemma smpp_body_read:
  assumes "wf_pdu p" and "ss_reading s = Some (RdBody (length (body p)))" and "ss_streambuf s = pdu_header p"
    and "umap_inv (ss_pending_timers s)"
  shows "smpp_idle (fst (SmppSession_deliver e s (body p)))"
    and "(smpp_abs (fst (SmppSession_deliver e s (body p))),
          List.map_filter smpp_visible (snd (SmppSession_deliver e s (body p)))) = smpp_spec e (smpp_abs s) p"
proof -
  let ?s = "s\<lparr>ss_reading := None, ss_streambuf := []\<rparr>"
  let ?h = "SmppSession_handle_pdu e p ?s"
  note step = smpp_body_step [OF assms(1,2,3), of e, folded SmppSession_deliver_def]
  show "smpp_idle (fst (SmppSession_deliver e s (body p)))"
    using assms handle_pdu_keeps [where s = ?s and e = e and p = p] by (simp add: step smpp_idle_def)
  have "smpp_abs ?s = smpp_abs s"
    by (simp add: smpp_abs_def)
  moreover have "smpp_abs (fst (SmppSession_deliver e s (body p))) = smpp_abs (fst ?h)"
    by (simp add: step smpp_abs_def)
  ultimately show "(smpp_abs (fst (SmppSession_deliver e s (body p))),
          List.map_filter smpp_visible (snd (SmppSession_deliver e s (body p)))) = smpp_spec e (smpp_abs s) p"
    using handle_pdu_spec [of ?s e p] assms(4) by (simp add: step List.map_filter_def)
qed

lemma smpp_one_frame:
  assumes "smpp_idle s" and "wf_pdu p"
  shows "\<exists>s' os. feed SmppSession_want (SmppSession_deliver e) 2 s (to_buffers h p @ rest) = (s', os, rest)
    \<and> smpp_idle s' \<and> (smpp_abs s', List.map_filter smpp_visible os) = smpp_spec e (smpp_abs s) p"
proof -
  let ?s = "s\<lparr>ss_reading := Some (RdBody (length (body p))), ss_streambuf := pdu_header p\<rparr>"
  let ?d = "SmppSession_deliver e ?s (body p)"
  have want: "SmppSession_want s = Some 16" "SmppSession_want ?s = Some (length (body p))"
    using assms(1) by (simp_all add: SmppSession_want_def smpp_idle_def MAX_HEADER_def)
  have "feed SmppSession_want (SmppSession_deliver e) 2 s (to_buffers h p @ rest) =
      (fst ?d, SmStartRead (RdBody (length (body p))) # snd ?d, rest)"
    using smpp_header_read [OF assms, of e]
    by (simp add: numeral_2_eq_2 want to_buffers_wire case_prod_beta)
  moreover have "smpp_abs ?s = smpp_abs s" "umap_inv (ss_pending_timers ?s)"
    using assms(1) by (simp_all add: smpp_abs_def smpp_idle_def)
  ultimately show ?thesis
    using smpp_body_read [of p ?s e] assms(2) by (simp add: List.map_filter_def)
qed

interpretation smpp_reader: framed_reader SmppSession_want "SmppSession_deliver e" "to_buffers h" wf_pdu
    "\<lambda>_. 2" smpp_idle smpp_abs smpp_visible "smpp_spec e" for e h
  by unfold_locales (rule smpp_one_frame)

text \<open>
  A session that waits for a header handles every stream of PDUs as the specification does,
  in two reads per PDU: a PDU with the number of a request that is waiting is its response and stops
  the timer, any other goes to the request handler, bind requests are answered in order, and exactly
  the bytes of the PDUs are taken off the stream.
\<close>

theorem smpp_session_refines_spec:
  assumes "smpp_idle s" and "list_all wf_pdu ps"
  shows "\<exists>s' os. feed SmppSession_want (SmppSession_deliver e) (2 * length ps) s (wire (to_buffers h) ps @ rest) = (s', os, rest)
    \<and> smpp_idle s' \<and> (smpp_abs s', List.map_filter smpp_visible os) = run (smpp_spec e) (smpp_abs s) ps"
proof -
  have "sum_list (map (\<lambda>_. 2) ps) = 2 * length ps"
    by (simp add: sum_list_triv)
  with smpp_reader.many_frames [OF assms, of e h rest] show ?thesis by simp
qed

lemma smpp_started: "smpp_idle (fst (SmppSession_step e SmppServer_session SmStart))"
    "smpp_abs (fst (SmppSession_step e SmppServer_session SmStart)) = (ServerBind, False, 1, {})"
  by (simp_all add: smpp_idle_def smpp_abs_def SmppSession_start_def SmppSession_reset_inactivity_timer_def
      SmppSession_read_header_def SmppSession_read_def SmppServer_session_def SmppSession_new_def umap_inv_def)

theorem smpp_session_refines_spec_witness:
  "let s = fst (SmppSession_step smpp_sample SmppServer_session SmStart)
   in \<exists>s' os. feed SmppSession_want (SmppSession_deliver smpp_sample) 4 s
        (wire (to_buffers BigEndian) [sample_bind, sample_link] @ [1]) = (s', os, [1])
      \<and> ss_seq s' = 2
      \<and> List.map_filter smpp_visible os =
          [SmTimerWait 1, SmWrite (to_buffers LittleEndian (BindTransceiverResp smpp_sample 1 0))]"
proof -
  let ?s = "fst (SmppSession_step smpp_sample SmppServer_session SmStart)"
  from smpp_session_refines_spec [OF smpp_started(1) [of smpp_sample], of "[sample_bind, sample_link]" smpp_sample BigEndian "[1]"]
  obtain s' os where f: "feed SmppSession_want (SmppSession_deliver smpp_sample) 4 ?s
        (wire (to_buffers BigEndian) [sample_bind, sample_link] @ [1]) = (s', os, [1])"
    and r: "(smpp_abs s', List.map_filter smpp_visible os) =
        run (smpp_spec smpp_sample) (ServerBind, False, 1, {}) [sample_bind, sample_link]"
    by (auto simp: smpp_started(2) simp del: SmppSession_step.simps)
  have "run (smpp_spec smpp_sample) (ServerBind, False, 1, {}) [sample_bind, sample_link] = ((ServerBind, False, 2, {1}),
      [SmTimerWait 1, SmWrite (to_buffers LittleEndian (BindTransceiverResp smpp_sample 1 0))])"
    by (simp add: run.simps(2) smpp_sample_def sample_bind_def sample_link_def smpp_bind_reply_def)
  with f r show ?thesis
    by (auto simp: smpp_abs_def Let_def simp del: SmppSession_step.simps)
qed

section \<open>Sending\<close>

text \<open>The bytes that a list of effects puts on the wire.\<close>

fun smpp_written :: "smpp_effect \<Rightarrow> bytes" where
  "smpp_written (SmWrite d) = d"
| "smpp_written _ = []"

definition smpp_bytes :: "smpp_effect list \<Rightarrow> bytes" where
  "smpp_bytes os = concat (map smpp_written os)"

lemma smpp_bytes_simps [simp]:
  "smpp_bytes [] = []" "smpp_bytes (x # xs) = smpp_written x @ smpp_bytes xs"
  "smpp_bytes (xs @ ys) = smpp_bytes xs @ smpp_bytes ys"
  by (simp_all add: smpp_bytes_def)

lemma send_pdus_bytes:
  "smpp_bytes (snd (run (SmppSession_step e) s (map SmSendPdu pdus)))
     = wire (to_buffers (sm_host e)) (number_pdus (ss_seq s) pdus)
   \<and> ss_seq (fst (run (SmppSession_step e) s (map SmSendPdu pdus))) = ss_seq s + of_nat (length pdus)"
proof (induction pdus arbitrary: s)
  case Nil
  show ?case by simp
next
  case (Cons p pdus)
  let ?s = "fst (SmppSession_step e s (SmSendPdu p))"
  have "ss_seq ?s = ss_seq s + 1"
      "smpp_bytes (snd (SmppSession_step e s (SmSendPdu p))) = to_buffers (sm_host e) (p\<lparr>sequence_number := ss_seq s\<rparr>)"
    by (simp_all add: SmppSession_send_pdu_def SmppSession_write_def Let_def)
  with Cons.IH [of ?s] show ?case by (simp del: SmppSession_step.simps add: add.assoc)
qed

lemma to_buffers_big: "to_buffers BigEndian = (\<lambda>p. pdu_memory BigEndian p @ body p)"
  by (simp add: fun_eq_iff to_buffers_def pdu_memory_def)

lemma send_batch_effects:
  "snd (SmppSession_send_batch e pdus s) =
     [SmWrite (wire (\<lambda>p. pdu_memory (sm_host e) p @ body p) (number_pdus (ss_seq s) pdus))]"
  "ss_seq (fst (SmppSession_send_batch e pdus s)) = ss_seq s + of_nat (length pdus)"
  by (simp_all add: SmppSession_send_batch_def SmppSession_write_def Let_def wire_def)



lemma bswap32_high:
  assumes "unat (bswap32 w) < 2 ^ 16" and "unat w < 2 ^ 16"
  shows "w = 0"
proof -
  have "drop_bit 16 (bswap32 w) = 0"
    using assms(1) unfolding word_unat_eq_iff unat_drop_bit_eq by (simp add: drop_bit_eq_div)
  moreover have "le_bytes (bswap32 w) = rev (le_bytes w)"
    by (simp add: le_bytes_bswap32 be_bytes_def)
  ultimately have bytes: "ucast (drop_bit 8 w) = (0 :: u8)" "ucast w = (0 :: u8)"
    using drop_bit_drop_bit [of 8 16 "bswap32 w"] by (simp_all add: le_bytes_def)
  have "unat w mod 256 = 0" "unat w div 256 mod 256 = 0"
    using bytes unfolding word_unat_eq_iff unsigned_ucast_eq unat_drop_bit_eq
    by (simp_all add: take_bit_eq_mod drop_bit_eq_div)
  moreover from assms(2) have "unat w div 256 < 256"
    by (intro less_mult_imp_div_less) simp
  ultimately have "unat w = 0"
    using div_mult_mod_eq [of "unat w" 256] by simp
  then show ?thesis by (simp add: unat_eq_0)
qed

lemma wf_number_pdus: "list_all wf_pdu pdus \<Longrightarrow> list_all wf_pdu (number_pdus sq pdus)"
  by (induction pdus arbitrary: sq) (simp_all add: wf_pdu_def)

lemma swapped_length_too_long:
  assumes "wf_pdu p"
  shows "MAX_PDU_SIZE < unat (bswap32 (command_length p))"
proof (rule ccontr)
  assume "\<not> MAX_PDU_SIZE < unat (bswap32 (command_length p))"
  then have "command_length p = 0"
    using assms by (intro bswap32_high) (simp_all add: wf_pdu_def MAX_PDU_SIZE_def)
  with assms show False by (simp add: wf_pdu_def)
qed

text \<open>
  On a little-endian host \<open>send_batch\<close> sends the header fields in the wrong byte order. Whatever
  well-formed PDUs the batch holds, the session that receives it finds the announced length of the
  first too large, closes the connection and reads no more.
\<close>

theorem smpp_batch_little_endian:
  assumes "sm_host e = LittleEndian" and "pdus \<noteq> []" and "list_all wf_pdu pdus" and "smpp_idle r"
  shows "\<exists>r' left. feed SmppSession_want (SmppSession_deliver e') 2 r (smpp_bytes (snd (SmppSession_step e s (SmSendBatch pdus))))
      = (r', SmSocketClose # (if ss_on_close r then [SmCallClose] else []), left)
    \<and> \<not> ss_open r' \<and> SmppSession_want r' = None"
proof -
  obtain p ps where n: "number_pdus (ss_seq s) pdus = p # ps" and wf: "wf_pdu p"
    using assms(2) wf_number_pdus [OF assms(3), of "ss_seq s"] by (cases pdus) simp_all
  let ?h = "pdu_memory LittleEndian p"
  obtain rest where b: "smpp_bytes (snd (SmppSession_step e s (SmSendBatch pdus))) = ?h @ rest"
    by (simp add: send_batch_effects assms(1) n)
  have h: "length ?h = 16" "take 4 ?h = le_bytes (command_length p)"
    by (simp_all add: pdu_memory_def)
  have "ntohl (sm_host e') (u32_mem (sm_host e') (le_bytes (command_length p))) = bswap32 (command_length p)"
    by (simp add: bswap32_def be_val_def)
  then have "SmppSession_deliver e' r ?h =
      (r\<lparr>ss_reading := None, ss_streambuf := ?h, ss_open := False\<rparr>, SmSocketClose # (if ss_on_close r then [SmCallClose] else []))"
    using assms(4) swapped_length_too_long [OF wf]
    by (simp add: SmppSession_deliver_def smpp_idle_def SmppSession_onHeader_def SmppSession_handle_header_def h
        SmppSession_close_def prod_eq_iff)
  then show ?thesis
    using assms(4) by (simp add: numeral_2_eq_2 b h smpp_idle_def SmppSession_want_def MAX_HEADER_def
        del: SmppSession_step.simps)
qed

theorem smpp_batch_little_endian_witness:
  "\<exists>r' left. feed SmppSession_want (SmppSession_deliver smpp_sample) 2 (fst (SmppSession_step smpp_sample SmppServer_session SmStart))
      (smpp_bytes (snd (SmppSession_step smpp_sample SmppSession_new (SmSendBatch [sample_bind])))) = (r', [SmSocketClose], left)
    \<and> \<not> ss_open r' \<and> SmppSession_want r' = None"
proof -
  let ?r = "fst (SmppSession_step smpp_sample SmppServer_session SmStart)"
  have "\<not> ss_on_close ?r"
    by (simp add: SmppSession_start_def SmppSession_reset_inactivity_timer_def SmppSession_read_header_def
        SmppSession_read_def SmppServer_session_def SmppSession_new_def)
  then show ?thesis
    using smpp_batch_little_endian [of smpp_sample "[sample_bind]" ?r smpp_sample SmppSession_new] smpp_started(1)
    by (simp add: smpp_sample_def del: SmppSession_step.simps)
qed

text \<open>
  No constructor sets the member \<open>command_length\<close>. A PDU that the library builds itself is
  well-formed only if the memory it was built in happened to hold its size.
\<close>

theorem smpp_built_pdus_need_luck:
  "(wf_pdu (BindTransceiverResp e sq st) \<longleftrightarrow> sm_junk e = 28)
   \<and> (wf_pdu (EnquireLink e sq) \<longleftrightarrow> sm_junk e = 16)
   \<and> (wf_pdu (BindTransceiver e sq i pw) \<longleftrightarrow>
     unat (sm_junk e) = 23 + length i + length pw \<and> 23 + length i + length pw \<le> MAX_PDU_SIZE)"
  by (auto simp: wf_pdu_def BindTransceiverResp_def EnquireLink_def BindTransceiver_def SmppPdu_new_def
      MAX_PDU_SIZE_def word_unat_eq_iff)

section \<open>Runs of a session\<close>

text \<open>
  While the session waits for a body, its buffer holds the header that announced it.
\<close>

definition smpp_rd_inv :: "smpp_session \<Rightarrow> bool" where
  "smpp_rd_inv s \<longleftrightarrow>
     (case ss_reading s of
        None \<Rightarrow> True
      | Some RdHeader \<Rightarrow> ss_streambuf s = []
      | Some (RdBody n) \<Rightarrow> length (ss_streambuf s) = 16 \<and> unat (be_val (take 4 (ss_streambuf s))) = n + 16 \<and> n + 16 \<le> MAX_PDU_SIZE)"

lemmas smpp_step_defs =
  SmppSession_start_def SmppSession_reset_inactivity_timer_def SmppSession_read_header_def SmppSession_read_def
  SmppSession_send_pdu_def SmppSession_send_batch_def SmppSession_write_def SmppSession_close_def SmppSession_onWrite_def
  SmppSession_onTimer_def SmppSession_onInactivity_def Let_def

lemma smpp_body_parsed:
  assumes "smpp_rd_inv s" and "ss_reading s = Some (RdBody (length d))"
  shows "\<exists>p. wf_pdu p \<and> ss_streambuf s = pdu_header p \<and> d = body p"
proof -
  let ?b = "ss_streambuf s"
  let ?p = "\<lparr>command_length = be_val (take 4 ?b), command_id = be_val (take 4 (drop 4 ?b)),
    command_status = be_val (take 4 (drop 8 ?b)), sequence_number = be_val (take 4 (drop 12 ?b)), body = d\<rparr>"
  have b: "length ?b = 16" "unat (be_val (take 4 ?b)) = length d + 16" "length d + 16 \<le> MAX_PDU_SIZE"
    using assms by (simp_all add: smpp_rd_inv_def)
  have "take 4 ?b @ take 4 (drop 4 ?b) @ take 4 (drop 8 ?b) @ take 4 (drop 12 ?b) = ?b"
    using b(1) by (simp add: take_add [symmetric] flip: append_assoc)
  then have "?b = pdu_header ?p"
    using b(1) by (simp add: pdu_header_def be_bytes_be_val)
  moreover have "wf_pdu ?p"
    using b by (simp add: wf_pdu_def)
  ultimately show ?thesis
    by (intro exI [of _ ?p]) simp
qed

text \<open>
  The books of a session: how often a timer was started with a number, and how often a response or
  a timeout with that number was reported.
\<close>

fun smpp_wait_of :: "u32 \<Rightarrow> smpp_effect \<Rightarrow> bool" where
  "smpp_wait_of q (SmTimerWait r) = (r = q)"
| "smpp_wait_of q _ = False"

fun smpp_response_of :: "u32 \<Rightarrow> smpp_effect \<Rightarrow> bool" where
  "smpp_response_of q (SmCallResponse p) = (sequence_number p = q)"
| "smpp_response_of q _ = False"

fun smpp_timeout_of :: "u32 \<Rightarrow> smpp_effect \<Rightarrow> bool" where
  "smpp_timeout_of q (SmCallTimeout r) = (r = q)"
| "smpp_timeout_of q _ = False"

definition smpp_books :: "u32 \<Rightarrow> smpp_session \<Rightarrow> smpp_effect list \<Rightarrow> bool" where
  "smpp_books q s os \<longleftrightarrow>
     occurs (smpp_response_of q) os + of_bool (q \<in> dom (map_of (ss_pending_timers s))) \<le> occurs (smpp_wait_of q) os
     \<and> occurs (smpp_timeout_of q) os + count_list (ss_waits s) q \<le> occurs (smpp_wait_of q) os"

lemma count_list_remove1: "count_list (remove1 x xs) y = count_list xs y - of_bool (x = y)"
  by (induction xs) auto

lemma handle_pdu_books:
  assumes "umap_inv (ss_pending_timers s)" and "smpp_books q s os"
  shows "smpp_books q (fst (SmppSession_handle_pdu e p s)) (os @ snd (SmppSession_handle_pdu e p s))"
  using assms by (auto simp: smpp_books_def smpp_handler_defs map_of_delete_dom dom_emplace of_bool_def
      split: smpp_handler.splits if_splits)

lemma handle_pdu_defined: "SmUndefined \<notin> set (snd (SmppSession_handle_pdu e p s))"
  by (auto simp: smpp_handler_defs split: smpp_handler.splits)

definition smpp_inv :: "u32 \<Rightarrow> smpp_session \<Rightarrow> smpp_effect list \<Rightarrow> bool" where
  "smpp_inv q s os \<longleftrightarrow> smpp_rd_inv s \<and> umap_inv (ss_pending_timers s) \<and> smpp_books q s os \<and> SmUndefined \<notin> set os"

lemma smpp_inv_body:
  assumes inv: "smpp_inv q s os" and rd: "ss_reading s = Some (RdBody (length d))"
  shows "smpp_inv q (fst (SmppSession_step e s (SmReadDone None d))) (os @ snd (SmppSession_step e s (SmReadDone None d)))"
proof -
  obtain p where p: "wf_pdu p" "ss_streambuf s = pdu_header p" "d = body p"
    using smpp_body_parsed [OF _ rd] inv by (auto simp: smpp_inv_def)
  let ?s = "s\<lparr>ss_reading := None, ss_streambuf := []\<rparr>"
  let ?h = "SmppSession_handle_pdu e p ?s"
  have "smpp_books q ?s os" and u: "umap_inv (ss_pending_timers ?s)"
    using inv by (simp_all add: smpp_inv_def smpp_books_def)
  then have "smpp_books q (fst ?h) (os @ snd ?h)"
    by (intro handle_pdu_books)
  moreover have "umap_inv (ss_pending_timers (fst ?h))" "ss_streambuf (fst ?h) = []"
    using u handle_pdu_keeps [where s = ?s and e = e and p = p] by simp_all
  ultimately show ?thesis
    using inv smpp_body_step [of p s e] p rd handle_pdu_defined [of e p ?s]
    by (simp add: smpp_inv_def smpp_rd_inv_def smpp_books_def del: SmppSession_step.simps)
qed

lemma smpp_inv_read:
  assumes "smpp_inv q s os" and "SmppSession_ok s (SmReadDone ec d)"
  shows "smpp_inv q (fst (SmppSession_step e s (SmReadDone ec d))) (os @ snd (SmppSession_step e s (SmReadDone ec d)))"
proof (cases "ss_reading s")
  case None
  with assms(2) show ?thesis by simp
next
  case (Some r)
  show ?thesis
  proof (cases ec)
    case (Some x)
    with \<open>ss_reading s = Some r\<close> assms(1) show ?thesis
      by (auto simp: smpp_inv_def smpp_rd_inv_def smpp_books_def of_bool_def SmppSession_onHeader_def
          SmppSession_onBody_def SmppSession_close_def split: read_op.splits if_splits)
  next
    case None
    show ?thesis
    proof (cases r)
      case (RdBody n)
      with assms(2) None Some have "ss_reading s = Some (RdBody (length d))"
        by (simp add: SmppSession_want_def)
      with smpp_inv_body [OF assms(1)] None show ?thesis by blast
    next
      case RdHeader
      with assms(2) None Some have "length d = 16"
        by (simp add: SmppSession_want_def MAX_HEADER_def)
      with assms(1) None Some RdHeader show ?thesis
        by (auto simp: smpp_inv_def smpp_rd_inv_def smpp_books_def SmppSession_onHeader_def SmppSession_handle_header_def
            SmppSession_close_def SmppSession_read_body_def SmppSession_read_def MAX_HEADER_def Let_def of_bool_def
            split: if_splits)
    qed
  qed
qed

lemma smpp_inv_step:
  assumes "smpp_inv q s os" and "SmppSession_ok s ev"
  shows "smpp_inv q (fst (SmppSession_step e s ev)) (os @ snd (SmppSession_step e s ev))"
proof (cases ev)
  case (SmReadDone ec d)
  with assms smpp_inv_read show ?thesis by blast
next
  case (SmTimerFired r ec)
  have "r \<in> set (ss_waits s)"
    using assms(2) SmTimerFired by simp
  then have "0 < count_list (ss_waits s) r"
    using count_list_0_iff [of "ss_waits s" r] by (meson gr0I)
  with assms(1) SmTimerFired show ?thesis
    by (auto simp: smpp_inv_def smpp_rd_inv_def smpp_books_def smpp_step_defs count_list_remove1 map_of_delete_dom
        umap.inv_del of_bool_def split: option.splits read_op.splits if_splits)
qed (use assms in \<open>auto simp: smpp_inv_def smpp_rd_inv_def smpp_books_def smpp_step_defs umap_inv_emplace dom_emplace
    of_bool_def split: option.splits read_op.splits if_splits\<close>)

interpretation smpp_session: traced_machine "SmppSession_step e" SmppSession_ok "smpp_inv q" for e q
  by unfold_locales (rule smpp_inv_step)

lemma smpp_inv_new: "ss_pending_timers s = [] \<Longrightarrow> ss_reading s = None \<Longrightarrow> ss_waits s = [] \<Longrightarrow> smpp_inv q s []"
  by (simp add: smpp_inv_def smpp_rd_inv_def smpp_books_def umap_inv_def)

lemma smpp_run_inv:
  assumes "s \<in> {SmppSession_new, SmppClient_new, SmppServer_session}" and "allowed SmppSession_ok (SmppSession_step e) s evs"
  shows "smpp_inv q (fst (run (SmppSession_step e) s evs)) (snd (run (SmppSession_step e) s evs))"
proof -
  have "smpp_inv q s []"
    using assms(1) by (auto intro: smpp_inv_new simp: SmppClient_new_def SmppServer_session_def SmppSession_new_def)
  with smpp_session.run_tinv assms(2) show ?thesis by fastforce
qed

text \<open>
  C23: in every run of a session, a sequence number is reported as answered at most as often as a
  request was sent with it, and as timed out at most as often; a number that was never sent is never
  reported, whatever the peer sends.
\<close>

theorem smpp_reports_bounded:
  assumes "s \<in> {SmppSession_new, SmppClient_new, SmppServer_session}" and "allowed SmppSession_ok (SmppSession_step e) s evs"
  shows "occurs (smpp_response_of q) (snd (run (SmppSession_step e) s evs)) \<le> occurs (smpp_wait_of q) (snd (run (SmppSession_step e) s evs))
    \<and> occurs (smpp_timeout_of q) (snd (run (SmppSession_step e) s evs)) \<le> occurs (smpp_wait_of q) (snd (run (SmppSession_step e) s evs))"
  using smpp_run_inv [OF assms, of q] by (simp add: smpp_inv_def smpp_books_def)

text \<open>A client that sends an enquiry, receives the response to it twice, and whose timer was cancelled.\<close>

definition smpp_answer :: smpp_pdu where
  "smpp_answer = \<lparr>command_length = 16, command_id = 0x80000015, command_status = 0, sequence_number = 1, body = []\<rparr>"

definition smpp_sample_run :: "smpp_event list" where
  "smpp_sample_run =
     [SmStart, SmSendPdu sample_link, SmReadDone None (to_buffers BigEndian smpp_answer), SmReadDone None [],
      SmReadDone None (to_buffers BigEndian smpp_answer), SmReadDone None [], SmTimerFired 1 (Some operation_aborted)]"

lemma smpp_sample_run_ok: "allowed SmppSession_ok (SmppSession_step smpp_sample) SmppClient_new smpp_sample_run"
  by code_simp

theorem smpp_reports_bounded_witness:
  "occurs (smpp_response_of 1) (snd (run (SmppSession_step smpp_sample) SmppClient_new smpp_sample_run)) = 1"
proof -
  have "occurs (smpp_wait_of 1) (snd (run (SmppSession_step smpp_sample) SmppClient_new smpp_sample_run)) = 1
    \<and> 0 < occurs (smpp_response_of 1) (snd (run (SmppSession_step smpp_sample) SmppClient_new smpp_sample_run))"
    by code_simp
  then show ?thesis
    using smpp_reports_bounded [OF _ smpp_sample_run_ok, of 1] by simp
qed

text \<open>
  \<open>deserialize\<close> called with an announced length below 16 would assign the body from an invalid
  range; in every run of a session the lengths have been checked before, so that this never happens.
\<close>

theorem smpp_parse_defined:
  assumes "s \<in> {SmppSession_new, SmppClient_new, SmppServer_session}" and "allowed SmppSession_ok (SmppSession_step e) s evs"
  shows "SmUndefined \<notin> set (snd (run (SmppSession_step e) s evs))"
  using smpp_run_inv [OF assms, of undefined] by (simp add: smpp_inv_def)

theorem smpp_parse_defined_witness:
  "deserialize LittleEndian ([0, 0, 0, 15] @ replicate 12 0) 16 = UndefinedRange
   \<and> SmUndefined \<notin> set (snd (run (SmppSession_step smpp_sample) SmppClient_new
       [SmStart, SmReadDone None ([0, 0, 0, 15] @ replicate 12 0)]))"
proof
  show "deserialize LittleEndian ([0, 0, 0, 15] @ replicate 12 0) 16 = UndefinedRange"
    by code_simp
  have "allowed SmppSession_ok (SmppSession_step smpp_sample) SmppClient_new [SmStart, SmReadDone None ([0, 0, 0, 15] @ replicate 12 0)]"
    by code_simp
  then show "SmUndefined \<notin> set (snd (run (SmppSession_step smpp_sample) SmppClient_new
      [SmStart, SmReadDone None ([0, 0, 0, 15] @ replicate 12 0)]))"
    by (intro smpp_parse_defined) simp_all
qed

end
