(* ===== verification/SmppStream.thy ===== *)
theory SmppStream
  imports SmppProps
begin

text \<open>
  An SMPP session in arbitrary runs: reads complete among requests that are sent, timers that fire or
  are cancelled, writes that complete or fail, inactivity and calls of \<open>close\<close>. A specification
  that knows whole PDUs and these events, and of the state only the callbacks, the next number and the numbers
  of the requests that wait, says what a run does.
\<close>

section \<open>The specification\<close>

text \<open>The state of the PDU specification, and whether there are callbacks for timeouts and for closing.\<close>

type_synonym smpp_run_state = "smpp_spec_state \<times> bool \<times> bool"

definition smpp_closing :: "bool \<Rightarrow> smpp_effect list" where
  "smpp_closing c = SmSocketClose # (if c then [SmCallClose] else [])"

fun smpp_run_spec :: "smpp_env \<Rightarrow> smpp_run_state \<Rightarrow> smpp_pdu + smpp_event \<Rightarrow> smpp_run_state \<times> smpp_effect list" where
  "smpp_run_spec e (a, t, c) (Inl p) = (let (a', os) = smpp_spec e a p in ((a', t, c), os))"
| "smpp_run_spec e ((g, r, sq, P), t, c) (Inr ev) =
     (case ev of
        SmSendPdu p \<Rightarrow> (((g, r, sq + 1, insert sq P), t, c),
          [SmTimerWait sq, SmWrite (to_buffers (sm_host e) (p\<lparr>sequence_number := sq\<rparr>))])
      | SmSendBatch ps \<Rightarrow> (((g, r, sq + of_nat (length ps), P), t, c),
          [SmWrite (concat (map (\<lambda>p. pdu_memory (sm_host e) p @ body p) (number_pdus sq ps)))])
      | SmTimerFired q ec \<Rightarrow>
          if ec = None then (((g, r, sq, P - {q}), t, c), if t then [SmCallTimeout q] else [])
          else (((g, r, sq, P), t, c), [])
      | SmDoClose \<Rightarrow> (((g, r, sq, P), t, c), smpp_closing c)
      | SmReadDone ec d \<Rightarrow> (((g, r, sq, P), t, c), smpp_closing c)
      | SmWriteDone ec \<Rightarrow> (((g, r, sq, P), t, c), if ec = None then [] else smpp_closing c)
      | SmInactivityFired ec \<Rightarrow> (((g, r, sq, P), t, c), if ec = None then smpp_closing c else [])
      | SmStart \<Rightarrow> (((g, r, sq, P), t, c), []))"

definition smpp_run_abs :: "smpp_session \<Rightarrow> smpp_run_state" where
  "smpp_run_abs s = (smpp_abs s, ss_on_timeout s, ss_on_close s)"

text \<open>What a read has brought, and what the other events are to the specification; a failed read is one.\<close>

fun smpp_got :: "smpp_event \<Rightarrow> bytes" where
  "smpp_got (SmReadDone None d) = d"
| "smpp_got _ = []"

fun smpp_other :: "smpp_event \<Rightarrow> smpp_event list" where
  "smpp_other (SmReadDone None d) = []"
| "smpp_other ev = [ev]"

section \<open>The session follows it\<close>

text \<open>The session has the bytes \<open>p\<close> of the current PDU, or it does not read any more.\<close>

definition smpp_rd :: "smpp_session \<Rightarrow> bytes \<Rightarrow> bool" where
  "smpp_rd s p \<longleftrightarrow> umap_inv (ss_pending_timers s) \<and> ss_streambuf s = p \<and>
     (ss_reading s = Some RdHeader \<and> p = []
      \<or> (\<exists>n. ss_reading s = Some (RdBody n) \<and> length p = 16 \<and> unat (be_val (take 4 p)) = n + 16))"

definition smpp_stopped :: "smpp_session \<Rightarrow> bool" where
  "smpp_stopped s \<longleftrightarrow> umap_inv (ss_pending_timers s) \<and> ss_reading s = None \<and> \<not> ss_open s"

lemma smpp_other_event:
  fixes s :: smpp_session and e :: smpp_env
  assumes "umap_inv (ss_pending_timers s)" and "ev \<noteq> SmStart" and "\<And>ec d. ev \<noteq> SmReadDone ec d"
  defines "s' \<equiv> fst (SmppSession_step e s ev)"
  shows "ss_reading s' = ss_reading s" "ss_streambuf s' = ss_streambuf s" "\<not> ss_open s \<Longrightarrow> \<not> ss_open s'"
    "umap_inv (ss_pending_timers s')"
    "(smpp_run_abs s', List.map_filter smpp_visible (snd (SmppSession_step e s ev))) = smpp_run_spec e (smpp_run_abs s) (Inr ev)"
  using assms(1,2,3) by (cases ev; auto simp: s'_def smpp_step_defs smpp_run_abs_def smpp_abs_def smpp_closing_def
      umap.inv_del umap_inv_emplace dom_emplace map_of_delete_dom List.map_filter_def; fail)+

lemma smpp_failed_read:
  fixes s :: smpp_session and e :: smpp_env and x :: errc and d :: bytes
  assumes "ss_reading s = Some r"
  defines "s' \<equiv> fst (SmppSession_step e s (SmReadDone (Some x) d))"
  shows "ss_pending_timers s' = ss_pending_timers s" "ss_reading s' = None" "\<not> ss_open s'"
    "(smpp_run_abs s', List.map_filter smpp_visible (snd (SmppSession_step e s (SmReadDone (Some x) d))))
       = smpp_run_spec e (smpp_run_abs s) (Inr (SmReadDone (Some x) d))"
  using assms(1) by (cases r; simp add: s'_def SmppSession_onHeader_def SmppSession_onBody_def SmppSession_close_def
      smpp_run_abs_def smpp_abs_def smpp_closing_def List.map_filter_def)+

lemma smpp_good_header:
  fixes s :: smpp_session and e :: smpp_env
  assumes "smpp_rd s []" and ok: "SmppSession_ok s (SmReadDone None d)" and wf: "wf_pdu f" and d: "prefix d (to_buffers h f @ rest)"
  defines "st \<equiv> SmppSession_step e s (SmReadDone None d)"
  shows "d = pdu_header f \<and> smpp_rd (fst st) d \<and> smpp_run_abs (fst st) = smpp_run_abs s \<and> List.map_filter smpp_visible (snd st) = []"
proof -
  have idle: "smpp_idle s" using assms(1) by (auto simp: smpp_rd_def smpp_idle_def)
  then have "length d = 16" using ok by (simp add: smpp_idle_def SmppSession_want_def MAX_HEADER_def)
  with d have d': "d = pdu_header f" by (auto simp: to_buffers_wire prefix_def append_eq_append_conv)
  with smpp_header_read [OF idle wf, of e] idle wf show ?thesis
    by (simp add: st_def SmppSession_deliver_def smpp_rd_def smpp_idle_def smpp_run_abs_def smpp_abs_def wf_pdu_def
        List.map_filter_def del: SmppSession_step.simps)
qed

lemma smpp_good_body:
  fixes s :: smpp_session and e :: smpp_env
  assumes rd: "smpp_rd s p" "p \<noteq> []" and ok: "SmppSession_ok s (SmReadDone None d)" and wf: "wf_pdu f"
    and p: "prefix p (to_buffers h f)" and pd: "prefix (p @ d) (to_buffers h f @ rest)"
  defines "st \<equiv> SmppSession_step e s (SmReadDone None d)"
  shows "p @ d = to_buffers h f \<and> smpp_rd (fst st) [] \<and>
    (smpp_run_abs (fst st), List.map_filter smpp_visible (snd st)) = smpp_run_spec e (smpp_run_abs s) (Inl f)"
proof -
  from rd obtain n where n: "ss_reading s = Some (RdBody n)" "length p = 16" "unat (be_val (take 4 p)) = n + 16"
    "ss_streambuf s = p" "umap_inv (ss_pending_timers s)" by (auto simp: smpp_rd_def)
  with p have hdr: "p = pdu_header f" by (auto simp: to_buffers_wire prefix_def append_eq_append_conv)
  with n(3) wf have len: "n = length (body f)" by (simp add: wf_pdu_def)
  with ok n(1) have "length d = length (body f)" by (simp add: SmppSession_want_def)
  with pd hdr have d: "d = body f" by (auto simp: to_buffers_wire prefix_def append_eq_append_conv)
  let ?h = "SmppSession_handle_pdu e f (s\<lparr>ss_reading := None, ss_streambuf := []\<rparr>)"
  have step: "st = ((fst ?h)\<lparr>ss_inactivity := ss_inactivity (fst ?h) + 1, ss_reading := Some RdHeader\<rparr>,
      snd ?h @ [SmInactivityWait, SmStartRead RdHeader])"
    unfolding st_def d using smpp_body_step [OF wf, of s e] n hdr len by simp
  then have kept: "ss_on_timeout (fst st) = ss_on_timeout s" "ss_on_close (fst st) = ss_on_close s"
    by (auto simp: smpp_handler_defs split: smpp_handler.splits)
  have "SmppSession_deliver e s (body f) = st" by (simp only: SmppSession_deliver_def st_def d)
  with smpp_body_read [OF wf, of s e] n hdr len have "smpp_idle (fst st)"
    and spec: "smpp_spec e (smpp_abs s) f = (smpp_abs (fst st), List.map_filter smpp_visible (snd st))" by simp_all
  with hdr d kept show ?thesis
    by (simp add: smpp_run_abs_def to_buffers_wire smpp_idle_def smpp_rd_def)
qed

lemma smpp_rd_event:
  assumes rd: "smpp_rd s p" and ok: "SmppSession_ok s ev" and wf: "wf_pdu f" and p: "prefix p (to_buffers h f)"
    and pd: "prefix (p @ smpp_got ev) (to_buffers h f @ rest)"
  shows "prefix (p @ smpp_got ev) (to_buffers h f)
        \<and> (smpp_rd (fst (SmppSession_step e s ev)) (p @ smpp_got ev) \<or> smpp_stopped (fst (SmppSession_step e s ev)))
        \<and> (smpp_run_abs (fst (SmppSession_step e s ev)), List.map_filter smpp_visible (snd (SmppSession_step e s ev)))
          = run (smpp_run_spec e) (smpp_run_abs s) (map Inr (smpp_other ev))
      \<or> p @ smpp_got ev = to_buffers h f \<and> smpp_other ev = []
        \<and> (smpp_rd (fst (SmppSession_step e s ev)) [] \<or> smpp_stopped (fst (SmppSession_step e s ev)))
        \<and> (smpp_run_abs (fst (SmppSession_step e s ev)), List.map_filter smpp_visible (snd (SmppSession_step e s ev)))
          = smpp_run_spec e (smpp_run_abs s) (Inl f)"
proof -
  from rd obtain r where r: "ss_reading s = Some r" "umap_inv (ss_pending_timers s)" by (auto simp: smpp_rd_def)
  consider (good) d where "ev = SmReadDone None d" | (failed) x d where "ev = SmReadDone (Some x) d"
    | (start) "ev = SmStart" | (other) "ev \<noteq> SmStart" "\<And>ec d. ev \<noteq> SmReadDone ec d"
    by (metis option.exhaust)
  then show ?thesis
  proof cases
    case good
    show ?thesis
    proof (cases "p = []")
      case True
      with good rd ok pd have "smpp_rd s []" "SmppSession_ok s (SmReadDone None d)" "prefix d (to_buffers h f @ rest)"
        by (simp_all del: SmppSession_ok.simps)
      from smpp_good_header [OF this(1,2) wf this(3), of e] good True show ?thesis
        by (intro disjI1) (auto simp: to_buffers_wire simp del: SmppSession_step.simps)
    next
      case False
      with good smpp_good_body [OF rd _ _ wf p, of d rest e] ok pd show ?thesis
        by (simp del: SmppSession_step.simps SmppSession_ok.simps)
    qed
  next
    case failed
    with smpp_failed_read [OF r(1), of e x d] r(2) p show ?thesis
      by (simp add: smpp_stopped_def run_single del: SmppSession_step.simps)
  next
    case start
    with ok r(1) show ?thesis by simp
  next
    case other
    then have "smpp_got ev = []" "smpp_other ev = [ev]" by (cases ev; simp)+
    with smpp_other_event [OF r(2) other, of e] rd p show ?thesis
      by (auto simp: smpp_rd_def run_single)
  qed
qed

lemma smpp_stopped_event:
  assumes st: "smpp_stopped s" and ok: "SmppSession_ok s ev"
  shows "smpp_got ev = [] \<and> smpp_stopped (fst (SmppSession_step e s ev))
    \<and> (smpp_run_abs (fst (SmppSession_step e s ev)), List.map_filter smpp_visible (snd (SmppSession_step e s ev)))
      = run (smpp_run_spec e) (smpp_run_abs s) (map Inr (smpp_other ev))"
proof -
  have ev: "ev \<noteq> SmStart" "\<And>ec d. ev \<noteq> SmReadDone ec d" using st ok by (auto simp: smpp_stopped_def)
  then have "smpp_got ev = []" "smpp_other ev = [ev]" by (cases ev; simp)+
  with smpp_other_event [OF _ ev, of s e] st show ?thesis by (simp add: smpp_stopped_def run_single)
qed

interpretation smpp_stream: event_reader "SmppSession_step e" SmppSession_ok smpp_got smpp_other "to_buffers h" wf_pdu
    smpp_rd smpp_stopped smpp_run_abs smpp_visible "smpp_run_spec e" for e h
proof unfold_locales
  show "\<exists>f. wf_pdu f \<and> to_buffers h f \<noteq> []" using wf_samples(1) smpp.enc_nonempty by blast
qed (use smpp_rd_event smpp_stopped_event in \<open>auto simp: smpp_rd_def smpp_stopped_def\<close>)

lemma smpp_rd_idle: "smpp_rd s [] \<longleftrightarrow> smpp_idle s"
  by (auto simp: smpp_rd_def smpp_idle_def)


definition smpp_busy_run :: "smpp_event list" where
  "smpp_busy_run =
     [SmReadDone None (pdu_header sample_bind), SmSendPdu sample_link, SmReadDone None [65, 0, 0],
      SmTimerFired 1 None, SmWriteDone None]"

lemma smpp_busy_run_ok:
  "allowed SmppSession_ok (SmppSession_step smpp_sample) (fst (SmppSession_step smpp_sample SmppServer_session SmStart)) smpp_busy_run"
  by code_simp


end
