(* ===== verification/Qwen.thy ===== *)
theory Qwen
  imports TurboFrame Reader
begin

text \<open>
  The length-prefixed server of \<open>qwen/server.cpp\<close>: sessions and the server that owns the table of
  sessions, the statistics and the requests that wait for a response.

  The server's table holds weak pointers. A session is kept alive by the handlers of its reads only,
  so \<open>lock\<close> succeeds while a read is outstanding or its handler runs; the handlers of writes, timers
  and tasks of the strand refer to the session by a plain pointer, and running one of them on a session
  that is gone is the effect \<open>QeDangling\<close>. \<open>graceful_close\<close> and \<open>start_heartbeat\<close> of the session call
  \<open>generate_sequence_number\<close>, which only the server has; the server's is meant. Time is
  \<open>std::time\<close>, in seconds.
\<close>

section \<open>Packets\<close>

definition PKT_BIND_REQ :: u8 where "PKT_BIND_REQ = 0x01"
definition PKT_BIND_RESP :: u8 where "PKT_BIND_RESP = 0x81"
definition PKT_SUBMIT_REQ :: u8 where "PKT_SUBMIT_REQ = 0x02"
definition PKT_SUBMIT_RESP :: u8 where "PKT_SUBMIT_RESP = 0x82"
definition PKT_HEARTBEAT_REQ :: u8 where "PKT_HEARTBEAT_REQ = 0x03"
definition PKT_HEARTBEAT_RESP :: u8 where "PKT_HEARTBEAT_RESP = 0x83"
definition PKT_UNBIND_REQ :: u8 where "PKT_UNBIND_REQ = 0x04"
definition PKT_UNBIND_RESP :: u8 where "PKT_UNBIND_RESP = 0x84"
definition PKT_TIMEOUT_STATUS :: u8 where "PKT_TIMEOUT_STATUS = 0xFF"

lemmas PKT_defs =
  PKT_BIND_REQ_def PKT_BIND_RESP_def PKT_SUBMIT_REQ_def PKT_SUBMIT_RESP_def PKT_HEARTBEAT_REQ_def
  PKT_HEARTBEAT_RESP_def PKT_UNBIND_REQ_def PKT_UNBIND_RESP_def PKT_TIMEOUT_STATUS_def

text \<open>The bytes that \<open>send_packet\<close> builds: the vector has four bytes more than the length says.\<close>

definition qw_packet :: "endian \<Rightarrow> u8 \<Rightarrow> u8 \<Rightarrow> u32 \<Rightarrow> bytes \<Rightarrow> bytes" where
  "qw_packet h type status sq payload =
     (let len = of_nat (10 + length payload) :: u32;
          packet = replicate (unat (4 + len)) 0;
          packet = memcpy packet 0 (mem_u32 h (htonl h len));
          packet = packet[4 := type];
          packet = packet[5 := status];
          packet = memcpy packet 6 (mem_u32 h (htonl h sq))
      in memcpy packet 10 payload)"

section \<open>State\<close>

type_synonym u64 = "64 word"

datatype qw_task = QtWrite bytes | QtHeartbeat

text \<open>
  A session. The number in \<open>RdBody\<close> is \<open>packet_length\<close>, which the handler of the read captures. The
  last four members are what Boost.Asio holds for it: the read, whether a write is outstanding, the
  tasks in the strand, and the waits on its heartbeat timers.
\<close>

record qw_session =
  qs_message_buffer :: bytes
  qs_write_queue :: "bytes list"
  qs_last_heartbeat_seq :: u32
  qs_reading :: "read_op option"
  qs_writing :: bool
  qs_tasks :: "qw_task list"
  qs_heartbeats :: nat

record SessionMetadata =
  sm_ip_address :: string
  sm_connection_time :: int
  sm_last_active_time :: int

text \<open>A pending request; the callback is named by a number.\<close>

record PendingRequest =
  pr_callback :: nat
  pr_expected_type :: u8

record qw_server =
  qv_host :: endian
  qv_sessions :: "(u64, unit) omap"
  qv_session_metadata :: "(u64, SessionMetadata) omap"
  qv_session_start_times :: "(u64, int) omap"
  qv_sequence_generator :: u32
  qv_pending_requests :: "(u32, PendingRequest) omap"
  qv_max_idle_time_seconds :: int
  qv_active_sessions_count :: int
  qv_total_session_time :: int
  qv_id_counter :: u64
  \<comment> \<open>the session objects, and the waits on the timers of requests\<close>
  qv_objs :: "(u64, qw_session) umap"
  qv_waits :: "u32 list"

datatype qw_effect =
    QeAccept
  | QeStartRead u64 read_op
  | QeWrite u64 bytes
  | QeShutdown u64
  | QeHeartbeatWait u64
  | QeHeartbeatCancel u64
  | QeTimerWait u32
  | QeTimerCancel u32
  | QeCallback nat u32 bytes u8
  | QeExpirationWait
  | QeHeartbeatTimeout
  | QeHeartbeatError
  | QeMissedHeartbeat u32 u32
  | QeDangling u64

type_synonym qw_proc = "(qw_server, qw_effect) proc"

text \<open>
  Where a call is made: outside every strand, in the strand of a session, or in the handler of a read
  of the session, which runs in the strand and keeps the session alive.
\<close>

datatype qw_context = QcNone | QcStrand u64 | QcRead u64

fun in_strand :: "qw_context \<Rightarrow> u64 \<Rightarrow> bool" where
  "in_strand QcNone i = False"
| "in_strand (QcStrand j) i = (i = j)"
| "in_strand (QcRead j) i = (i = j)"

definition qs_alive :: "qw_session \<Rightarrow> bool" where
  "qs_alive s \<longleftrightarrow> qs_reading s \<noteq> None"

definition qw_lock :: "qw_context \<Rightarrow> u64 \<Rightarrow> qw_server \<Rightarrow> bool" where
  "qw_lock ctx i sv = (case map_of (qv_objs sv) i of None \<Rightarrow> False | Some s \<Rightarrow> qs_alive s \<or> ctx = QcRead i)"

definition qs_update :: "u64 \<Rightarrow> (qw_session \<Rightarrow> qw_session) \<Rightarrow> qw_proc" where
  "qs_update i f =
     modify (\<lambda>sv. case map_of (qv_objs sv) i of
       None \<Rightarrow> sv
     | Some s \<Rightarrow> sv\<lparr>qv_objs := AList.update i (f s) (qv_objs sv)\<rparr>)"

definition on_session :: "u64 \<Rightarrow> (qw_session \<Rightarrow> qw_proc) \<Rightarrow> qw_proc" where
  "on_session i f sv = (case map_of (qv_objs sv) i of None \<Rightarrow> skip sv | Some s \<Rightarrow> f s sv)"

section \<open>Writing\<close>

definition session_do_write :: "u64 \<Rightarrow> qw_proc" where
  "session_do_write i =
     on_session i (\<lambda>s.
       case qs_write_queue s of
         [] \<Rightarrow> skip
       | packet # _ \<Rightarrow> seqs [qs_update i (\<lambda>s. s\<lparr>qs_writing := True\<rparr>), emit (QeWrite i packet)])"

definition session_push :: "u64 \<Rightarrow> bytes \<Rightarrow> qw_proc" where
  "session_push i packet =
     on_session i (\<lambda>s.
       seqs [qs_update i (\<lambda>s. s\<lparr>qs_write_queue := qs_write_queue s @ [packet]\<rparr>),
             if_do (qs_write_queue s = []) (session_do_write i)])"

definition session_post_write :: "qw_context \<Rightarrow> u64 \<Rightarrow> bytes \<Rightarrow> qw_proc" where
  "session_post_write ctx i packet =
     (if in_strand ctx i then session_push i packet
      else qs_update i (\<lambda>s. s\<lparr>qs_tasks := qs_tasks s @ [QtWrite packet]\<rparr>))"

definition session_send_packet :: "qw_context \<Rightarrow> u64 \<Rightarrow> u8 \<Rightarrow> u8 \<Rightarrow> u32 \<Rightarrow> bytes \<Rightarrow> qw_proc" where
  "session_send_packet ctx i type status sq payload sv =
     session_post_write ctx i (qw_packet (qv_host sv) type status sq payload) sv"

section \<open>Removing sessions, and the statistics\<close>

definition server_next_sequence :: qw_proc where
  "server_next_sequence = modify (\<lambda>sv. sv\<lparr>qv_sequence_generator := qv_sequence_generator sv + 1\<rparr>)"

definition session_graceful_close :: "qw_context \<Rightarrow> u64 \<Rightarrow> qw_proc" where
  "session_graceful_close ctx i sv =
     seqs [server_next_sequence,
           session_send_packet ctx i PKT_UNBIND_RESP 0x00 (qv_sequence_generator sv) [],
           emit (QeShutdown i)] sv"

text \<open>The part of \<open>remove_session\<close> that settles the time of a session, and its metadata.\<close>

definition server_forget :: "int \<Rightarrow> u64 \<Rightarrow> qw_server \<Rightarrow> qw_server" where
  "server_forget now i sv =
     (case map_of (qv_session_metadata sv) i of
        None \<Rightarrow> sv
      | Some _ \<Rightarrow>
          (let sv = (case map_of (qv_session_start_times sv) i of
                 None \<Rightarrow> sv
               | Some t \<Rightarrow> sv\<lparr>qv_total_session_time := qv_total_session_time sv + (now - t),
                             qv_session_start_times := AList.delete i (qv_session_start_times sv)\<rparr>)
           in sv\<lparr>qv_session_metadata := AList.delete i (qv_session_metadata sv)\<rparr>))"

definition server_remove_session :: "int \<Rightarrow> qw_context \<Rightarrow> u64 \<Rightarrow> qw_proc" where
  "server_remove_session now ctx i sv =
     seqs [if_do (map_of (qv_sessions sv) i \<noteq> None)
             (seqs [if_do (qw_lock ctx i sv) (session_graceful_close ctx i),
                    modify (\<lambda>sv. sv\<lparr>qv_sessions := AList.delete i (qv_sessions sv)\<rparr>)]),
           modify (server_forget now i),
           modify (\<lambda>sv. sv\<lparr>qv_active_sessions_count := qv_active_sessions_count sv - 1\<rparr>)] sv"

text \<open>
  The loop of \<open>check_expired_sessions\<close> over the metadata, whose remaining part is the second
  argument.
\<close>

fun server_expire_loop :: "int \<Rightarrow> (u64, SessionMetadata) omap \<Rightarrow> qw_server \<Rightarrow> qw_server" where
  "server_expire_loop now [] sv = sv"
| "server_expire_loop now ((i, m) # rest) sv =
     (if now - sm_last_active_time m > qv_max_idle_time_seconds sv
      then (let sv = sv\<lparr>qv_sessions := AList.delete i (qv_sessions sv)\<rparr>;
                sv = (case map_of (qv_session_start_times sv) i of
                  None \<Rightarrow> sv
                | Some t \<Rightarrow> sv\<lparr>qv_total_session_time := qv_total_session_time sv + (now - t),
                              qv_session_start_times := AList.delete i (qv_session_start_times sv)\<rparr>);
                sv = sv\<lparr>qv_session_metadata := AList.delete i (qv_session_metadata sv)\<rparr>
            in server_expire_loop now rest
                 (sv\<lparr>qv_active_sessions_count := qv_active_sessions_count sv - 1\<rparr>))
      else server_expire_loop now rest sv)"

definition server_check_expired_sessions :: "int \<Rightarrow> qw_proc" where
  "server_check_expired_sessions now =
     modify (\<lambda>sv. server_expire_loop now (qv_session_metadata sv) sv)"

definition server_start_expiration_timer :: qw_proc where
  "server_start_expiration_timer = emit QeExpirationWait"

definition server_onExpiration :: "int \<Rightarrow> qw_proc" where
  "server_onExpiration now = seqs [server_check_expired_sessions now, server_start_expiration_timer]"

definition server_update_last_active_time :: "int \<Rightarrow> u64 \<Rightarrow> qw_proc" where
  "server_update_last_active_time now i =
     modify (\<lambda>sv. case map_of (qv_session_metadata sv) i of
       None \<Rightarrow> sv
     | Some m \<Rightarrow> sv\<lparr>qv_session_metadata := omap_put i (m\<lparr>sm_last_active_time := now\<rparr>) (qv_session_metadata sv)\<rparr>)"

text \<open>\<open>get_statistics\<close>: the average is \<open>total / active\<close> as a fraction of integers, and 0 if no session is active.\<close>

definition server_get_statistics :: "qw_server \<Rightarrow> int \<times> (int \<times> int)" where
  "server_get_statistics sv =
     (let active = qv_active_sessions_count sv
      in (active, if active \<noteq> 0 then (qv_total_session_time sv, active) else (0, 1)))"

section \<open>Requests\<close>

text \<open>The common part of \<open>send_request_to_session\<close> and \<open>send_request_to_all\<close>: the entry and its timer.\<close>

definition server_register :: "u32 \<Rightarrow> nat option \<Rightarrow> u8 \<Rightarrow> qw_proc" where
  "server_register sq callback expected =
     (case callback of
        None \<Rightarrow> skip
      | Some cb \<Rightarrow>
          if_do (expected \<noteq> 0)
            (seqs [modify (\<lambda>sv. sv\<lparr>qv_waits := qv_waits sv @ [sq]\<rparr>), emit (QeTimerWait sq),
                   modify (\<lambda>sv. sv\<lparr>qv_pending_requests :=
                     omap_put sq \<lparr>pr_callback = cb, pr_expected_type = expected\<rparr> (qv_pending_requests sv)\<rparr>)]))"

definition server_get_session :: "qw_context \<Rightarrow> u64 \<Rightarrow> qw_server \<Rightarrow> bool" where
  "server_get_session ctx i sv \<longleftrightarrow> map_of (qv_sessions sv) i \<noteq> None \<and> qw_lock ctx i sv"

definition server_send_request_to_session ::
    "qw_context \<Rightarrow> u64 \<Rightarrow> u8 \<Rightarrow> bytes \<Rightarrow> nat option \<Rightarrow> u8 \<Rightarrow> qw_proc" where
  "server_send_request_to_session ctx i type payload callback expected sv =
     (let sq = qv_sequence_generator sv in
      seqs [server_next_sequence,
            server_register sq callback expected,
            (\<lambda>sv. if_do (server_get_session ctx i sv) (session_send_packet ctx i type 0x00 sq payload) sv)] sv)"

definition server_send_request_to_all ::
    "qw_context \<Rightarrow> u8 \<Rightarrow> bytes \<Rightarrow> nat option \<Rightarrow> u8 \<Rightarrow> qw_proc" where
  "server_send_request_to_all ctx type payload callback expected sv =
     (let sq = qv_sequence_generator sv in
      seqs [server_next_sequence,
            server_register sq callback expected,
            (\<lambda>sv. seqs (map (\<lambda>(i, _). (\<lambda>sv. if_do (qw_lock ctx i sv)
                     (session_send_packet ctx i type 0x00 sq payload) sv)) (qv_sessions sv)) sv)] sv)"

definition server_onTimer :: "u32 \<Rightarrow> error_code \<Rightarrow> qw_proc" where
  "server_onTimer sq ec =
     seqs [modify (\<lambda>sv. sv\<lparr>qv_waits := remove1 sq (qv_waits sv)\<rparr>),
           if_do (ec = None) (\<lambda>sv.
             case map_of (qv_pending_requests sv) sq of
               None \<Rightarrow> skip sv
             | Some r \<Rightarrow> seqs [emit (QeCallback (pr_callback r) sq [] PKT_TIMEOUT_STATUS),
                 modify (\<lambda>sv. sv\<lparr>qv_pending_requests := AList.delete sq (qv_pending_requests sv)\<rparr>)] sv)]"

definition server_handle_response :: "u8 \<Rightarrow> u8 \<Rightarrow> u32 \<Rightarrow> bytes \<Rightarrow> qw_proc" where
  "server_handle_response type status sq payload sv =
     (case map_of (qv_pending_requests sv) sq of
        None \<Rightarrow> skip sv
      | Some r \<Rightarrow>
          seqs [emit (QeTimerCancel sq),
                if_do (pr_expected_type r = type) (emit (QeCallback (pr_callback r) sq payload status)),
                modify (\<lambda>sv. sv\<lparr>qv_pending_requests := AList.delete sq (qv_pending_requests sv)\<rparr>)] sv)"

section \<open>The handlers of a session\<close>

definition session_start_heartbeat :: "qw_context \<Rightarrow> u64 \<Rightarrow> qw_proc" where
  "session_start_heartbeat ctx i sv =
     (let sq = qv_sequence_generator sv in
      seqs [qs_update i (\<lambda>s. s\<lparr>qs_heartbeats := qs_heartbeats s + 1\<rparr>), emit (QeHeartbeatWait i),
            server_next_sequence,
            qs_update i (\<lambda>s. s\<lparr>qs_last_heartbeat_seq := sq\<rparr>),
            session_send_packet ctx i PKT_HEARTBEAT_REQ 0x00 sq []] sv)"

definition session_read :: "u64 \<Rightarrow> read_op \<Rightarrow> qw_proc" where
  "session_read i r = seqs [qs_update i (\<lambda>s. s\<lparr>qs_reading := Some r\<rparr>), emit (QeStartRead i r)]"

definition session_do_read_length :: "u64 \<Rightarrow> qw_proc" where
  "session_do_read_length i = session_read i RdHeader"

definition session_do_read_body :: "u64 \<Rightarrow> u32 \<Rightarrow> qw_proc" where
  "session_do_read_body i packet_length = session_read i (RdBody (unat packet_length))"

definition session_onLength :: "int \<Rightarrow> u64 \<Rightarrow> error_code \<Rightarrow> bytes \<Rightarrow> qw_proc" where
  "session_onLength now i ec d sv =
     seqs [qs_update i (\<lambda>s. s\<lparr>qs_reading := None\<rparr>),
           if ec = None
           then (let packet_length = ntohl (qv_host sv) (u32_mem (qv_host sv) d) in
                 if packet_length < 10 then skip
                 else seqs [qs_update i (\<lambda>s. s\<lparr>qs_message_buffer := resize (unat packet_length - 4) (qs_message_buffer s)\<rparr>),
                            session_do_read_body i packet_length])
           else server_remove_session now (QcRead i) i] sv"

text \<open>The reaction to a packet, after the server has looked for a request that it answers.\<close>

definition session_reply :: "u64 \<Rightarrow> u8 \<Rightarrow> u32 \<Rightarrow> qw_proc" where
  "session_reply i type sq =
     (if type = PKT_BIND_REQ then session_send_packet (QcRead i) i PKT_BIND_RESP 0x00 sq []
      else if type = PKT_SUBMIT_REQ then session_send_packet (QcRead i) i PKT_SUBMIT_RESP 0x00 sq []
      else if type = PKT_HEARTBEAT_REQ then session_send_packet (QcRead i) i PKT_HEARTBEAT_RESP 0x00 sq []
      else if type = PKT_UNBIND_REQ then session_send_packet (QcRead i) i PKT_UNBIND_RESP 0x00 sq []
      else if type = PKT_HEARTBEAT_RESP then
        on_session i (\<lambda>s.
          if sq = qs_last_heartbeat_seq s
          then seqs [emit (QeHeartbeatCancel i), qs_update i (\<lambda>s. s\<lparr>qs_tasks := qs_tasks s @ [QtHeartbeat]\<rparr>)]
          else emit (QeMissedHeartbeat (qs_last_heartbeat_seq s) sq))
      else skip)"

definition session_handle_packet :: "u64 \<Rightarrow> nat \<Rightarrow> qw_proc" where
  "session_handle_packet i packet_length =
     on_session i (\<lambda>s sv.
       let msg = qs_message_buffer s in
       if length msg \<noteq> packet_length - 4 then skip sv
       else (let type = msg ! 0; status = msg ! 1;
                 sq = ntohl (qv_host sv) (u32_mem (qv_host sv) (take 4 (drop 2 msg)));
                 payload = drop 6 msg
             in seqs [server_handle_response type status sq payload, session_reply i type sq] sv))"

definition session_onBody :: "int \<Rightarrow> u64 \<Rightarrow> nat \<Rightarrow> error_code \<Rightarrow> bytes \<Rightarrow> qw_proc" where
  "session_onBody now i packet_length ec d =
     seqs [qs_update i (\<lambda>s. s\<lparr>qs_reading := None, qs_message_buffer := memcpy (qs_message_buffer s) 0 d\<rparr>),
           if ec = None then seqs [session_handle_packet i packet_length, session_do_read_length i]
           else server_remove_session now (QcRead i) i]"

definition session_onWrite :: "int \<Rightarrow> u64 \<Rightarrow> error_code \<Rightarrow> qw_proc" where
  "session_onWrite now i ec =
     on_session i (\<lambda>s.
       seqs [qs_update i (\<lambda>s. s\<lparr>qs_writing := False\<rparr>),
             if \<not> qs_alive s then emit (QeDangling i)
             else if ec = None
             then seqs [qs_update i (\<lambda>s. s\<lparr>qs_write_queue := tl (qs_write_queue s)\<rparr>), session_do_write i]
             else server_remove_session now (QcStrand i) i])"

definition session_onTask :: "u64 \<Rightarrow> qw_proc" where
  "session_onTask i =
     on_session i (\<lambda>s.
       case qs_tasks s of
         [] \<Rightarrow> skip
       | t # ts \<Rightarrow>
           seqs [qs_update i (\<lambda>s. s\<lparr>qs_tasks := ts\<rparr>),
                 if \<not> qs_alive s then emit (QeDangling i)
                 else (case t of
                     QtWrite packet \<Rightarrow> session_push i packet
                   | QtHeartbeat \<Rightarrow> session_start_heartbeat (QcStrand i) i)])"

definition session_onHeartbeat :: "int \<Rightarrow> u64 \<Rightarrow> error_code \<Rightarrow> qw_proc" where
  "session_onHeartbeat now i ec =
     on_session i (\<lambda>s.
       seqs [qs_update i (\<lambda>s. s\<lparr>qs_heartbeats := qs_heartbeats s - 1\<rparr>),
             if ec = None
             then seqs [emit QeHeartbeatTimeout,
                        if qs_alive s then server_remove_session now QcNone i else emit (QeDangling i)]
             else if_do (ec \<noteq> Some operation_aborted) (emit QeHeartbeatError)])"

section \<open>Accepting\<close>

definition session_new :: qw_session where
  "session_new = \<lparr>qs_message_buffer = [], qs_write_queue = [], qs_last_heartbeat_seq = 0, qs_reading = None,
     qs_writing = False, qs_tasks = [], qs_heartbeats = 0\<rparr>"

definition session_start :: "u64 \<Rightarrow> qw_proc" where
  "session_start i = seqs [session_do_read_length i, session_start_heartbeat QcNone i]"

definition server_start_accept :: qw_proc where
  "server_start_accept = emit QeAccept"

text \<open>The handler of \<open>async_accept\<close>; \<open>peer\<close> is the address of the peer, if it can be asked for.\<close>

definition server_onAccept :: "int \<Rightarrow> error_code \<Rightarrow> string option \<Rightarrow> qw_proc" where
  "server_onAccept now ec peer sv =
     (let i = qv_id_counter sv;
          metadata = \<lparr>sm_ip_address = (case peer of None \<Rightarrow> ''unknown'' | Some ip \<Rightarrow> ip),
                      sm_connection_time = now, sm_last_active_time = now\<rparr>
      in seqs [if_do (ec = None)
                 (seqs [modify (\<lambda>sv. sv\<lparr>qv_id_counter := i + 1, qv_objs := AList.update i session_new (qv_objs sv)\<rparr>),
                        modify (\<lambda>sv. sv\<lparr>qv_sessions := omap_put i () (qv_sessions sv),
                                       qv_session_metadata := omap_put i metadata (qv_session_metadata sv),
                                       qv_session_start_times := omap_put i now (qv_session_start_times sv),
                                       qv_active_sessions_count := qv_active_sessions_count sv + 1\<rparr>),
                        session_start i]),
               server_start_accept] sv)"

definition server_new :: "endian \<Rightarrow> int \<Rightarrow> qw_server" where
  "server_new h max_idle = \<lparr>qv_host = h, qv_sessions = [], qv_session_metadata = [], qv_session_start_times = [],
     qv_sequence_generator = 1, qv_pending_requests = [], qv_max_idle_time_seconds = max_idle,
     qv_active_sessions_count = 0, qv_total_session_time = 0, qv_id_counter = 1, qv_objs = [], qv_waits = []\<rparr>"

definition server_init :: qw_proc where
  "server_init = seqs [server_start_accept, server_start_expiration_timer]"

section \<open>Events\<close>

text \<open>Every event comes with the time at which it is handled.\<close>

datatype qw_event =
    QvAccept error_code "string option"
  | QvRead u64 error_code bytes
  | QvWrite u64 error_code
  | QvTask u64
  | QvHeartbeat u64 error_code
  | QvTimer u32 error_code
  | QvExpire
  | QvSend u64 u8 bytes "nat option" u8
  | QvSendAll u8 bytes "nat option" u8
  | QvTouch u64

fun qw_server_event :: "int \<Rightarrow> qw_event \<Rightarrow> qw_proc" where
  "qw_server_event now (QvAccept ec peer) = server_onAccept now ec peer"
| "qw_server_event now (QvRead i ec d) =
     on_session i (\<lambda>s. case qs_reading s of
        None \<Rightarrow> skip
      | Some RdHeader \<Rightarrow> session_onLength now i ec d
      | Some (RdBody n) \<Rightarrow> session_onBody now i n ec d)"
| "qw_server_event now (QvWrite i ec) = session_onWrite now i ec"
| "qw_server_event now (QvTask i) = session_onTask i"
| "qw_server_event now (QvHeartbeat i ec) = session_onHeartbeat now i ec"
| "qw_server_event now (QvTimer sq ec) = server_onTimer sq ec"
| "qw_server_event now QvExpire = server_onExpiration now"
| "qw_server_event now (QvSend i type payload cb expected) = server_send_request_to_session QcNone i type payload cb expected"
| "qw_server_event now (QvSendAll type payload cb expected) = server_send_request_to_all QcNone type payload cb expected"
| "qw_server_event now (QvTouch i) = server_update_last_active_time now i"

fun server_step :: "qw_server \<Rightarrow> int \<times> qw_event \<Rightarrow> qw_server \<times> qw_effect list" where
  "server_step sv (now, ev) = qw_server_event now ev sv"

definition session_want :: "u64 \<Rightarrow> qw_server \<Rightarrow> nat option" where
  "session_want i sv = (case map_of (qv_objs sv) i of
     None \<Rightarrow> None
   | Some s \<Rightarrow> (case qs_reading s of None \<Rightarrow> None | Some RdHeader \<Rightarrow> Some 4 | Some (RdBody n) \<Rightarrow> Some (n - 4)))"

text \<open>What Boost.Asio may deliver.\<close>

fun server_ok :: "qw_server \<Rightarrow> int \<times> qw_event \<Rightarrow> bool" where
  "server_ok sv (now, QvRead i ec d) =
     (case session_want i sv of None \<Rightarrow> False | Some n \<Rightarrow> if ec = None then length d = n else length d \<le> n)"
| "server_ok sv (now, QvWrite i ec) = (case map_of (qv_objs sv) i of None \<Rightarrow> False | Some s \<Rightarrow> qs_writing s)"
| "server_ok sv (now, QvTask i) = (case map_of (qv_objs sv) i of None \<Rightarrow> False | Some s \<Rightarrow> qs_tasks s \<noteq> [])"
| "server_ok sv (now, QvHeartbeat i ec) = (case map_of (qv_objs sv) i of None \<Rightarrow> False | Some s \<Rightarrow> 0 < qs_heartbeats s)"
| "server_ok sv (now, QvTimer sq ec) = (sq \<in> set (qv_waits sv))"
| "server_ok sv (now, QvAccept ec peer) = (map_of (qv_objs sv) (qv_id_counter sv) = None)"
| "server_ok sv _ = True"

end
