(* ===== verification/QwenProps.thy ===== *)
theory QwenProps
  imports Qwen
begin

text \<open>
  What holds of the length-prefixed server: its reader handles a stream of packets as a
  specification on whole packets does, its tables agree, expiry removes exactly the idle sessions,
  every callback is called at most once. The packets that it writes itself are four bytes too long,
  which stops a reader of the same kind after the first one.
\<close>

section \<open>Packets\<close>

lemma memcpy_front: "off + length src \<le> length v \<Longrightarrow> memcpy (v @ w) off src = memcpy v off src @ w"
  by (simp add: memcpy_def)

text \<open>\<open>send_packet\<close> builds a packet of the TurboNet format, with four zero bytes after it.\<close>

lemma qw_packet_frame:
  assumes "14 + length payload < 2 ^ 32"
  shows "qw_packet h type status sq payload =
     encode_frame \<lparr>f_pid = type, f_status = status, f_seq = sq, f_body = payload\<rparr> @ [0, 0, 0, 0]"
proof -
  let ?z = "replicate (10 + length payload) 0 :: bytes"
  let ?l = "be_bytes (of_nat (10 + length payload))"
  have "4 + of_nat (10 + length payload) = (of_nat (14 + length payload) :: u32)"
    by simp
  also have "unat \<dots> = (10 + length payload) + 4"
    using assms by (simp only: unat_of_nat) simp
  finally have "replicate (unat (4 + of_nat (10 + length payload) :: u32)) 0 = ?z @ [0, 0, 0, 0 :: u8]"
    by (simp only: replicate_add) (simp add: numeral_eq_Suc)
  moreover have "(memcpy ?z 0 ?l @ w)[4 := type, 5 := status] = (memcpy ?z 0 ?l)[4 := type, 5 := status] @ w" for w
    by (simp add: list_update_append)
  ultimately have "qw_packet h type status sq payload =
      memcpy (memcpy ((memcpy ?z 0 ?l)[4 := type, 5 := status]) 6 (be_bytes sq)) 10 payload @ [0, 0, 0, 0]"
    by (simp only: qw_packet_def Let_def mem_htonl) (simp add: memcpy_front del: of_nat_add)
  then show ?thesis
    by (simp only: fill_packet length_be_bytes encode_frame_def frame_header_def) simp
qed

section \<open>The session table\<close>

lemma map_of_AList_update [simp]: "map_of (AList.update k v m) = (map_of m)(k \<mapsto> v)"
  by (rule update_conv')

lemma qs_update_simps [simp]:
  "snd (qs_update i f sv) = []"
  "map_of (qv_objs (fst (qs_update i f sv))) = (map_of (qv_objs sv))(i := map_option f (map_of (qv_objs sv) i))"
  "qv_host (fst (qs_update i f sv)) = qv_host sv"
  "qv_sessions (fst (qs_update i f sv)) = qv_sessions sv"
  "qv_session_metadata (fst (qs_update i f sv)) = qv_session_metadata sv"
  "qv_session_start_times (fst (qs_update i f sv)) = qv_session_start_times sv"
  "qv_sequence_generator (fst (qs_update i f sv)) = qv_sequence_generator sv"
  "qv_pending_requests (fst (qs_update i f sv)) = qv_pending_requests sv"
  "qv_max_idle_time_seconds (fst (qs_update i f sv)) = qv_max_idle_time_seconds sv"
  "qv_active_sessions_count (fst (qs_update i f sv)) = qv_active_sessions_count sv"
  "qv_total_session_time (fst (qs_update i f sv)) = qv_total_session_time sv"
  "qv_id_counter (fst (qs_update i f sv)) = qv_id_counter sv"
  "qv_waits (fst (qs_update i f sv)) = qv_waits sv"
  by (auto simp: qs_update_def fun_eq_iff split: option.splits)

lemma on_session_simps [simp]:
  "map_of (qv_objs sv) i = Some s \<Longrightarrow> on_session i f sv = f s sv"
  "map_of (qv_objs sv) i = None \<Longrightarrow> on_session i f sv = (sv, [])"
  by (simp_all add: on_session_def skip_def)

section \<open>Receiving\<close>

definition session_deliver :: "int \<Rightarrow> u64 \<Rightarrow> qw_server \<Rightarrow> bytes \<Rightarrow> qw_server \<times> qw_effect list" where
  "session_deliver now i sv d = server_step sv (now, QvRead i None d)"

text \<open>
  The specification on whole packets. Its state is the requests that wait for a response, the number
  of the last heartbeat, the packets queued for the peer, and the tasks of the strand. A packet
  with the number of a waiting request settles it: its callback is called if the type is the expected
  one. A request of the peer is answered; the response to the last heartbeat starts the next.
\<close>

type_synonym qw_spec_state = "(u32 \<rightharpoonup> PendingRequest) \<times> u32 \<times> bytes list \<times> qw_task list"

definition response_type :: "u8 \<Rightarrow> u8 option" where
  "response_type = [PKT_BIND_REQ \<mapsto> PKT_BIND_RESP, PKT_SUBMIT_REQ \<mapsto> PKT_SUBMIT_RESP,
     PKT_HEARTBEAT_REQ \<mapsto> PKT_HEARTBEAT_RESP, PKT_UNBIND_REQ \<mapsto> PKT_UNBIND_RESP]"

fun qw_settle :: "(u32 \<rightharpoonup> PendingRequest) \<Rightarrow> frame \<Rightarrow> qw_effect list" where
  "qw_settle P f =
     (case P (f_seq f) of
        None \<Rightarrow> []
      | Some r \<Rightarrow> QeTimerCancel (f_seq f) #
          (if pr_expected_type r = f_pid f then [QeCallback (pr_callback r) (f_seq f) (f_body f) (f_status f)] else []))"

type_synonym qs_spec_state = "u32 \<times> bytes list \<times> qw_task list"

fun qw_reply :: "endian \<Rightarrow> u64 \<Rightarrow> qs_spec_state \<Rightarrow> u8 \<Rightarrow> u32 \<Rightarrow> qs_spec_state \<times> qw_effect list" where
  "qw_reply h i (hb, q, ts) t sq =
     (case response_type t of
        Some t' \<Rightarrow> ((hb, q @ [qw_packet h t' 0 sq []], ts), [])
      | None \<Rightarrow>
          if t \<noteq> PKT_HEARTBEAT_RESP then ((hb, q, ts), [])
          else if sq = hb then ((hb, q, ts @ [QtHeartbeat]), [QeHeartbeatCancel i])
          else ((hb, q, ts), [QeMissedHeartbeat hb sq]))"

fun qw_spec :: "endian \<Rightarrow> u64 \<Rightarrow> qw_spec_state \<Rightarrow> frame \<Rightarrow> qw_spec_state \<times> qw_effect list" where
  "qw_spec h i (P, a) f =
     (let (a', os) = qw_reply h i a (f_pid f) (f_seq f) in ((P(f_seq f := None), a'), qw_settle P f @ os))"

definition qs_abs :: "qw_session \<Rightarrow> qs_spec_state" where
  "qs_abs s = (qs_last_heartbeat_seq s, qs_write_queue s, qs_tasks s)"

definition qw_abs :: "u64 \<Rightarrow> qw_server \<Rightarrow> qw_spec_state" where
  "qw_abs i sv = (map_of (qv_pending_requests sv),
     case map_of (qv_objs sv) i of None \<Rightarrow> (0, [], []) | Some s \<Rightarrow> qs_abs s)"

fun qw_visible :: "qw_effect \<Rightarrow> qw_effect option" where
  "qw_visible (QeStartRead i r) = None"
| "qw_visible (QeWrite i d) = None"
| "qw_visible x = Some x"

definition qw_idle :: "endian \<Rightarrow> u64 \<Rightarrow> qw_server \<Rightarrow> bool" where
  "qw_idle h i sv \<longleftrightarrow> qv_host sv = h \<and> omap_inv (qv_pending_requests sv) \<and>
     (\<exists>s. map_of (qv_objs sv) i = Some s \<and> qs_reading s = Some RdHeader)"

lemma handle_response_simps:
  assumes "omap_inv (qv_pending_requests sv)"
  shows "qv_objs (fst (server_handle_response t st sq pl sv)) = qv_objs sv"
    and "qv_host (fst (server_handle_response t st sq pl sv)) = qv_host sv"
    and "omap_inv (qv_pending_requests (fst (server_handle_response t st sq pl sv)))"
    and "map_of (qv_pending_requests (fst (server_handle_response t st sq pl sv))) = (map_of (qv_pending_requests sv))(sq := None)"
    and "List.map_filter qw_visible (snd (server_handle_response t st sq pl sv)) =
      qw_settle (map_of (qv_pending_requests sv)) \<lparr>f_pid = t, f_status = st, f_seq = sq, f_body = pl\<rparr>"
  using assms
  by (auto simp: server_handle_response_def omap.look_del omap.inv_del List.map_filter_def fun_eq_iff split: option.splits)

lemma session_push_simps:
  assumes "map_of (qv_objs sv) i = Some s"
  shows "\<exists>w. map_of (qv_objs (fst (session_push i d sv))) = (map_of (qv_objs sv))(i \<mapsto> s\<lparr>qs_write_queue := qs_write_queue s @ [d], qs_writing := w\<rparr>)"
    and "List.map_filter qw_visible (snd (session_push i d sv)) = []"
    and "qv_host (fst (session_push i d sv)) = qv_host sv"
    and "qv_pending_requests (fst (session_push i d sv)) = qv_pending_requests sv"
  using assms by (auto simp: session_push_def session_do_write_def List.map_filter_def fun_eq_iff
      intro: exI [of _ True] exI [of _ "qs_writing s"] split: list.splits)

lemma session_reply_simps:
  assumes "map_of (qv_objs sv) i = Some s"
  shows "qv_host (fst (session_reply i t sq sv)) = qv_host sv"
    and "qv_pending_requests (fst (session_reply i t sq sv)) = qv_pending_requests sv"
    and "\<exists>s'. map_of (qv_objs (fst (session_reply i t sq sv))) i = Some s' \<and> qs_reading s' = qs_reading s
      \<and> (qs_abs s', List.map_filter qw_visible (snd (session_reply i t sq sv))) = qw_reply (qv_host sv) i (qs_abs s) t sq"
proof -
  have push: "session_send_packet (QcRead i) i t' st q pl sv = session_push i (qw_packet (qv_host sv) t' st q pl) sv" for t' st q pl
    by (simp add: session_send_packet_def session_post_write_def)
  note p = session_push_simps [OF assms]
  show "qv_host (fst (session_reply i t sq sv)) = qv_host sv"
      "qv_pending_requests (fst (session_reply i t sq sv)) = qv_pending_requests sv"
    using assms by (auto simp: session_reply_def push p(3,4))
  have pushed: "\<exists>s'. map_of (qv_objs (fst (session_push i d sv))) i = Some s' \<and> qs_reading s' = qs_reading s
      \<and> qs_abs s' = (qs_last_heartbeat_seq s, qs_write_queue s @ [d], qs_tasks s)" for d
    using p(1) [of d] by (auto simp: qs_abs_def)
  consider t' where "response_type t = Some t'" | "response_type t = None" "t \<noteq> PKT_HEARTBEAT_RESP"
    | "response_type t = None" "t = PKT_HEARTBEAT_RESP"
    by blast
  then show "\<exists>s'. map_of (qv_objs (fst (session_reply i t sq sv))) i = Some s' \<and> qs_reading s' = qs_reading s
      \<and> (qs_abs s', List.map_filter qw_visible (snd (session_reply i t sq sv))) = qw_reply (qv_host sv) i (qs_abs s) t sq"
  proof cases
    case (1 t')
    then have "session_reply i t sq sv = session_push i (qw_packet (qv_host sv) t' 0 sq []) sv"
      by (auto simp: session_reply_def response_type_def push PKT_defs split: if_splits)
    with 1 pushed p(2) show ?thesis by (simp add: qs_abs_def)
  next
    case 2
    then have "session_reply i t sq sv = (sv, [])"
      by (auto simp: session_reply_def response_type_def skip_def PKT_defs split: if_splits)
    with 2 assms show ?thesis by (simp add: List.map_filter_def qs_abs_def)
  next
    case 3
    with assms show ?thesis by (simp add: session_reply_def PKT_defs List.map_filter_def qs_abs_def)
  qed
qed

lemma session_body_read:
  fixes now :: int
  assumes s: "map_of (qv_objs sv) i = Some s" "qs_reading s = Some (RdBody (10 + length (f_body f)))"
      "length (qs_message_buffer s) = 6 + length (f_body f)"
    and P: "omap_inv (qv_pending_requests sv)" and h: "qv_host sv = h"
  defines "d \<equiv> session_deliver now i sv ([f_pid f, f_status f] @ be_bytes (f_seq f) @ f_body f)"
  shows "qw_idle h i (fst d) \<and> (qw_abs i (fst d), List.map_filter qw_visible (snd d)) = qw_spec h i (qw_abs i sv) f"
proof -
  let ?msg = "[f_pid f, f_status f] @ be_bytes (f_seq f) @ f_body f"
  let ?sv = "fst (qs_update i (\<lambda>s. s\<lparr>qs_reading := None, qs_message_buffer := memcpy (qs_message_buffer s) 0 ?msg\<rparr>) sv)"
  let ?s = "s\<lparr>qs_reading := None, qs_message_buffer := ?msg\<rparr>"
  let ?r = "server_handle_response (f_pid f) (f_status f) (f_seq f) (f_body f) ?sv"
  let ?a = "session_reply i (f_pid f) (f_seq f) (fst ?r)"
  have s1: "map_of (qv_objs ?sv) i = Some ?s"
    using s by simp
  have d: "d = (fst (session_do_read_length i (fst ?a)), snd ?r @ snd ?a @ [QeStartRead i RdHeader])"
    using s s1 h by (simp add: d_def session_deliver_def session_onBody_def session_handle_packet_def Let_def
        session_do_read_length_def session_read_def prod_eq_iff)
  have P1: "omap_inv (qv_pending_requests ?sv)"
    using P by simp
  note r = handle_response_simps [OF P1]
  have s2: "map_of (qv_objs (fst ?r)) i = Some ?s"
    using s1 r(1) by simp
  note a = session_reply_simps [OF s2, where t = "f_pid f" and sq = "f_seq f"]
  have "qs_abs ?s = qs_abs s" "qv_host (fst ?r) = h"
    using r(2) h by (simp_all add: qs_abs_def)
  from a(3) [unfolded this] obtain s' where s': "map_of (qv_objs (fst ?a)) i = Some s'"
    and out: "(qs_abs s', List.map_filter qw_visible (snd ?a)) = qw_reply h i (qs_abs s) (f_pid f) (f_seq f)"
    by (elim exE conjE)
  have "qw_idle h i (fst d)"
    using s' a(1,2) r(2,3) h by (simp add: d qw_idle_def session_do_read_length_def session_read_def)
  moreover have "qw_abs i (fst d) = ((map_of (qv_pending_requests sv))(f_seq f := None), qs_abs s')"
    using s' a(2) r(4) by (simp add: d qw_abs_def session_do_read_length_def session_read_def qs_abs_def)
  moreover have "List.map_filter qw_visible (snd d) = qw_settle (map_of (qv_pending_requests sv)) f @ List.map_filter qw_visible (snd ?a)"
    using r(5) [of "f_pid f" "f_status f" "f_seq f" "f_body f"]
    by (simp add: d List.map_filter_def del: qw_settle.simps)
  ultimately show ?thesis
    using s(1) by (simp add: qw_abs_def del: qw_settle.simps flip: out)
qed

lemma session_header_read:
  assumes "map_of (qv_objs sv) i = Some s" and "qs_reading s = Some RdHeader" and "wf_frame f"
  shows "map_of (qv_objs (fst (session_deliver now i sv (be_bytes (of_nat (10 + length (f_body f))))))) i =
      Some (s\<lparr>qs_reading := Some (RdBody (10 + length (f_body f))), qs_message_buffer := resize (6 + length (f_body f)) (qs_message_buffer s)\<rparr>)"
    and "snd (session_deliver now i sv (be_bytes (of_nat (10 + length (f_body f))))) = [QeStartRead i (RdBody (10 + length (f_body f)))]"
    and "qv_pending_requests (fst (session_deliver now i sv (be_bytes (of_nat (10 + length (f_body f)))))) = qv_pending_requests sv"
    and "qv_host (fst (session_deliver now i sv (be_bytes (of_nat (10 + length (f_body f)))))) = qv_host sv"
proof -
  let ?n = "of_nat (10 + length (f_body f)) :: u32"
  have "\<not> ?n < 10" "unat ?n = 10 + length (f_body f)"
    using wf_frame_total [OF assms(3)] by (simp_all add: word_less_nat_alt)
  then show "map_of (qv_objs (fst (session_deliver now i sv (be_bytes ?n)))) i =
      Some (s\<lparr>qs_reading := Some (RdBody (10 + length (f_body f))), qs_message_buffer := resize (6 + length (f_body f)) (qs_message_buffer s)\<rparr>)"
    "snd (session_deliver now i sv (be_bytes ?n)) = [QeStartRead i (RdBody (10 + length (f_body f)))]"
    "qv_pending_requests (fst (session_deliver now i sv (be_bytes ?n))) = qv_pending_requests sv"
    "qv_host (fst (session_deliver now i sv (be_bytes ?n))) = qv_host sv"
    using assms(1,2) by (simp_all add: session_deliver_def session_onLength_def session_do_read_body_def session_read_def
        Let_def del: of_nat_add)
qed

lemma session_one_frame_qwen:
  assumes "qw_idle h i sv" and "wf_frame f"
  shows "\<exists>sv' os. feed (session_want i) (session_deliver now i) 2 sv (encode_frame f @ rest) = (sv', os, rest)
    \<and> qw_idle h i sv' \<and> (qw_abs i sv', List.map_filter qw_visible os) = qw_spec h i (qw_abs i sv) f"
proof -
  from assms(1) obtain s where s: "map_of (qv_objs sv) i = Some s" "qs_reading s = Some RdHeader"
    and P: "omap_inv (qv_pending_requests sv)" and h: "qv_host sv = h"
    by (auto simp: qw_idle_def)
  let ?l = "be_bytes (of_nat (10 + length (f_body f)))"
  let ?m = "[f_pid f, f_status f] @ be_bytes (f_seq f) @ f_body f"
  let ?sv = "fst (session_deliver now i sv ?l)"
  let ?d = "session_deliver now i ?sv ?m"
  note hr = session_header_read [OF s assms(2), of now]
  have enc: "encode_frame f @ rest = ?l @ ?m @ rest"
    by (simp add: encode_frame_def frame_header_def)
  have cut: "take (6 + length (f_body f)) (f_pid f # f_status f # be_bytes (f_seq f) @ f_body f @ rest) =
        f_pid f # f_status f # be_bytes (f_seq f) @ f_body f"
      "drop (6 + length (f_body f)) (f_pid f # f_status f # be_bytes (f_seq f) @ f_body f @ rest) = rest"
    by (simp_all add: take_Cons' drop_Cons')
  have want: "session_want i sv = Some 4" "session_want i ?sv = Some (6 + length (f_body f))"
    using s hr(1) by (simp_all add: session_want_def)
  have "feed (session_want i) (session_deliver now i) 2 sv (encode_frame f @ rest) =
      (fst ?d, QeStartRead i (RdBody (10 + length (f_body f))) # snd ?d, rest)"
    unfolding enc using want hr(2) by (simp add: numeral_2_eq_2 case_prod_beta cut del: of_nat_add)
  moreover have "qw_idle h i (fst ?d) \<and> (qw_abs i (fst ?d), List.map_filter qw_visible (snd ?d)) = qw_spec h i (qw_abs i ?sv) f"
    by (rule session_body_read [OF hr(1)]) (simp_all add: hr(3,4) P h del: of_nat_add)
  moreover have "qw_abs i ?sv = qw_abs i sv"
    using hr s by (simp add: qw_abs_def qs_abs_def)
  ultimately show ?thesis by (simp add: List.map_filter_def del: of_nat_add)
qed

interpretation qwen_reader: framed_reader "session_want i" "session_deliver now i" encode_frame wf_frame
    "\<lambda>_. 2" "qw_idle h i" "qw_abs i" qw_visible "qw_spec h i" for h i now
  by unfold_locales (rule session_one_frame_qwen)

text \<open>
  C24: a session that waits for a length handles every stream of well-formed packets as the
  specification does, in two reads per packet: a packet settles the request whose number it carries,
  the requests of the peer are answered in order, and exactly the bytes of the packets are taken off
  the stream.
\<close>

theorem qwen_session_refines_spec:
  assumes "qw_idle h i sv" and "list_all wf_frame fs"
  shows "\<exists>sv' os. feed (session_want i) (session_deliver now i) (2 * length fs) sv (wire encode_frame fs @ rest) = (sv', os, rest)
    \<and> qw_idle h i sv' \<and> (qw_abs i sv', List.map_filter qw_visible os) = run (qw_spec h i) (qw_abs i sv) fs"
proof -
  have "sum_list (map (\<lambda>_. 2) fs) = 2 * length fs"
    by (simp add: sum_list_triv)
  with qwen_reader.many_frames [OF assms, of now rest] show ?thesis by simp
qed

text \<open>A server that has accepted a session, whose first heartbeat is being written.\<close>

definition qw_sample :: qw_server where
  "qw_sample = fst (run server_step (server_new LittleEndian 300)
     [(5, QvAccept None (Some ''a'')), (5, QvTask 1), (6, QvSend 1 PKT_SUBMIT_REQ [7] (Some 42) PKT_SUBMIT_RESP)])"

lemma qw_sample_eq:
  "qw_sample = \<lparr>qv_host = LittleEndian, qv_sessions = [(1, ())],
     qv_session_metadata = [(1, \<lparr>sm_ip_address = ''a'', sm_connection_time = 5, sm_last_active_time = 5\<rparr>)],
     qv_session_start_times = [(1, 5)], qv_sequence_generator = 3,
     qv_pending_requests = [(2, \<lparr>pr_callback = 42, pr_expected_type = PKT_SUBMIT_RESP\<rparr>)],
     qv_max_idle_time_seconds = 300, qv_active_sessions_count = 1, qv_total_session_time = 0, qv_id_counter = 2,
     qv_objs = [(1, \<lparr>qs_message_buffer = [], qs_write_queue = [qw_packet LittleEndian PKT_HEARTBEAT_REQ 0 1 []],
       qs_last_heartbeat_seq = 1, qs_reading = Some RdHeader, qs_writing = True,
       qs_tasks = [QtWrite (qw_packet LittleEndian PKT_SUBMIT_REQ 0 2 [7])], qs_heartbeats = 1\<rparr>)],
     qv_waits = [2]\<rparr>"
  by code_simp

lemma qw_sample_idle: "qw_idle LittleEndian 1 qw_sample"
  by (simp add: qw_idle_def qw_sample_eq omap_inv_def)

definition qw_sample_frames :: "frame list" where
  "qw_sample_frames = [\<lparr>f_pid = PKT_SUBMIT_RESP, f_status = 0, f_seq = 2, f_body = [9]\<rparr>,
     \<lparr>f_pid = PKT_HEARTBEAT_RESP, f_status = 0, f_seq = 1, f_body = []\<rparr>]"

theorem qwen_session_refines_spec_witness:
  "\<exists>sv' os. feed (session_want 1) (session_deliver 7 1) 4 qw_sample (wire encode_frame qw_sample_frames @ [8]) = (sv', os, [8])
    \<and> map_of (qv_pending_requests sv') 2 = None
    \<and> List.map_filter qw_visible os = [QeTimerCancel 2, QeCallback 42 2 [9] 0, QeHeartbeatCancel 1]"
proof -
  have len: "length qw_sample_frames = 2" and wf: "list_all wf_frame qw_sample_frames"
    by (simp_all add: qw_sample_frames_def wf_frame_def)
  from qwen_session_refines_spec [OF qw_sample_idle wf, of 7 "[8]"] obtain sv' os where
    f: "feed (session_want 1) (session_deliver 7 1) 4 qw_sample (wire encode_frame qw_sample_frames @ [8]) = (sv', os, [8])"
    and r: "(qw_abs 1 sv', List.map_filter qw_visible os) = run (qw_spec LittleEndian 1) (qw_abs 1 qw_sample) qw_sample_frames"
    by (auto simp: len)
  have "snd (run (qw_spec LittleEndian 1) (qw_abs 1 qw_sample) qw_sample_frames) = [QeTimerCancel 2, QeCallback 42 2 [9] 0, QeHeartbeatCancel 1]"
      "fst (fst (run (qw_spec LittleEndian 1) (qw_abs 1 qw_sample) qw_sample_frames)) 2 = None"
    by (simp_all add: qw_abs_def qs_abs_def qw_sample_eq qw_sample_frames_def response_type_def PKT_defs)
  with f show ?thesis
    unfolding r [symmetric] by (auto simp: qw_abs_def)
qed

lemma session_short_length:
  assumes "map_of (qv_objs sv) i = Some s" and "qs_reading s = Some RdHeader" and "length d = 4" and "be_val d < 10"
  shows "map_of (qv_objs (fst (session_deliver now i sv d))) = (map_of (qv_objs sv))(i \<mapsto> s\<lparr>qs_reading := None\<rparr>)"
    and "snd (session_deliver now i sv d) = []"
    and "qv_pending_requests (fst (session_deliver now i sv d)) = qv_pending_requests sv"
  using assms by (simp_all add: session_deliver_def session_onLength_def Let_def)

text \<open>
  A reader of this kind that is sent a packet by a writer of this kind handles the packet, takes
  the four bytes after it for the length of the next one, and asks for nothing more: whatever is
  sent after the first packet is not read, and the session is gone.
\<close>

theorem qwen_second_packet_lost:
  assumes "qw_idle h i sv" and "14 + length payload < 2 ^ 32"
    and "f = \<lparr>f_pid = type, f_status = status, f_seq = sq, f_body = payload\<rparr>"
  shows "\<exists>sv' os. feed (session_want i) (session_deliver now i) (3 + k) sv (qw_packet h' type status sq payload @ rest) = (sv', os, rest)
    \<and> session_want i sv' = None \<and> (qw_abs i sv', List.map_filter qw_visible os) = qw_spec h i (qw_abs i sv) f"
proof -
  have wf: "wf_frame f"
    using assms(2,3) by (simp add: wf_frame_def)
  have bytes: "qw_packet h' type status sq payload @ rest = encode_frame f @ ([0, 0, 0, 0] @ rest)"
    by (simp add: qw_packet_frame [OF assms(2)] assms(3))
  obtain sv1 os where 1: "feed (session_want i) (session_deliver now i) 2 sv (encode_frame f @ ([0, 0, 0, 0] @ rest)) = (sv1, os, [0, 0, 0, 0] @ rest)"
    and idle: "qw_idle h i sv1" and spec: "(qw_abs i sv1, List.map_filter qw_visible os) = qw_spec h i (qw_abs i sv) f"
    using session_one_frame_qwen [OF assms(1) wf] by blast
  from idle obtain s where s: "map_of (qv_objs sv1) i = Some s" "qs_reading s = Some RdHeader"
    by (auto simp: qw_idle_def)
  have "be_val [0, 0, 0, 0] < (10 :: u32)"
    by code_simp
  note short = session_short_length [OF s _ this, of now, simplified]
  let ?sv = "fst (session_deliver now i sv1 [0, 0, 0, 0])"
  have want: "session_want i sv1 = Some 4" "session_want i ?sv = None"
    using s short(1) by (simp_all add: session_want_def)
  have "feed (session_want i) (session_deliver now i) (Suc k) sv1 ([0, 0, 0, 0] @ rest) = (?sv, [], rest)"
    using want short(2) by (cases k) (simp_all add: case_prod_beta)
  moreover have "3 + k = 2 + Suc k"
    by simp
  ultimately have "feed (session_want i) (session_deliver now i) (3 + k) sv (encode_frame f @ ([0, 0, 0, 0] @ rest)) = (?sv, os, rest)"
    by (simp only: feed_add 1) simp
  moreover have "qw_abs i ?sv = qw_abs i sv1"
    using s short(1,3) by (simp add: qw_abs_def qs_abs_def)
  ultimately show ?thesis
    unfolding bytes using want(2) spec by simp
qed

theorem qwen_second_packet_lost_witness:
  "\<exists>sv' os. feed (session_want 1) (session_deliver 7 1) 13 qw_sample
      (qw_packet BigEndian PKT_SUBMIT_RESP 0 2 [9] @ qw_packet BigEndian PKT_HEARTBEAT_RESP 0 1 []) = (sv', os, qw_packet BigEndian PKT_HEARTBEAT_RESP 0 1 [])
    \<and> session_want 1 sv' = None \<and> List.map_filter qw_visible os = [QeTimerCancel 2, QeCallback 42 2 [9] 0]"
proof -
  from qwen_second_packet_lost [OF qw_sample_idle _ refl, of "[9]" 7 10 BigEndian PKT_SUBMIT_RESP 0 2 "qw_packet BigEndian PKT_HEARTBEAT_RESP 0 1 []"]
  obtain sv' os where
    f: "feed (session_want 1) (session_deliver 7 1) 13 qw_sample
      (qw_packet BigEndian PKT_SUBMIT_RESP 0 2 [9] @ qw_packet BigEndian PKT_HEARTBEAT_RESP 0 1 []) = (sv', os, qw_packet BigEndian PKT_HEARTBEAT_RESP 0 1 [])"
    and w: "session_want 1 sv' = None"
    and r: "(qw_abs 1 sv', List.map_filter qw_visible os) =
      qw_spec LittleEndian 1 (qw_abs 1 qw_sample) \<lparr>f_pid = PKT_SUBMIT_RESP, f_status = 0, f_seq = 2, f_body = [9]\<rparr>"
    by auto
  have "snd (qw_spec LittleEndian 1 (qw_abs 1 qw_sample) \<lparr>f_pid = PKT_SUBMIT_RESP, f_status = 0, f_seq = 2, f_body = [9]\<rparr>)
      = [QeTimerCancel 2, QeCallback 42 2 [9] 0]"
    by (simp add: qw_abs_def qs_abs_def qw_sample_eq response_type_def PKT_defs)
  with f w show ?thesis
    unfolding r [symmetric] by auto
qed

text \<open>
  Only the handlers of reads keep a session alive. When a length below ten stops the reading
  while a write is outstanding, the session is destroyed, and the handler of the write, whether it
  succeeded or not, uses it all the same.
\<close>

theorem qwen_dangling_write:
  assumes "map_of (qv_objs sv) i = Some s" and "qs_reading s = Some RdHeader" and "qs_writing s"
    and "length d = 4" and "be_val d < 10"
  shows "allowed server_ok server_step sv [(now, QvRead i None d), (now', QvWrite i ec)]
    \<and> QeDangling i \<in> set (snd (run server_step sv [(now, QvRead i None d), (now', QvWrite i ec)]))"
proof -
  let ?sv = "fst (session_deliver now i sv d)"
  have s': "map_of (qv_objs ?sv) i = Some (s\<lparr>qs_reading := None\<rparr>)"
    using session_short_length(1) [OF assms(1,2,4,5), of now] by simp
  then have "snd (server_step ?sv (now', QvWrite i ec)) = [QeDangling i]"
    by (simp add: session_onWrite_def qs_alive_def)
  moreover have "session_want i sv = Some 4"
    using assms(1,2) by (simp add: session_want_def)
  ultimately show ?thesis
    using assms(1-4) s' by (simp add: session_deliver_def del: server_step.simps)
qed

theorem qwen_dangling_write_witness:
  "QeDangling 1 \<in> set (snd (run server_step qw_sample [(9, QvRead 1 None [0, 0, 0, 0]), (9, QvWrite 1 (Some operation_aborted))]))"
proof -
  have "be_val [0, 0, 0, 0] < (10 :: u32)"
    by code_simp
  then show ?thesis
    using qwen_dangling_write [of qw_sample 1 _ "[0, 0, 0, 0]" 9 9 "Some operation_aborted"] by (simp add: qw_sample_eq)
qed

end
