(* ===== verification/QwenTables.thy ===== *)
theory QwenTables
  imports QwenProps
begin

text \<open>
  The tables of the length-prefixed server: which sessions it knows, how many it counts, and which
  requests wait for a response. Procedures that only touch one session are separated from those
  that change the tables; the invariant then has to be shown for the latter only.
\<close>

section \<open>Procedures that stay within a session\<close>

fun qw_callback_of :: "u32 \<Rightarrow> qw_effect \<Rightarrow> bool" where
  "qw_callback_of q (QeCallback cb sq d st) = (sq = q)"
| "qw_callback_of q _ = False"

fun qw_wait_of :: "u32 \<Rightarrow> qw_effect \<Rightarrow> bool" where
  "qw_wait_of q (QeTimerWait sq) = (sq = q)"
| "qw_wait_of q _ = False"

definition qw_tables where
  "qw_tables sv = (qv_sessions sv, qv_session_metadata sv, qv_session_start_times sv, qv_pending_requests sv,
     qv_max_idle_time_seconds sv, qv_active_sessions_count sv, qv_total_session_time sv, qv_id_counter sv, qv_waits sv)"

definition qw_local :: "qw_proc \<Rightarrow> bool" where
  "qw_local p \<longleftrightarrow> (\<forall>sv. qw_tables (fst (p sv)) = qw_tables sv \<and> dom (map_of (qv_objs (fst (p sv)))) = dom (map_of (qv_objs sv))
     \<and> (\<forall>q. occurs (qw_callback_of q) (snd (p sv)) = 0 \<and> occurs (qw_wait_of q) (snd (p sv)) = 0))"

lemma qw_local_basic [intro!, simp]:
  "qw_local skip" "qw_local (qs_update i f)" "qw_local server_next_sequence"
  by (auto simp: qw_local_def qw_tables_def server_next_sequence_def split: if_splits)

lemma qw_local_emit [simp]:
  "qw_local (emit x) \<longleftrightarrow> (\<forall>q. \<not> qw_callback_of q x \<and> \<not> qw_wait_of q x)"
  by (auto simp: qw_local_def)

lemma qw_local_seqs [intro]: "list_all qw_local ps \<Longrightarrow> qw_local (seqs ps)"
  by (induction ps) (auto simp: qw_local_def)

lemma qw_local_if [intro]:
  "qw_local p \<Longrightarrow> qw_local (if_do b p)"
  "qw_local p \<Longrightarrow> qw_local p' \<Longrightarrow> qw_local (if b then p else p')"
  by (auto simp: qw_local_def if_do_def)

lemma qw_local_on_session [intro]: "(\<And>s. qw_local (f s)) \<Longrightarrow> qw_local (on_session i f)"
  by (auto simp: qw_local_def on_session_def split: option.splits)

lemma qw_localI: "(\<And>sv. qw_local (g sv)) \<Longrightarrow> (\<And>sv. f sv = g sv sv) \<Longrightarrow> qw_local f"
  by (auto simp: qw_local_def)

lemma qw_local_do_write: "qw_local (session_do_write i)"
  unfolding session_do_write_def by (intro qw_local_on_session) (auto split: list.splits)

lemma qw_local_push: "qw_local (session_push i d)"
  unfolding session_push_def by (intro qw_local_on_session qw_local_seqs) (auto intro: qw_local_do_write)

lemma qw_local_send_packet: "qw_local (session_send_packet ctx i t st sq pl)"
proof (rule qw_localI)
  show "qw_local (session_post_write ctx i (qw_packet (qv_host sv) t st sq pl))" for sv
    by (auto simp: session_post_write_def intro: qw_local_push)
qed (simp add: session_send_packet_def)

lemma qw_local_graceful_close: "qw_local (session_graceful_close ctx i)"
  by (rule qw_localI [where g = "\<lambda>sv. seqs [server_next_sequence,
      session_send_packet ctx i PKT_UNBIND_RESP 0 (qv_sequence_generator sv) [], emit (QeShutdown i)]"])
    (auto simp: session_graceful_close_def qw_local_send_packet)

lemma qw_local_start_heartbeat: "qw_local (session_start_heartbeat ctx i)"
  by (rule qw_localI [where g = "\<lambda>sv. let sq = qv_sequence_generator sv in
      seqs [qs_update i (\<lambda>s. s\<lparr>qs_heartbeats := qs_heartbeats s + 1\<rparr>), emit (QeHeartbeatWait i),
        server_next_sequence, qs_update i (\<lambda>s. s\<lparr>qs_last_heartbeat_seq := sq\<rparr>),
        session_send_packet ctx i PKT_HEARTBEAT_REQ 0 sq []]"])
    (auto simp: session_start_heartbeat_def Let_def qw_local_send_packet)

lemma qw_local_read:
  "qw_local (session_do_read_length i)" "qw_local (session_do_read_body i n)"
  by (auto simp: session_do_read_length_def session_do_read_body_def session_read_def)

lemma qw_local_reply: "qw_local (session_reply i t sq)"
  unfolding session_reply_def by (intro qw_local_if qw_local_on_session qw_local_send_packet) auto

lemma qw_local_start: "qw_local (session_start i)"
  by (auto simp: session_start_def qw_local_read qw_local_start_heartbeat)

lemmas qw_locals =
  qw_local_do_write qw_local_push qw_local_send_packet qw_local_graceful_close qw_local_start_heartbeat qw_local_read
  qw_local_reply qw_local_start

section \<open>The invariant\<close>

definition qw_drift :: "qw_server \<Rightarrow> int" where
  "qw_drift sv = int (card (dom (map_of (qv_session_metadata sv)))) - qv_active_sessions_count sv"

definition qw_tables_ok :: "qw_server \<Rightarrow> bool" where
  "qw_tables_ok sv \<longleftrightarrow>
     omap_inv (qv_sessions sv) \<and> omap_inv (qv_session_metadata sv) \<and> omap_inv (qv_session_start_times sv)
     \<and> omap_inv (qv_pending_requests sv)
     \<and> dom (map_of (qv_sessions sv)) = dom (map_of (qv_session_metadata sv))
     \<and> dom (map_of (qv_session_start_times sv)) = dom (map_of (qv_session_metadata sv))
     \<and> dom (map_of (qv_session_metadata sv)) \<subseteq> dom (map_of (qv_objs sv))"

definition qw_inv :: "int \<Rightarrow> u32 \<Rightarrow> qw_server \<Rightarrow> qw_effect list \<Rightarrow> bool" where
  "qw_inv k q sv os \<longleftrightarrow> qw_tables_ok sv \<and> k \<le> qw_drift sv
     \<and> occurs (qw_callback_of q) os + of_bool (q \<in> dom (map_of (qv_pending_requests sv))) \<le> occurs (qw_wait_of q) os"

definition qw_keeps :: "qw_proc \<Rightarrow> bool" where
  "qw_keeps p \<longleftrightarrow> (\<forall>k q sv os. qw_inv k q sv os \<longrightarrow> qw_inv k q (fst (p sv)) (os @ snd (p sv)))"

lemma qw_local_keeps: "qw_local p \<Longrightarrow> qw_keeps p"
  by (auto simp: qw_keeps_def qw_local_def qw_tables_def qw_inv_def qw_tables_ok_def qw_drift_def)

lemma qw_keeps_seqs [intro]: "list_all qw_keeps ps \<Longrightarrow> qw_keeps (seqs ps)"
proof (induction ps)
  case Nil
  show ?case by (simp add: qw_keeps_def)
next
  case (Cons p ps)
  show ?case
    unfolding qw_keeps_def
  proof (intro allI impI)
    fix k q sv os assume "qw_inv k q sv os"
    with Cons.prems have "qw_inv k q (fst (p sv)) (os @ snd (p sv))"
      by (simp add: qw_keeps_def)
    moreover have "qw_keeps (seqs ps)"
      using Cons by simp
    ultimately have "qw_inv k q (fst (seqs ps (fst (p sv)))) ((os @ snd (p sv)) @ snd (seqs ps (fst (p sv))))"
      unfolding qw_keeps_def by blast
    then show "qw_inv k q (fst (seqs (p # ps) sv)) (os @ snd (seqs (p # ps) sv))"
      by simp
  qed
qed

lemma qw_keeps_if [intro]:
  "qw_keeps p \<Longrightarrow> qw_keeps (if_do b p)"
  "qw_keeps p \<Longrightarrow> qw_keeps p' \<Longrightarrow> qw_keeps (if b then p else p')"
  by (auto simp: qw_keeps_def if_do_def)

lemma qw_keeps_on_session [intro]: "(\<And>s. qw_keeps (f s)) \<Longrightarrow> qw_keeps (on_session i f)"
  by (auto simp: qw_keeps_def on_session_def split: option.splits)

lemma qw_keepsI: "(\<And>sv. qw_keeps (g sv)) \<Longrightarrow> (\<And>sv. f sv = g sv sv) \<Longrightarrow> qw_keeps f"
  by (auto simp: qw_keeps_def)

lemma qw_keeps_if_state: "qw_keeps p \<Longrightarrow> qw_keeps (\<lambda>sv. if_do (b sv) p sv)"
  by (auto simp: qw_keeps_def if_do_def)

section \<open>Procedures that change the tables\<close>

text \<open>A session leaves the three tables together, and is counted out.\<close>

lemma qw_inv_drop:
  assumes "qw_inv k q sv os"
    and "qv_sessions sv' = AList.delete i (qv_sessions sv)" "qv_session_metadata sv' = AList.delete i (qv_session_metadata sv)"
      "qv_session_start_times sv' = AList.delete i (qv_session_start_times sv)" "qv_pending_requests sv' = qv_pending_requests sv"
      "dom (map_of (qv_objs sv')) = dom (map_of (qv_objs sv))" "qv_active_sessions_count sv' = qv_active_sessions_count sv - 1"
  shows "qw_inv k q sv' os"
proof -
  let ?M = "dom (map_of (qv_session_metadata sv))"
  have "int (card ?M) - 1 \<le> int (card (?M - {i}))"
    by (simp add: card_Diff_singleton_if finite_dom_map_of) linarith
  with assms show ?thesis
    by (auto simp: qw_inv_def qw_tables_ok_def qw_drift_def omap.look_del omap.inv_del)
qed

lemma delete_absent: "map_of m k = None \<Longrightarrow> AList.delete k m = m"
  by (simp add: AList.delete_idem map_of_eq_None_iff)

lemma server_forget_simps:
  "qv_sessions (server_forget now i sv) = qv_sessions sv"
  "qv_pending_requests (server_forget now i sv) = qv_pending_requests sv"
  "qv_objs (server_forget now i sv) = qv_objs sv"
  "qv_active_sessions_count (server_forget now i sv) = qv_active_sessions_count sv"
  "qv_session_metadata (server_forget now i sv) = AList.delete i (qv_session_metadata sv)"
  by (auto simp: server_forget_def Let_def delete_absent split: option.splits)

lemma server_forget_start_times:
  assumes "dom (map_of (qv_session_start_times sv)) = dom (map_of (qv_session_metadata sv))"
  shows "qv_session_start_times (server_forget now i sv) = AList.delete i (qv_session_start_times sv)"
proof (cases "map_of (qv_session_metadata sv) i")
  case None
  with assms have "map_of (qv_session_start_times sv) i = None"
    by auto
  with None show ?thesis by (simp add: server_forget_def delete_absent)
next
  case (Some m)
  then show ?thesis
    by (auto simp: server_forget_def Let_def delete_absent split: option.splits)
qed

lemma remove_session_effects:
  "snd (server_remove_session now ctx i sv) =
     snd (if_do (map_of (qv_sessions sv) i \<noteq> None \<and> qw_lock ctx i sv) (session_graceful_close ctx i) sv)"
  by (cases "map_of (qv_sessions sv) i") (simp_all add: server_remove_session_def)

lemma remove_session_state:
  assumes "sv1 = fst (if_do (map_of (qv_sessions sv) i \<noteq> None \<and> qw_lock ctx i sv) (session_graceful_close ctx i) sv)"
  shows "fst (server_remove_session now ctx i sv) =
     (let sv' = server_forget now i (sv1\<lparr>qv_sessions := AList.delete i (qv_sessions sv1)\<rparr>)
      in sv'\<lparr>qv_active_sessions_count := qv_active_sessions_count sv' - 1\<rparr>)"
  by (cases "map_of (qv_sessions sv) i") (simp_all add: server_remove_session_def Let_def delete_absent assms)

lemma qw_keeps_remove: "qw_keeps (server_remove_session now ctx i)"
  unfolding qw_keeps_def
proof (intro allI impI)
  fix k q sv os assume inv: "qw_inv k q sv os"
  let ?p = "if_do (map_of (qv_sessions sv) i \<noteq> None \<and> qw_lock ctx i sv) (session_graceful_close ctx i)"
  have "qw_keeps ?p"
    by (intro qw_keeps_if qw_local_keeps qw_local_graceful_close)
  with inv have inv1: "qw_inv k q (fst (?p sv)) (os @ snd (?p sv))"
    unfolding qw_keeps_def by blast
  then have "dom (map_of (qv_session_start_times (fst (?p sv)))) = dom (map_of (qv_session_metadata (fst (?p sv))))"
    by (simp add: qw_inv_def qw_tables_ok_def)
  with inv1 show "qw_inv k q (fst (server_remove_session now ctx i sv)) (os @ snd (server_remove_session now ctx i sv))"
    unfolding remove_session_effects remove_session_state [OF refl] Let_def
    by (intro qw_inv_drop [OF inv1]) (simp_all add: server_forget_simps server_forget_start_times)
qed

lemma qw_inv_expire: "qw_inv k q sv os \<Longrightarrow> qw_inv k q (server_expire_loop now l sv) os"
proof (induction now l sv rule: server_expire_loop.induct)
  case (1 now sv)
  then show ?case by simp
next
  case (2 now i m l sv)
  let ?sv1 = "sv\<lparr>qv_sessions := AList.delete i (qv_sessions sv)\<rparr>"
  let ?sv2 = "case map_of (qv_session_start_times ?sv1) i of
      None \<Rightarrow> ?sv1
    | Some t \<Rightarrow> ?sv1\<lparr>qv_total_session_time := qv_total_session_time ?sv1 + (now - t),
        qv_session_start_times := AList.delete i (qv_session_start_times ?sv1)\<rparr>"
  let ?sv3 = "?sv2\<lparr>qv_session_metadata := AList.delete i (qv_session_metadata ?sv2)\<rparr>"
  have "qw_inv k q (?sv3\<lparr>qv_active_sessions_count := qv_active_sessions_count ?sv3 - 1\<rparr>) os"
    by (rule qw_inv_drop [OF "2.prems"]) (auto simp: delete_absent split: option.split)
  with 2 show ?case by (simp add: Let_def)
qed

lemma qw_keeps_expiration: "qw_keeps (server_onExpiration now)"
proof -
  have "qw_keeps (server_check_expired_sessions now)"
    by (simp add: qw_keeps_def server_check_expired_sessions_def qw_inv_expire)
  then show ?thesis
    by (auto simp: server_onExpiration_def server_start_expiration_timer_def qw_local_keeps)
qed

lemma qw_keeps_touch: "qw_keeps (server_update_last_active_time now i)"
  unfolding qw_keeps_def
proof (intro allI impI)
  fix k q sv os assume inv: "qw_inv k q sv os"
  show "qw_inv k q (fst (server_update_last_active_time now i sv)) (os @ snd (server_update_last_active_time now i sv))"
  proof (cases "map_of (qv_session_metadata sv) i")
    case None
    with inv show ?thesis by (simp add: server_update_last_active_time_def)
  next
    case (Some m)
    have "dom (map_of (omap_put i (m\<lparr>sm_last_active_time := now\<rparr>) (qv_session_metadata sv))) = dom (map_of (qv_session_metadata sv))"
      using Some by (auto simp: map_of_omap_put)
    with inv Some show ?thesis
      by (simp add: server_update_last_active_time_def qw_inv_def qw_tables_ok_def qw_drift_def omap_inv_put)
  qed
qed

lemma qw_keeps_register: "qw_keeps (server_register sq cb expected)"
  by (cases cb) (auto simp: qw_keeps_def server_register_def qw_inv_def qw_tables_ok_def qw_drift_def omap_inv_put map_of_omap_put
      of_bool_def split: if_splits)

lemma qw_keeps_handle_response: "qw_keeps (server_handle_response t st sq pl)"
  by (auto simp: qw_keeps_def server_handle_response_def qw_inv_def qw_tables_ok_def qw_drift_def omap.look_del omap.inv_del
      of_bool_def split: if_splits option.splits)

lemma qw_keeps_timer: "qw_keeps (server_onTimer sq ec)"
  by (auto simp: qw_keeps_def server_onTimer_def qw_inv_def qw_tables_ok_def qw_drift_def omap.look_del omap.inv_del
      of_bool_def split: if_splits option.splits)

lemma qw_keeps_send_to: "qw_keeps (server_send_request_to_session ctx i t pl cb ex)"
proof (rule qw_keepsI)
  let ?send = "\<lambda>sq sv. if_do (server_get_session ctx i sv) (session_send_packet ctx i t 0x00 sq pl) sv"
  show "qw_keeps (seqs [server_next_sequence, server_register (qv_sequence_generator sv) cb ex, ?send (qv_sequence_generator sv)])" for sv
  proof (intro qw_keeps_seqs)
    have "qw_keeps (?send sq)" for sq
      by (intro qw_keeps_if_state qw_local_keeps qw_local_send_packet)
    then show "list_all qw_keeps [server_next_sequence, server_register (qv_sequence_generator sv) cb ex, ?send (qv_sequence_generator sv)]"
      by (simp add: qw_keeps_register qw_local_keeps)
  qed
qed (simp add: server_send_request_to_session_def Let_def)

lemma qw_keeps_send_all: "qw_keeps (server_send_request_to_all ctx t pl cb ex)"
proof (rule qw_keepsI)
  let ?one = "\<lambda>sq i sv. if_do (qw_lock ctx i sv) (session_send_packet ctx i t 0x00 sq pl) sv"
  let ?send = "\<lambda>sq sv. seqs (map (\<lambda>(i, _). ?one sq i) (qv_sessions sv)) sv"
  show "qw_keeps (seqs [server_next_sequence, server_register (qv_sequence_generator sv) cb ex, ?send (qv_sequence_generator sv)])" for sv
  proof (intro qw_keeps_seqs)
    have one: "qw_keeps (?one sq i)" for sq i
      by (intro qw_keeps_if_state qw_local_keeps qw_local_send_packet)
    have "qw_keeps (?send sq)" for sq
    proof (rule qw_keepsI)
      show "qw_keeps (seqs (map (\<lambda>(i, _). ?one sq i) (qv_sessions sv)))" for sv
        by (rule qw_keeps_seqs) (auto simp: list_all_iff one)
    qed simp
    then show "list_all qw_keeps [server_next_sequence, server_register (qv_sequence_generator sv) cb ex, ?send (qv_sequence_generator sv)]"
      by (simp add: qw_keeps_register qw_local_keeps)
  qed
qed (simp add: server_send_request_to_all_def Let_def)

lemma qw_keeps_handle_packet: "qw_keeps (session_handle_packet i n)"
  unfolding session_handle_packet_def Let_def
proof (rule qw_keeps_on_session)
  fix s
  let ?m = "qs_message_buffer s"
  let ?sq = "\<lambda>sv. ntohl (qv_host sv) (u32_mem (qv_host sv) (take 4 (drop 2 ?m)))"
  have "qw_keeps (seqs [server_handle_response (?m ! 0) (?m ! 1) sq (drop 6 ?m), session_reply i (?m ! 0) sq])" for sq
    by (intro qw_keeps_seqs) (simp add: qw_keeps_handle_response qw_local_keeps qw_local_reply)
  then show "qw_keeps (\<lambda>sv. if length ?m \<noteq> n - 4 then skip sv
      else seqs [server_handle_response (?m ! 0) (?m ! 1) (?sq sv) (drop 6 ?m), session_reply i (?m ! 0) (?sq sv)] sv)"
    by (cases "length ?m = n - 4") (simp_all add: qw_keeps_def)
qed

lemma qw_keeps_accept:
  assumes "qw_inv k q sv os" and "map_of (qv_objs sv) (qv_id_counter sv) = None"
  shows "qw_inv k q (fst (server_onAccept now ec peer sv)) (os @ snd (server_onAccept now ec peer sv))"
proof (cases ec)
  case (Some x)
  with assms(1) show ?thesis
    by (auto simp: server_onAccept_def server_start_accept_def qw_inv_def Let_def of_bool_def split: if_splits)
next
  case None
  let ?i = "qv_id_counter sv"
  let ?m = "\<lparr>sm_ip_address = (case peer of None \<Rightarrow> ''unknown'' | Some ip \<Rightarrow> ip), sm_connection_time = now, sm_last_active_time = now\<rparr>"
  let ?sv = "sv\<lparr>qv_id_counter := ?i + 1, qv_objs := AList.update ?i session_new (qv_objs sv),
      qv_sessions := omap_put ?i () (qv_sessions sv), qv_session_metadata := omap_put ?i ?m (qv_session_metadata sv),
      qv_session_start_times := omap_put ?i now (qv_session_start_times sv),
      qv_active_sessions_count := qv_active_sessions_count sv + 1\<rparr>"
  have "?i \<notin> dom (map_of (qv_session_metadata sv))"
    using assms by (auto simp: qw_inv_def qw_tables_ok_def)
  with assms(1) have "qw_inv k q ?sv os"
    by (auto simp: qw_inv_def qw_tables_ok_def qw_drift_def omap_inv_put map_of_omap_put finite_dom_map_of)
  moreover have "qw_keeps (seqs [session_start ?i, server_start_accept])"
    by (intro qw_keeps_seqs) (simp add: qw_local_keeps qw_local_start server_start_accept_def)
  ultimately have "qw_inv k q (fst (seqs [session_start ?i, server_start_accept] ?sv)) (os @ snd (seqs [session_start ?i, server_start_accept] ?sv))"
    unfolding qw_keeps_def by blast
  with None show ?thesis by (simp add: server_onAccept_def Let_def)
qed

lemma qw_keeps_handlers:
  "qw_keeps (session_onLength now i ec d)" "qw_keeps (session_onBody now i n ec d)"
  "qw_keeps (session_onWrite now i ec)" "qw_keeps (session_onTask i)" "qw_keeps (session_onHeartbeat now i ec)"
proof -
  note [simp] = qw_keeps_seqs qw_local_keeps qw_locals qw_keeps_remove qw_keeps_handle_packet
  show "qw_keeps (session_onLength now i ec d)"
  proof -
    have "qw_keeps (seqs [qs_update i (\<lambda>s. s\<lparr>qs_message_buffer := resize (unat n - 4) (qs_message_buffer s)\<rparr>),
        session_do_read_body i n])" for n
      by simp
    then have "qw_keeps (seqs [qs_update i (\<lambda>s. s\<lparr>qs_reading := None\<rparr>),
        if ec = None
        then (if n < 10 then skip
              else seqs [qs_update i (\<lambda>s. s\<lparr>qs_message_buffer := resize (unat n - 4) (qs_message_buffer s)\<rparr>), session_do_read_body i n])
        else server_remove_session now (QcRead i) i])" for n
      by (intro qw_keeps_seqs) simp
    then show ?thesis
      unfolding qw_keeps_def session_onLength_def Let_def by blast
  qed
  show "qw_keeps (session_onBody now i n ec d)"
    by (auto simp: session_onBody_def)
  show "qw_keeps (session_onWrite now i ec)"
    by (auto simp: session_onWrite_def)
  show "qw_keeps (session_onTask i)"
    by (auto simp: session_onTask_def split: list.splits qw_task.splits)
  show "qw_keeps (session_onHeartbeat now i ec)"
    unfolding session_onHeartbeat_def by (intro qw_keeps_on_session qw_keeps_seqs) (simp add: qw_keeps_if)
qed

lemma qw_inv_step:
  assumes "qw_inv k q sv os" and "server_ok sv ev"
  shows "qw_inv k q (fst (server_step sv ev)) (os @ snd (server_step sv ev))"
proof -
  obtain now e where ev: "ev = (now, e)" by fastforce
  show ?thesis
  proof (cases "\<exists>ec peer. e = QvAccept ec peer")
    case True
    with assms ev show ?thesis by (auto intro: qw_keeps_accept)
  next
    case False
    have "qw_keeps (qw_server_event now e)"
      using False
      by (cases e) (auto simp: qw_keeps_handlers qw_keeps_timer qw_keeps_expiration qw_keeps_send_to qw_keeps_send_all qw_keeps_touch
          qw_local_keeps split: option.splits read_op.splits)
    with assms(1) show ?thesis
      unfolding qw_keeps_def ev by simp
  qed
qed

interpretation qwen: traced_machine server_step server_ok "qw_inv k q" for k q
  by unfold_locales (rule qw_inv_step)

lemma qw_inv_new: "qw_inv 0 q (server_new h idle) []"
  by (simp add: qw_inv_def qw_tables_ok_def qw_drift_def server_new_def omap_inv_def)

lemma qw_run_inv:
  "allowed server_ok server_step (server_new h idle) evs \<Longrightarrow>
     qw_inv 0 q (fst (run server_step (server_new h idle) evs)) (snd (run server_step (server_new h idle) evs))"
  using qwen.run_tinv [OF qw_inv_new] by fastforce

text \<open>
  C25: in every run of the server, the tables of sessions, of their metadata and of their start times
  hold the same sessions, and the counter of active sessions is never above their number.
\<close>

theorem qwen_tables_agree:
  assumes "allowed server_ok server_step (server_new h idle) evs" and "sv = fst (run server_step (server_new h idle) evs)"
  shows "dom (map_of (qv_sessions sv)) = dom (map_of (qv_session_metadata sv))
    \<and> dom (map_of (qv_session_start_times sv)) = dom (map_of (qv_session_metadata sv))
    \<and> qv_active_sessions_count sv \<le> int (card (dom (map_of (qv_session_metadata sv))))"
  using qw_run_inv [OF assms(1)] by (simp add: assms(2) qw_inv_def qw_tables_ok_def qw_drift_def)

text \<open>
  C26: the callback of a request is called at most once for every request that was sent with its
  number: by a response, or by the timer.
\<close>

theorem qwen_callback_once:
  assumes "allowed server_ok server_step (server_new h idle) evs"
  shows "occurs (qw_callback_of q) (snd (run server_step (server_new h idle) evs))
    \<le> occurs (qw_wait_of q) (snd (run server_step (server_new h idle) evs))"
  using qw_run_inv [OF assms, of q] by (simp add: qw_inv_def)

text \<open>
  The distance between the number of sessions and their counter never shrinks. Every removal
  of a session that is not in the tables any more adds one, and nothing ever makes up for it.
\<close>

theorem qwen_count_drifts:
  assumes "qw_tables_ok sv" and "allowed server_ok server_step sv evs"
  shows "qw_drift sv \<le> qw_drift (fst (run server_step sv evs))
    \<and> (map_of (qv_session_metadata sv) i = None \<longrightarrow> qw_drift (fst (server_remove_session now ctx i sv)) = qw_drift sv + 1)"
proof (intro conjI impI)
  have "qw_inv (qw_drift sv) 0 sv [QeTimerWait 0]"
    using assms(1) by (simp add: qw_inv_def)
  from qwen.run_tinv [OF this assms(2)] show "qw_drift sv \<le> qw_drift (fst (run server_step sv evs))"
    by (simp add: qw_inv_def)
next
  assume absent: "map_of (qv_session_metadata sv) i = None"
  with assms(1) have "i \<notin> dom (map_of (qv_sessions sv))"
    unfolding qw_tables_ok_def by blast
  then have "map_of (qv_sessions sv) i = None"
    by (simp only: domIff not_not)
  with absent show "qw_drift (fst (server_remove_session now ctx i sv)) = qw_drift sv + 1"
    by (simp add: server_remove_session_def server_forget_def qw_drift_def)
qed

text \<open>
  A session whose write fails and then its read: it is removed twice, and the server counts minus one
  sessions.
\<close>

definition qw_fail :: "(int \<times> qw_event) list" where
  "qw_fail = [(7, QvWrite 1 (Some operation_aborted)), (7, QvRead 1 (Some operation_aborted) [])]"

lemma qw_sample_tables: "qw_tables_ok qw_sample"
  by (simp add: qw_tables_ok_def qw_sample_eq omap_inv_def)

lemma qw_fail_ok: "allowed server_ok server_step qw_sample qw_fail"
  unfolding qw_sample_eq by code_simp

theorem qwen_count_drifts_witness:
  "qw_drift qw_sample \<le> qw_drift (fst (run server_step qw_sample qw_fail))
   \<and> qv_active_sessions_count (fst (run server_step qw_sample qw_fail)) = -1"
proof
  show "qw_drift qw_sample \<le> qw_drift (fst (run server_step qw_sample qw_fail))"
    using qwen_count_drifts [OF qw_sample_tables qw_fail_ok, of 1 0 QcNone] by (rule conjunct1)
  show "qv_active_sessions_count (fst (run server_step qw_sample qw_fail)) = -1"
    unfolding qw_sample_eq by code_simp
qed

definition qw_sample_run :: "(int \<times> qw_event) list" where
  "qw_sample_run = [(5, QvAccept None (Some ''a'')), (5, QvTask 1), (6, QvSend 1 PKT_SUBMIT_REQ [7] (Some 42) PKT_SUBMIT_RESP),
     (9, QvTimer 2 None)]"

lemma qw_sample_run_ok: "allowed server_ok server_step (server_new LittleEndian 300) qw_sample_run"
  by code_simp

theorem qwen_tables_agree_witness:
  "qv_active_sessions_count (fst (run server_step (server_new LittleEndian 300) qw_sample_run))
     \<le> int (card (dom (map_of (qv_session_metadata (fst (run server_step (server_new LittleEndian 300) qw_sample_run))))))
   \<and> map fst (qv_sessions (fst (run server_step (server_new LittleEndian 300) qw_sample_run))) = [1]"
proof
  show "map fst (qv_sessions (fst (run server_step (server_new LittleEndian 300) qw_sample_run))) = [1]"
    by code_simp
qed (use qwen_tables_agree [OF qw_sample_run_ok refl] in blast)

theorem qwen_callback_once_witness:
  "occurs (qw_callback_of 2) (snd (run server_step (server_new LittleEndian 300) qw_sample_run)) = 1"
proof -
  have "occurs (qw_wait_of 2) (snd (run server_step (server_new LittleEndian 300) qw_sample_run)) = 1
    \<and> 0 < occurs (qw_callback_of 2) (snd (run server_step (server_new LittleEndian 300) qw_sample_run))"
    by code_simp
  with qwen_callback_once [OF qw_sample_run_ok, of 2] show ?thesis by simp
qed

section \<open>Expiry\<close>

definition expired_ids :: "int \<Rightarrow> int \<Rightarrow> (u64, SessionMetadata) omap \<Rightarrow> u64 list" where
  "expired_ids now idle l = map fst (filter (\<lambda>(i, m). now - sm_last_active_time m > idle) l)"

lemma expired_ids_simps [simp]:
  "expired_ids now idle [] = []"
  "expired_ids now idle ((i, m) # l) = (if now - sm_last_active_time m > idle then i # expired_ids now idle l else expired_ids now idle l)"
  by (simp_all add: expired_ids_def)

lemma set_expired_ids: "set (expired_ids now idle l) \<subseteq> fst ` set l"
  by (auto simp: expired_ids_def)

lemma distinct_expired_ids: "distinct (map fst l) \<Longrightarrow> distinct (expired_ids now idle l)"
  using set_expired_ids by (induction l) (auto simp: set_expired_ids [THEN subsetD])

lemma expire_loop_tables:
  fixes now l sv
  defines "ks \<equiv> expired_ids now (qv_max_idle_time_seconds sv) l" and "sv' \<equiv> server_expire_loop now l sv"
  shows "qv_sessions sv' = fold AList.delete ks (qv_sessions sv)"
    and "qv_session_metadata sv' = fold AList.delete ks (qv_session_metadata sv)"
    and "qv_active_sessions_count sv' = qv_active_sessions_count sv - int (length ks)"
    and "qv_objs sv' = qv_objs sv" and "qv_pending_requests sv' = qv_pending_requests sv"
  unfolding ks_def sv'_def
  by (induction now l sv rule: server_expire_loop.induct) (auto simp: Let_def split: option.splits)

lemma expire_loop_times:
  assumes "distinct (expired_ids now (qv_max_idle_time_seconds sv) l)"
    and "set (expired_ids now (qv_max_idle_time_seconds sv) l) \<subseteq> dom (map_of (qv_session_start_times sv))"
    and "omap_inv (qv_session_start_times sv)"
  shows "qv_total_session_time (server_expire_loop now l sv) = qv_total_session_time sv +
    (\<Sum>i\<leftarrow>expired_ids now (qv_max_idle_time_seconds sv) l. now - the (map_of (qv_session_start_times sv) i))"
  using assms
proof (induction now l sv rule: server_expire_loop.induct)
  case (1 now sv)
  then show ?case by simp
next
  case (2 now i m l sv)
  show ?case
  proof (cases "now - sm_last_active_time m > qv_max_idle_time_seconds sv")
    case False
    with 2 show ?thesis by simp
  next
    case True
    let ?ks = "expired_ids now (qv_max_idle_time_seconds sv) l"
    obtain t where t: "map_of (qv_session_start_times sv) i = Some t"
      using 2 True by auto
    let ?sv = "sv\<lparr>qv_sessions := AList.delete i (qv_sessions sv), qv_total_session_time := qv_total_session_time sv + (now - t),
      qv_session_start_times := AList.delete i (qv_session_start_times sv), qv_session_metadata := AList.delete i (qv_session_metadata sv),
      qv_active_sessions_count := qv_active_sessions_count sv - 1\<rparr>"
    have same: "map (\<lambda>j. now - the (map_of (AList.delete i (qv_session_start_times sv)) j)) ?ks
        = map (\<lambda>j. now - the (map_of (qv_session_start_times sv) j)) ?ks"
      using 2 True by (auto simp: omap.look_del)
    have "set ?ks \<subseteq> dom (map_of (AList.delete i (qv_session_start_times sv)))"
      using 2 True by (auto simp: omap.look_del)
    then have "qv_total_session_time (server_expire_loop now l ?sv) = qv_total_session_time ?sv +
        (\<Sum>j\<leftarrow>?ks. now - the (map_of (AList.delete i (qv_session_start_times sv)) j))"
      using "2.IH"(1) [OF True refl refl refl] "2.prems" True t by (simp add: omap.inv_del)
    from this [unfolded same] t True show ?thesis by (simp add: Let_def)
  qed
qed

text \<open>
  C27: the expiry check forgets exactly the sessions that have been idle for longer than the limit,
  counts them out, and adds their ages to the total; it does not touch the sessions themselves, which
  go on reading and answering.
\<close>

theorem qwen_expiry_exact:
  assumes "qw_tables_ok sv" and "sv' = fst (server_step sv (now, QvExpire))"
    and "E = {i. \<exists>m. map_of (qv_session_metadata sv) i = Some m \<and> now - sm_last_active_time m > qv_max_idle_time_seconds sv}"
  shows "map_of (qv_sessions sv') = map_of (qv_sessions sv) |` (- E)
    \<and> map_of (qv_session_metadata sv') = map_of (qv_session_metadata sv) |` (- E)
    \<and> qv_active_sessions_count sv' = qv_active_sessions_count sv - int (card E)
    \<and> qv_total_session_time sv' = qv_total_session_time sv + (\<Sum>i\<in>E. now - the (map_of (qv_session_start_times sv) i))
    \<and> qv_objs sv' = qv_objs sv"
proof -
  let ?l = "qv_session_metadata sv"
  let ?ks = "expired_ids now (qv_max_idle_time_seconds sv) ?l"
  have sv': "sv' = server_expire_loop now ?l sv"
    by (simp add: assms(2) server_onExpiration_def server_check_expired_sessions_def server_start_expiration_timer_def)
  have inv: "omap_inv (qv_sessions sv)" "omap_inv ?l" "omap_inv (qv_session_start_times sv)"
      and dom: "dom (map_of (qv_session_start_times sv)) = dom (map_of ?l)"
    using assms(1) by (simp_all add: qw_tables_ok_def)
  have keys: "distinct (map fst ?l)"
    using inv(2) by (rule omap_inv_distinct)
  then have E: "E = set ?ks"
    by (force simp: assms(3) expired_ids_def)
  have "set ?ks \<subseteq> dom (map_of ?l)"
    by (simp add: dom_map_of_conv_image_fst set_expired_ids)
  then have "qv_total_session_time sv' = qv_total_session_time sv + (\<Sum>i\<leftarrow>?ks. now - the (map_of (qv_session_start_times sv) i))"
    using distinct_expired_ids [OF keys] inv dom unfolding sv' by (intro expire_loop_times) simp_all
  moreover note expire_loop_tables [of now ?l sv, folded sv']
  moreover have "card E = length ?ks"
    unfolding E using distinct_expired_ids [OF keys] by (rule distinct_card)
  ultimately show ?thesis
    using inv distinct_expired_ids [OF keys]
    by (simp add: omap.look_fold_del E sum_list_distinct_conv_sum_set)
qed

theorem qwen_expiry_exact_witness:
  "map_of (qv_sessions (fst (server_step qw_sample (306, QvExpire)))) 1 = None
   \<and> qv_total_session_time (fst (server_step qw_sample (306, QvExpire))) = 301
   \<and> qv_objs (fst (server_step qw_sample (306, QvExpire))) = qv_objs qw_sample"
proof -
  have E: "{i. \<exists>m. map_of (qv_session_metadata qw_sample) i = Some m \<and> 306 - sm_last_active_time m > qv_max_idle_time_seconds qw_sample} = {1}"
    by (auto simp: qw_sample_eq split: if_splits)
  have "map_of (qv_session_start_times qw_sample) 1 = Some 5" "qv_total_session_time qw_sample = 0"
    by (simp_all add: qw_sample_eq)
  with qwen_expiry_exact [OF qw_sample_tables refl refl, of 306] show ?thesis
    unfolding E by (simp del: server_step.simps)
qed

end
