(* ===== verification/Text.thy ===== *)
theory Text
  imports Prelude
begin

text \<open>
  What the consoles use of the C++ library for text: \<open>std::isspace\<close> and \<open>std::isdigit\<close> in the "C"
  locale, extraction of words and \<open>std::ws\<close> on a string stream, \<open>std::getline\<close> on an input stream,
  \<open>std::stoi\<close> and \<open>std::to_string\<close>. The lemmas give the round trips: a number, a word or a line that
  was written is read back.
\<close>

section \<open>Characters\<close>

definition newline :: char where
  "newline = CHR 0x0A"

definition isspace :: "char \<Rightarrow> bool" where
  "isspace c \<longleftrightarrow> c \<in> {CHR '' '', CHR 0x09, CHR 0x0A, CHR 0x0B, CHR 0x0C, CHR 0x0D}"

definition isdigit :: "char \<Rightarrow> bool" where
  "isdigit c \<longleftrightarrow> of_char c \<ge> (48 :: nat) \<and> of_char c \<le> (57 :: nat)"

definition digit_val :: "char \<Rightarrow> nat" where
  "digit_val c = of_char c - 48"

definition digit_char :: "nat \<Rightarrow> char" where
  "digit_char n = char_of (48 + n)"

section \<open>String streams\<close>

text \<open>\<open>iss >> word\<close>: the word and the rest of the stream, or \<open>None\<close> if there is no word.\<close>

definition extract_word :: "string \<Rightarrow> (string \<times> string) option" where
  "extract_word s = (case dropWhile isspace s of
     [] \<Rightarrow> None
   | t \<Rightarrow> Some (takeWhile (\<lambda>c. \<not> isspace c) t, dropWhile (\<lambda>c. \<not> isspace c) t))"

text \<open>\<open>std::getline(iss >> std::ws, line)\<close>; the line is empty if nothing is left.\<close>

definition rest_of_line :: "string \<Rightarrow> string" where
  "rest_of_line s = takeWhile (\<lambda>c. c \<noteq> newline) (dropWhile isspace s)"

lemma extract_word_shorter: "extract_word s = Some (w, r) \<Longrightarrow> length r < length s"
proof -
  assume "extract_word s = Some (w, r)"
  then obtain c t where t: "dropWhile isspace s = c # t" and r: "r = dropWhile (\<lambda>c. \<not> isspace c) (c # t)"
    by (auto simp: extract_word_def split: list.splits)
  have "\<not> isspace c"
    using t by (metis hd_dropWhile list.distinct(1) list.sel(1))
  then have "length r \<le> length t"
    by (simp add: r length_dropWhile_le)
  also have "length t < length s"
    using length_dropWhile_le [of isspace s] by (simp add: t)
  finally show ?thesis .
qed

text \<open>The words that \<open>while (iss >> word)\<close> goes through.\<close>

function stream_words :: "string \<Rightarrow> string list" where
  "stream_words s = (case extract_word s of None \<Rightarrow> [] | Some (w, r) \<Rightarrow> w # stream_words r)"
  by pat_completeness auto
termination
  by (relation "measure length") (auto dest: extract_word_shorter)

declare stream_words.simps [simp del]

section \<open>Input streams\<close>

text \<open>An input stream: the characters to come, and whether neither the end nor an error was met.\<close>

record istream =
  in_rest :: string
  in_good :: bool

text \<open>
  \<open>std::getline(std::cin, line)\<close>. On a stream that is not good the line stays as it was. At the end
  of the stream the line is what is left, and the stream is not good any more.
\<close>

definition getline :: "istream \<Rightarrow> string \<Rightarrow> istream \<times> string" where
  "getline i line =
     (if \<not> in_good i then (i, line)
      else (let l = takeWhile (\<lambda>c. c \<noteq> newline) (in_rest i) in
            case dropWhile (\<lambda>c. c \<noteq> newline) (in_rest i) of
              [] \<Rightarrow> (\<lparr>in_rest = [], in_good = False\<rparr>, l)
            | _ # r \<Rightarrow> (\<lparr>in_rest = r, in_good = True\<rparr>, l)))"

section \<open>Numbers\<close>

datatype stoi_error = InvalidArgument | OutOfRange

definition decimal :: "string \<Rightarrow> nat" where
  "decimal ds = foldl (\<lambda>a c. 10 * a + digit_val c) 0 ds"

definition INT_MAX :: int where
  "INT_MAX = 2 ^ 31 - 1"

definition stoi :: "string \<Rightarrow> stoi_error + int" where
  "stoi s =
     (let t = dropWhile isspace s;
          neg = (case t of [] \<Rightarrow> False | c # _ \<Rightarrow> c = CHR ''-'');
          u = (case t of [] \<Rightarrow> [] | c # r \<Rightarrow> if c = CHR ''-'' \<or> c = CHR ''+'' then r else t);
          ds = takeWhile isdigit u
      in if ds = [] then Inl InvalidArgument
         else (let v = (if neg then - int (decimal ds) else int (decimal ds)) in
               if v < - INT_MAX - 1 \<or> INT_MAX < v then Inl OutOfRange else Inr v))"

fun nat_string :: "nat \<Rightarrow> string" where
  "nat_string n = (if n < 10 then [digit_char n] else nat_string (n div 10) @ [digit_char (n mod 10)])"

declare nat_string.simps [simp del]

definition to_string :: "int \<Rightarrow> string" where
  "to_string n = (if n < 0 then CHR ''-'' # nat_string (nat (- n)) else nat_string (nat n))"

section \<open>Round trips\<close>

lemma digit_char_digit [simp]:
  assumes "n < 10"
  shows "isdigit (digit_char n)" "digit_val (digit_char n) = n"
  using assms by (simp_all add: isdigit_def digit_val_def digit_char_def of_char_of)

lemma digit_not_space: "isdigit c \<Longrightarrow> \<not> isspace c"
  by (auto simp: isdigit_def isspace_def)

lemma digit_not_sign: "isdigit c \<Longrightarrow> c \<noteq> CHR ''-'' \<and> c \<noteq> CHR ''+''"
  by (auto simp: isdigit_def)

lemma decimal_snoc: "decimal (ds @ [c]) = 10 * decimal ds + digit_val c"
  by (simp add: decimal_def)

lemma nat_string_digits: "list_all isdigit (nat_string n) \<and> nat_string n \<noteq> []"
  by (induction n rule: nat_string.induct) (subst (1 2) nat_string.simps, auto)

lemma decimal_nat_string: "decimal (nat_string n) = n"
proof (induction n rule: nat_string.induct)
  case (1 n)
  show ?case
  proof (cases "n < 10")
    case True
    then show ?thesis by (subst nat_string.simps) (simp add: decimal_def)
  next
    case False
    then show ?thesis by (subst nat_string.simps) (simp add: decimal_snoc 1)
  qed
qed

lemma stoi_digits:
  assumes "list_all isdigit ds" and "ds \<noteq> []" and "\<not> (case r of [] \<Rightarrow> False | c # _ \<Rightarrow> isdigit c)"
  shows "stoi (ds @ r) = (if int (decimal ds) > INT_MAX then Inl OutOfRange else Inr (int (decimal ds)))"
    and "stoi (CHR ''-'' # ds @ r) = (if int (decimal ds) > INT_MAX + 1 then Inl OutOfRange else Inr (- int (decimal ds)))"
proof -
  obtain c t where ds: "ds = c # t"
    using assms(2) by (cases ds) simp_all
  have c: "isdigit c" "\<not> isspace c" "c \<noteq> CHR ''-''" "c \<noteq> CHR ''+''"
    using assms(1) digit_not_space digit_not_sign by (auto simp: ds)
  have tk: "takeWhile isdigit (ds @ r) = ds"
    using assms(1,3) by (cases r) (auto simp: takeWhile_append list_all_iff takeWhile_tail)
  show "stoi (ds @ r) = (if int (decimal ds) > INT_MAX then Inl OutOfRange else Inr (int (decimal ds)))"
    using c tk by (auto simp: stoi_def ds INT_MAX_def Let_def)
  have "\<not> isspace (CHR ''-'')"
    by (simp add: isspace_def)
  then show "stoi (CHR ''-'' # ds @ r) = (if int (decimal ds) > INT_MAX + 1 then Inl OutOfRange else Inr (- int (decimal ds)))"
    using tk assms(2) by (auto simp: stoi_def INT_MAX_def Let_def)
qed

text \<open>A number that fits an \<open>int\<close> is read back, whatever follows it but a digit.\<close>

lemma stoi_to_string:
  assumes "- INT_MAX - 1 \<le> n" and "n \<le> INT_MAX" and "\<not> (case r of [] \<Rightarrow> False | c # _ \<Rightarrow> isdigit c)"
  shows "stoi (to_string n @ r) = Inr n"
  using assms(1,2) stoi_digits [OF _ _ assms(3), of "nat_string (nat n)"] stoi_digits [OF _ _ assms(3), of "nat_string (nat (- n))"]
  by (auto simp: to_string_def nat_string_digits decimal_nat_string)

lemma extract_word_space [simp]: "isspace c \<Longrightarrow> extract_word (c # s) = extract_word s"
  by (simp add: extract_word_def)

lemma extract_word_word:
  assumes "w \<noteq> []" and "list_all (\<lambda>c. \<not> isspace c) w" and "\<not> (case r of [] \<Rightarrow> False | c # _ \<Rightarrow> \<not> isspace c)"
  shows "extract_word (w @ r) = Some (w, r)"
proof -
  obtain c t where w: "w = c # t"
    using assms(1) by (cases w) simp_all
  have "takeWhile (\<lambda>c. \<not> isspace c) (w @ r) = w" "dropWhile (\<lambda>c. \<not> isspace c) (w @ r) = r"
    using assms(2,3) by (cases r; auto simp: takeWhile_append dropWhile_append list_all_iff)+
  then show ?thesis
    using assms(2) by (simp add: extract_word_def w)
qed

lemma to_string_word: "to_string n \<noteq> []" "list_all (\<lambda>c. \<not> isspace c) (to_string n)"
  using nat_string_digits digit_not_space by (auto simp: to_string_def list_all_iff isspace_def)

lemma isspace_blank [simp]: "isspace (CHR '' '')"
  by (simp add: isspace_def)

section \<open>Lines\<close>

text \<open>The lines of an input, the last of them being what follows the last newline.\<close>

fun input_lines :: "string \<Rightarrow> string list" where
  "input_lines [] = [[]]"
| "input_lines (c # s) =
     (if c = newline then [] # input_lines s
      else (case input_lines s of [] \<Rightarrow> [[c]] | l # ls \<Rightarrow> (c # l) # ls))"

lemma input_lines_split:
  "input_lines s = takeWhile (\<lambda>c. c \<noteq> newline) s #
     (case dropWhile (\<lambda>c. c \<noteq> newline) s of [] \<Rightarrow> [] | _ # r \<Rightarrow> input_lines r)"
  by (induction s) (auto split: list.splits)

text \<open>A call of \<open>getline\<close> on a good stream takes the first line.\<close>

lemma getline_good:
  assumes "in_good i"
  shows "(in_good (fst (getline i cmd)) \<and> input_lines (in_rest i) = snd (getline i cmd) # input_lines (in_rest (fst (getline i cmd))))
    \<or> (\<not> in_good (fst (getline i cmd)) \<and> input_lines (in_rest i) = [snd (getline i cmd)])"
  using assms input_lines_split [of "in_rest i"]
  by (cases "dropWhile (\<lambda>c. c \<noteq> newline) (in_rest i)")
    (simp_all add: getline_def Let_def del: dropWhile_eq_Nil_conv)

lemma getline_bad: "\<not> in_good i \<Longrightarrow> getline i cmd = (i, cmd)"
  by (simp add: getline_def)

end
