(* ===== verification/Console.thy ===== *)
theory Console
  imports Text AsioServer AsioClient EpollServer
begin

text \<open>
  The \<open>main\<close> functions of \<open>claude/\<close>. Those of \<open>asio_server.cpp\<close> and \<open>asio_client.cpp\<close> are consoles: the commands that \<open>main\<close>
  reads from the standard input, what they make the server or the client do, and what is
  printed. That of \<open>server.cpp\<close> has the heartbeat only.

  A loop over the lines of an input is one definition, \<open>console_loop\<close>, with the reaction to a line as
  its argument; \<open>net\<close> is what other threads do to the server or the client while the loop waits for
  a line. The loop is run for a number of iterations; that it has ended by then is a result other than
  \<open>ConContinue\<close>.
\<close>

section \<open>The loop\<close>

datatype con_status = ConContinue | ConQuit | ConThrow stoi_error

datatype con_out = ConPrint string | ConServer server_out | ConClient tcp_effect

type_synonym 's console = "string \<Rightarrow> 's \<Rightarrow> con_status \<times> 's \<times> con_out list"

fun console_loop :: "'s console \<Rightarrow> (nat \<Rightarrow> 's \<Rightarrow> 's) \<Rightarrow> nat \<Rightarrow> istream \<Rightarrow> string \<Rightarrow> 's \<Rightarrow> con_status \<times> 's \<times> con_out list" where
  "console_loop react net 0 i cmd s = (ConContinue, s, [])"
| "console_loop react net (Suc n) i cmd s =
     (let (i', cmd') = getline i cmd;
          (st, s', os) = react cmd' (net n s)
      in if st = ConContinue
         then (let (st', s'', os') = console_loop react net n i' cmd' s' in (st', s'', ConPrint ''> '' # os @ os'))
         else (st, s', ConPrint ''> '' # os))"

text \<open>A console: whether a line ends the loop depends on the line alone.\<close>

locale line_console =
  fixes react :: "'s console"
    and ends :: "string \<Rightarrow> bool"
  assumes ends_react: "fst (react cmd s) \<noteq> ConContinue \<longleftrightarrow> ends cmd"
begin

lemma loop_bad:
  "\<not> in_good i \<Longrightarrow> fst (console_loop react net n i cmd s) \<noteq> ConContinue \<longleftrightarrow> 0 < n \<and> ends cmd"
proof (induction n arbitrary: s)
  case 0
  show ?case by simp
next
  case (Suc n)
  then show ?case
    using ends_react [of cmd "net n s"] by (auto simp: getline_bad case_prod_beta Let_def)
qed

lemma loop_good:
  "in_good i \<Longrightarrow> fst (console_loop react net n i cmd s) \<noteq> ConContinue \<longleftrightarrow> (\<exists>l \<in> set (take n (input_lines (in_rest i))). ends l)"
proof (induction n arbitrary: i cmd s)
  case 0
  show ?case by simp
next
  case (Suc n)
  obtain i' cmd' where g: "getline i cmd = (i', cmd')" by fastforce
  let ?r = "react cmd' (net n s)"
  have step: "fst (console_loop react net (Suc n) i cmd s) \<noteq> ConContinue \<longleftrightarrow>
      ends cmd' \<or> fst (console_loop react net n i' cmd' (fst (snd ?r))) \<noteq> ConContinue"
    using ends_react [of cmd' "net n s"] by (auto simp: g case_prod_beta Let_def)
  from getline_good [OF Suc.prems, of cmd] show ?case
  proof
    assume "in_good (fst (getline i cmd)) \<and>
      input_lines (in_rest i) = snd (getline i cmd) # input_lines (in_rest (fst (getline i cmd)))"
    then show ?thesis
      using Suc.IH [of i' cmd' "fst (snd ?r)"] unfolding step by (simp add: g)
  next
    assume "\<not> in_good (fst (getline i cmd)) \<and> input_lines (in_rest i) = [snd (getline i cmd)]"
    then show ?thesis
      using loop_bad [of i' net n cmd' "fst (snd ?r)"] unfolding step by (auto simp: g)
  qed
qed

text \<open>The loop ends if and only if one of the lines of the input ends it.\<close>

lemma loop_ends_iff:
  assumes "in_good i"
  shows "(\<exists>n. fst (console_loop react net n i cmd s) \<noteq> ConContinue) \<longleftrightarrow> (\<exists>l \<in> set (input_lines (in_rest i)). ends l)"
proof
  assume "\<exists>l \<in> set (input_lines (in_rest i)). ends l"
  then show "\<exists>n. fst (console_loop react net n i cmd s) \<noteq> ConContinue"
    using loop_good [OF assms, of net "length (input_lines (in_rest i))"] by fastforce
next
  assume "\<exists>n. fst (console_loop react net n i cmd s) \<noteq> ConContinue"
  then show "\<exists>l \<in> set (input_lines (in_rest i)). ends l"
    using loop_good [OF assms] by (meson in_set_takeD)
qed

end

section \<open>The server's console\<close>

definition parse_packet_type :: "string \<Rightarrow> u8 option" where
  "parse_packet_type typeStr =
     (if typeStr = ''bind'' then Some BIND
      else if typeStr = ''bind_resp'' then Some BIND_RESP
      else if typeStr = ''req'' then Some REQUEST
      else if typeStr = ''resp'' then Some RESPONSE
      else None)"

definition ServerConsole_help :: "con_out list" where
  "ServerConsole_help = map ConPrint
     [''Available commands:'',
      ''  clients               - List all connected clients'',
      ''  send <id> <type> <msg> - Send message to specific client'',
      ''                           Type: bind, bind_resp, req, resp'',
      ''  broadcast <type> <msg> - Send message to all clients'',
      ''  close <id>            - Close a specific connection'',
      ''  count                 - Show number of active connections'',
      ''  quit                  - Stop server and exit'']"

definition ServerConsole_clients :: "tcp_server \<Rightarrow> con_out list" where
  "ServerConsole_clients s = ConPrint ''Connected clients:'' #
     concat (map (\<lambda>i. let clientId = TcpServer_getClientInfo (int i) s in
         if clientId \<noteq> ''Not found''
         then [ConPrint (''  Connection '' @ to_string (int i) @ '': Client ID = '' @ clientId)] else [])
       [1 ..< TcpServer_connectionCount s + 100])"

text \<open>The commands with arguments; \<open>arg\<close> is the stream that is made of the rest of the line.\<close>

definition ServerConsole_send :: "conn_env \<Rightarrow> string \<Rightarrow> tcp_server \<Rightarrow> tcp_server \<times> con_out list" where
  "ServerConsole_send e arg s =
     (let usage = (s, [ConPrint ''Invalid command format. Use: send <id> <type> <message>'']) in
      case extract_word arg of
        None \<Rightarrow> usage
      | Some (idStr, r) \<Rightarrow>
          (case extract_word r of
             None \<Rightarrow> usage
           | Some (typeStr, r') \<Rightarrow>
               (let message = rest_of_line r' in
                if message = [] then (s, [ConPrint ''Message cannot be empty''])
                else (case stoi idStr of
                    Inl _ \<Rightarrow> usage
                  | Inr i \<Rightarrow>
                      (case parse_packet_type typeStr of
                         None \<Rightarrow> (s, [ConPrint ''Invalid packet type. Use: bind, bind_resp, req, resp''])
                       | Some packetId \<Rightarrow>
                           (let (sent, s', os) = TcpServer_sendTo e i packetId 0 message s
                            in (s', map ConServer os @
                                 [ConPrint (if sent
                                    then ''Sent '' @ packetTypeToString packetId @ '' packet to connection '' @ to_string i
                                    else ''Connection '' @ to_string i @ '' not found'')])))))))"

definition ServerConsole_broadcast :: "conn_env \<Rightarrow> string \<Rightarrow> tcp_server \<Rightarrow> tcp_server \<times> con_out list" where
  "ServerConsole_broadcast e arg s =
     (case extract_word arg of
        None \<Rightarrow> (s, [ConPrint ''Invalid command format. Use: broadcast <type> <message>''])
      | Some (typeStr, r) \<Rightarrow>
          (let message = rest_of_line r in
           if message = [] then (s, [ConPrint ''Message cannot be empty''])
           else (case parse_packet_type typeStr of
               None \<Rightarrow> (s, [ConPrint ''Invalid packet type. Use: bind, bind_resp, req, resp''])
             | Some packetId \<Rightarrow>
                 (let (s', os) = TcpServer_broadcast e packetId 0 message s
                  in (s', map ConServer os @
                       [ConPrint (''Broadcasted '' @ packetTypeToString packetId @ '' packet to all connections'')])))))"

definition ServerConsole_close :: "string \<Rightarrow> tcp_server \<Rightarrow> tcp_server \<times> con_out list" where
  "ServerConsole_close arg s =
     (case stoi arg of
        Inl _ \<Rightarrow> (s, [ConPrint ''Invalid command format. Use: close <id>''])
      | Inr i \<Rightarrow>
          (let (closed, s', os) = TcpServer_closeConnection i s
           in (s', map ConServer os @
                [ConPrint (''Connection '' @ to_string i @ (if closed then '' closed'' else '' not found''))])))"

definition ServerConsole_command :: "conn_env \<Rightarrow> tcp_server console" where
  "ServerConsole_command e cmd s =
     (if cmd = ''quit'' \<or> cmd = ''exit'' then (ConQuit, s, [])
      else (ConContinue,
        if cmd = ''count'' then (s, [ConPrint (''Active connections: '' @ to_string (int (TcpServer_connectionCount s)))])
        else if cmd = ''help'' then (s, ServerConsole_help)
        else if cmd = ''clients'' then (s, ServerConsole_clients s)
        else if take 4 cmd = ''send'' \<and> length cmd > 4 then ServerConsole_send e (drop 5 cmd) s
        else if take 9 cmd = ''broadcast'' \<and> length cmd > 9 then ServerConsole_broadcast e (drop 10 cmd) s
        else if take 5 cmd = ''close'' \<and> length cmd > 6 then ServerConsole_close (drop 6 cmd) s
        else (s, [ConPrint ''Unknown command. Type 'help' for available commands.''])))"

text \<open>The heartbeat thread, one turn of its loop; \<open>counter\<close> is its variable.\<close>

definition ServerConsole_heartbeat :: "conn_env \<Rightarrow> int \<Rightarrow> tcp_server \<Rightarrow> int \<times> tcp_server \<times> server_out list" where
  "ServerConsole_heartbeat e counter s =
     (counter + 1, TcpServer_broadcast e RESPONSE 0 (''Server heartbeat: '' @ to_string counter) s)"

text \<open>What \<open>main\<close> does after the loop.\<close>

definition ServerConsole_shutdown :: "tcp_server \<Rightarrow> tcp_server \<times> con_out list" where
  "ServerConsole_shutdown s = (let (s', os) = TcpServer_stop s in (s', ConPrint ''Stopping server...'' # map ConServer os))"

text \<open>The callbacks that \<open>main\<close> installs print what they are given.\<close>

definition ServerConsole_onTimeout :: "u32 \<Rightarrow> string list" where
  "ServerConsole_onTimeout sq = [''Request with sequence '' @ to_string (uint sq) @ '' timed out'']"

definition ServerConsole_onPacket :: "int \<Rightarrow> packet \<Rightarrow> string list" where
  "ServerConsole_onPacket connectionId p =
     (''Received packet from ['' @ to_string connectionId @ '']: Type='' @ packetTypeToString (ph_packetId (pk_header p)) @
      '', Status='' @ to_string (uint (ph_status (pk_header p))) @ '', Seq='' @ to_string (uint (ph_sequence (pk_header p))) @
      '', Length='' @ to_string (uint (ph_length (pk_header p)))) #
     (if pk_payload p \<noteq> [] then [''  Payload: '' @ string_of (pk_payload p)] else [])"

definition ServerConsole_onClosed :: "int \<Rightarrow> string list" where
  "ServerConsole_onClosed connectionId = [''Connection ['' @ to_string connectionId @ ''] closed'']"

section \<open>The client's console\<close>

text \<open>The arguments of \<open>main\<close>; \<open>random\<close> is the value of \<open>std::rand\<close>.\<close>

definition ClientConsole_args :: "nat \<Rightarrow> string list \<Rightarrow> stoi_error + string \<times> int \<times> string" where
  "ClientConsole_args random args =
     (let host = (if length args \<ge> 1 then args ! 0 else ''localhost'');
          clientId = (if length args \<ge> 3 then args ! 2 else ''CLIENT_'' @ to_string (int (random mod 10000)))
      in if length args \<ge> 2
         then (case stoi (args ! 1) of Inl x \<Rightarrow> Inl x | Inr port \<Rightarrow> Inr (host, port, clientId))
         else Inr (host, 8080, clientId))"

definition ClientConsole_setup :: "string \<Rightarrow> tcp_client \<times> tcp_effect list" where
  "ClientConsole_setup clientId =
     (let c = TcpClient_new clientId;
          c = TcpClient_setAutoReconnect True c;
          c = TcpClient_setPacketCallback True c;
          c = TcpClient_setConnectionStatusCallback True c;
          c = TcpClient_setTimeoutCallback True c
      in TcpClient_start c)"

definition ClientConsole_onPacket :: "packet \<Rightarrow> string list" where
  "ClientConsole_onPacket p = (if pk_payload p \<noteq> [] then [''  Payload: '' @ string_of (pk_payload p)] else [])"

definition ClientConsole_onStatus :: "bool \<Rightarrow> string list" where
  "ClientConsole_onStatus connected = [''Connection status: '' @ (if connected then ''Connected'' else ''Disconnected'')]"

definition ClientConsole_help :: "con_out list" where
  "ClientConsole_help = map ConPrint
     [''Available commands:'',
      ''  status                     - Show connection status'',
      ''  connect                    - Connect to server'',
      ''  disconnect                 - Disconnect from server'',
      ''  send <type> <message>      - Send a message (types: bind, req)'',
      ''  request <message> <timeout>- Send request and wait for response'',
      ''  quit                       - Exit the client'']"

text \<open>
  The state of the console is the time and the client. \<open>wait\<close> is what happens while a request waits
  for its response, as in \<open>sendRequestSync\<close>, and \<open>cb\<close> the name of the closure that receives it.
\<close>

type_synonym client_con = "time \<times> tcp_client"

record client_env =
  ce_tcp :: tcp_env
  ce_callback :: nat
  ce_wait :: "tcp_client \<Rightarrow> packet option \<times> tcp_client \<times> tcp_effect list"

definition ClientConsole_send :: "client_env \<Rightarrow> string \<Rightarrow> tcp_client \<Rightarrow> tcp_client \<times> con_out list" where
  "ClientConsole_send e arg c =
     (case extract_word arg of
        None \<Rightarrow> (c, [ConPrint ''Invalid command format. Use: send <type> <message>''])
      | Some (typeStr, r) \<Rightarrow>
          (let message = rest_of_line r in
           if message = [] then (c, [ConPrint ''Message cannot be empty''])
           else (case (if typeStr = ''bind'' then Some BIND else if typeStr = ''req'' then Some REQUEST else None) of
               None \<Rightarrow> (c, [ConPrint ''Invalid packet type. Use: bind, req''])
             | Some packetId \<Rightarrow>
                 (let (sq, c1) = TcpClient_getNextSequence c;
                      packet = createPacket_string packetId 0 sq message;
                      (sent, c2, os) = TcpClient_sendPacket (ce_tcp e) packet c1
                  in (c2, map ConClient os @
                       [ConPrint (if sent
                          then ''Sent '' @ packetTypeToString packetId @ '' packet with sequence '' @ to_string (uint sq)
                          else ''Failed to send packet: not connected'')])))))"

text \<open>The words of a request up to the first that starts with a digit, which is the timeout.\<close>

fun request_words :: "string list \<Rightarrow> string \<Rightarrow> stoi_error + string \<times> int" where
  "request_words [] message = Inr (message, 5000)"
| "request_words (word # ws) message =
     (if isdigit (word ! 0)
      then (case stoi word of Inl x \<Rightarrow> Inl x | Inr timeout \<Rightarrow> Inr (message, timeout))
      else request_words ws ((if message \<noteq> [] then message @ '' '' else message) @ word))"

text \<open>
  The future of \<open>std::async\<close> is a local variable: its destructor waits for the request to be answered
  or to fail.
\<close>

definition ClientConsole_request :: "client_env \<Rightarrow> string \<Rightarrow> client_con \<Rightarrow> con_status \<times> client_con \<times> con_out list" where
  "ClientConsole_request e arg = (\<lambda>(now, c).
     (case request_words (stream_words arg) [] of
        Inl x \<Rightarrow> (ConThrow x, (now, c), [])
      | Inr (message, timeout) \<Rightarrow>
          if message = [] then (ConContinue, (now, c), [ConPrint ''Message cannot be empty''])
          else (let (result, c', os) = TcpClient_sendRequestSync (ce_tcp e) message (milliseconds timeout) (ce_callback e) now (ce_wait e) c
                in (ConContinue, (now, c'),
                    ConPrint (''Sending request with timeout '' @ to_string timeout @ ''ms: '' @ message) #
                    map ConClient os @
                    [ConPrint (case result of
                       Inl what \<Rightarrow> ''Request error: '' @ what
                     | Inr response \<Rightarrow> ''Received response for sequence '' @ to_string (uint (ph_sequence (pk_header response))) @
                         '', status '' @ to_string (uint (ph_status (pk_header response))) @ '': '' @ string_of (pk_payload response))]))))"

definition ClientConsole_command :: "client_env \<Rightarrow> client_con console" where
  "ClientConsole_command e cmd = (\<lambda>(now, c).
     (let continue = (\<lambda>(c', os). (ConContinue, (now, c'), os)) in
      if cmd = ''quit'' \<or> cmd = ''exit'' then (ConQuit, (now, c), [])
      else if cmd = ''help'' then continue (c, ClientConsole_help)
      else if cmd = ''status'' then
        continue (c, [ConPrint (''Client ID: '' @ TcpClient_getClientId c),
                      ConPrint (''Connected: '' @ (if TcpClient_isConnected c then ''Yes'' else ''No''))])
      else if cmd = ''connect'' then
        (let (c', os) = TcpClient_start (TcpClient_setAutoReconnect True c)
         in continue (c', ConPrint ''Connecting to server...'' # map ConClient os))
      else if cmd = ''disconnect'' then
        (let (c', os) = TcpClient_stop (TcpClient_setAutoReconnect False c)
         in continue (c', map ConClient os @ [ConPrint ''Disconnected from server'']))
      else if take 4 cmd = ''send'' \<and> length cmd > 4 then continue (ClientConsole_send e (drop 5 cmd) c)
      else if take 7 cmd = ''request'' \<and> length cmd > 7 then ClientConsole_request e (drop 8 cmd) (now, c)
      else continue (c, [ConPrint ''Unknown command. Type 'help' for available commands.''])))"

definition ClientConsole_shutdown :: "tcp_client \<Rightarrow> tcp_client \<times> con_out list" where
  "ClientConsole_shutdown c = (let (c', os) = TcpClient_stop c in (c', ConPrint ''Stopping client...'' # map ConClient os))"

section \<open>The epoll server's heartbeat\<close>

definition EpMain_port :: "string list \<Rightarrow> stoi_error + int" where
  "EpMain_port args = (case args of [] \<Rightarrow> Inr 8080 | a # _ \<Rightarrow> stoi a)"

text \<open>One turn of the loop of the heartbeat thread; \<open>ns\<close> is what each \<open>send\<close> returns.\<close>

definition EpMain_heartbeat :: "int \<Rightarrow> int list \<Rightarrow> ep_server \<Rightarrow> int \<times> ep_server \<times> ep_effect list" where
  "EpMain_heartbeat counter ns s =
     (counter + 1, EpServer_broadcast (bytes_of (''Server heartbeat: '' @ to_string counter)) ns s)"

end
