(* ===== verification/ConsoleProps.thy ===== *)
theory ConsoleProps
  imports Console
begin

text \<open>
  What holds of the consoles: when their loops end, that a command which was written out is read
  back, and what happens at the end of the input.
\<close>

section \<open>When the loops end\<close>

interpretation server_console: line_console "ServerConsole_command e" "\<lambda>l. l = ''quit'' \<or> l = ''exit''" for e
  by unfold_locales (simp add: ServerConsole_command_def)

text \<open>
  C35: the server's console ends if and only if one of the lines of its input is \<open>quit\<close> or \<open>exit\<close>, whatever
  other threads do meanwhile. When the input ends without such a line, the console goes on for ever.
\<close>

theorem server_console_ends_iff:
  assumes "in_good i"
  shows "(\<exists>n. fst (console_loop (ServerConsole_command e) net n i cmd s) \<noteq> ConContinue)
    \<longleftrightarrow> ''quit'' \<in> set (input_lines (in_rest i)) \<or> ''exit'' \<in> set (input_lines (in_rest i))"
  using server_console.loop_ends_iff [OF assms] by blast

definition sample_input :: "string \<Rightarrow> istream" where
  "sample_input l = \<lparr>in_rest = ''count'' @ [newline] @ l, in_good = True\<rparr>"

theorem server_console_ends_iff_witness:
  "(\<exists>n. fst (console_loop (ServerConsole_command sample_env) (\<lambda>_ s. s) n (sample_input (''quit'' @ [newline])) [] (TcpServer_new ''S'')) \<noteq> ConContinue)
   \<and> \<not> (\<exists>n. fst (console_loop (ServerConsole_command sample_env) (\<lambda>_ s. s) n (sample_input ''help'') [] (TcpServer_new ''S'')) \<noteq> ConContinue)"
  using server_console_ends_iff [of "sample_input (''quit'' @ [newline])" sample_env "\<lambda>_ s. s" "[]" "TcpServer_new ''S''"]
    server_console_ends_iff [of "sample_input ''help''" sample_env "\<lambda>_ s. s" "[]" "TcpServer_new ''S''"]
  by (simp add: sample_input_def newline_def)

definition client_ends :: "string \<Rightarrow> bool" where
  "client_ends cmd \<longleftrightarrow> cmd = ''quit'' \<or> cmd = ''exit''
     \<or> (take 7 cmd = ''request'' \<and> length cmd > 7 \<and> isl (request_words (stream_words (drop 8 cmd)) []))"

lemma client_request_status:
  "fst (ClientConsole_request e arg x) \<noteq> ConContinue \<longleftrightarrow> isl (request_words (stream_words arg) [])"
  by (cases x) (auto simp: ClientConsole_request_def case_prod_beta Let_def split: sum.splits)

lemma client_ends_command: "fst (ClientConsole_command e cmd x) \<noteq> ConContinue \<longleftrightarrow> client_ends cmd"
proof (cases "cmd \<noteq> ''quit'' \<and> cmd \<noteq> ''exit'' \<and> take 7 cmd = ''request'' \<and> length cmd > 7")
  case True
  then have "take 4 (take 7 cmd) = ''requ''"
    by simp
  then have "take 4 cmd \<noteq> ''send''"
    by (simp add: take_take)
  moreover have "cmd \<noteq> ''help'' \<and> cmd \<noteq> ''status'' \<and> cmd \<noteq> ''connect'' \<and> cmd \<noteq> ''disconnect''"
    using True by auto
  ultimately have "ClientConsole_command e cmd x = ClientConsole_request e (drop 8 cmd) x"
    using True by (cases x) (simp add: ClientConsole_command_def Let_def)
  with True show ?thesis by (simp add: client_request_status client_ends_def)
next
  case False
  then show ?thesis
    by (cases x) (auto simp: ClientConsole_command_def client_ends_def case_prod_beta Let_def)
qed

interpretation client_console: line_console "ClientConsole_command e" client_ends for e
  by unfold_locales (rule client_ends_command)

section \<open>Commands that are written out and read back\<close>

lemma parse_packet_type_word:
  assumes "parse_packet_type t = Some pid"
  shows "t \<noteq> []" "list_all (\<lambda>c. \<not> isspace c) t"
  using assms by (auto simp: parse_packet_type_def isspace_def split: if_splits)

lemma rest_of_line_blank:
  assumes "msg \<noteq> []" and "\<not> isspace (msg ! 0)" and "newline \<notin> set msg"
  shows "rest_of_line ('' '' @ msg) = msg"
proof -
  obtain c m where "msg = c # m"
    using assms(1) by (cases msg) simp_all
  with assms show ?thesis
    by (simp add: rest_of_line_def) (metis (mono_tags, lifting) takeWhile_eq_all_conv)
qed

text \<open>
  C36: the command \<open>send\<close> with an id that fits an \<open>int\<close>, the name of a packet type and a message sends
  that message to that connection, as a packet of that type.
\<close>

theorem server_send_roundtrip:
  assumes "- INT_MAX - 1 \<le> i" and "i \<le> INT_MAX" and "parse_packet_type t = Some pid"
    and "msg \<noteq> []" and "\<not> isspace (msg ! 0)" and "newline \<notin> set msg"
  shows "ServerConsole_command e (''send '' @ to_string i @ '' '' @ t @ '' '' @ msg) s =
    (let (sent, s', os) = TcpServer_sendTo e i pid 0 msg s
     in (ConContinue, s', map ConServer os @
          [ConPrint (if sent then ''Sent '' @ packetTypeToString pid @ '' packet to connection '' @ to_string i
                     else ''Connection '' @ to_string i @ '' not found'')]))"
proof -
  let ?arg = "to_string i @ '' '' @ t @ '' '' @ msg"
  have 1: "extract_word ?arg = Some (to_string i, '' '' @ t @ '' '' @ msg)"
    by (intro extract_word_word to_string_word) simp
  have "extract_word (t @ '' '' @ msg) = Some (t, '' '' @ msg)"
    using parse_packet_type_word [OF assms(3)] by (intro extract_word_word) simp_all
  then have 2: "extract_word ('' '' @ t @ '' '' @ msg) = Some (t, '' '' @ msg)"
    by simp
  have 3: "stoi (to_string i) = Inr i"
    using stoi_to_string [OF assms(1,2), of "[]"] by simp
  have "ServerConsole_command e (''send '' @ ?arg) s = (ConContinue, ServerConsole_send e ?arg s)"
    by (simp add: ServerConsole_command_def)
  moreover have "ServerConsole_send e ?arg s =
    (let (sent, s', os) = TcpServer_sendTo e i pid 0 msg s
     in (s', map ConServer os @
          [ConPrint (if sent then ''Sent '' @ packetTypeToString pid @ '' packet to connection '' @ to_string i
                     else ''Connection '' @ to_string i @ '' not found'')]))"
    unfolding ServerConsole_send_def 1 Let_def option.case prod.case 2 rest_of_line_blank [OF assms(4-6)] 3 sum.case assms(3)
    using assms(4) by simp
  ultimately show ?thesis by (simp add: case_prod_beta Let_def)
qed

theorem server_send_roundtrip_witness:
  "ServerConsole_command sample_env ''send -7 req hi all'' (TcpServer_new ''S'') =
     (ConContinue, snd (TcpServer_getNextSequence (TcpServer_new ''S'')), [ConPrint ''Connection -7 not found''])"
proof -
  have 1: "to_string (- 7) = ''-7''"
    by code_simp
  then show ?thesis
    using server_send_roundtrip [of "- 7" "''req''" REQUEST "''hi all''" sample_env "TcpServer_new ''S''"]
    by (simp add: INT_MAX_def parse_packet_type_def isspace_def newline_def TcpServer_sendTo_def TcpServer_sendPacketTo_def
        TcpServer_getNextSequence_def TcpServer_new_def)
qed

fun unwords :: "string list \<Rightarrow> string" where
  "unwords [] = []"
| "unwords [w] = w"
| "unwords (w # v # ws) = w @ '' '' @ unwords (v # ws)"

definition is_word :: "string \<Rightarrow> bool" where
  "is_word w \<longleftrightarrow> w \<noteq> [] \<and> list_all (\<lambda>c. \<not> isspace c) w"

lemma stream_words_unwords: "list_all is_word ws \<Longrightarrow> stream_words (unwords ws) = ws"
proof (induction ws rule: unwords.induct)
  case 1
  show ?case by (subst stream_words.simps) (simp add: extract_word_def)
next
  case (2 w)
  then have "extract_word w = Some (w, [])"
    using extract_word_word [of w "[]"] by (simp add: is_word_def)
  moreover have "stream_words [] = []"
    by (subst stream_words.simps) (simp add: extract_word_def)
  ultimately show ?case
    by (subst stream_words.simps) simp
next
  case (3 w v ws)
  have "extract_word (w @ '' '' @ unwords (v # ws)) = Some (w, '' '' @ unwords (v # ws))"
    using 3 by (intro extract_word_word) (simp_all add: is_word_def)
  moreover have "stream_words ('' '' @ unwords (v # ws)) = stream_words (unwords (v # ws))"
    by (subst (1 2) stream_words.simps) simp
  ultimately show ?case
    using 3 by (subst unwords.simps, subst stream_words.simps) simp
qed

lemma request_words_append:
  assumes "list_all (\<lambda>w. w \<noteq> [] \<and> \<not> isdigit (w ! 0)) ws" and "m \<noteq> []"
  shows "request_words (ws @ vs) m = request_words vs (unwords (m # ws))"
  using assms
proof (induction ws arbitrary: m)
  case Nil
  then show ?case by simp
next
  case (Cons w ws)
  then have "request_words ((w # ws) @ vs) m = request_words vs (unwords ((m @ '' '' @ w) # ws))"
    by simp
  also have "unwords ((m @ '' '' @ w) # ws) = unwords (m # w # ws)"
    by (cases ws) simp_all
  finally show ?case .
qed

text \<open>
  The command \<open>request\<close> with words that do not start with a digit, and a number after them, sends
  the words as a request with the number as its timeout, if the number fits an \<open>int\<close>. If it does not,
  the exception of \<open>std::stoi\<close> leaves the loop, and the console ends without stopping the client.
\<close>

theorem client_request_parsed:
  assumes "list_all is_word (ws @ [ds])" and "list_all (\<lambda>w. \<not> isdigit (w ! 0)) ws" and "ws \<noteq> []" and "list_all isdigit ds"
  shows "ClientConsole_command e (''request '' @ unwords (ws @ [ds])) (now, c) =
    (if INT_MAX < int (decimal ds) then (ConThrow OutOfRange, (now, c), [])
     else (let (result, c', os) = TcpClient_sendRequestSync (ce_tcp e) (unwords ws) (milliseconds (int (decimal ds))) (ce_callback e) now (ce_wait e) c
           in (ConContinue, (now, c'),
               ConPrint (''Sending request with timeout '' @ to_string (int (decimal ds)) @ ''ms: '' @ unwords ws) # map ConClient os @
               [ConPrint (case result of
                  Inl what \<Rightarrow> ''Request error: '' @ what
                | Inr response \<Rightarrow> ''Received response for sequence '' @ to_string (uint (ph_sequence (pk_header response))) @
                    '', status '' @ to_string (uint (ph_status (pk_header response))) @ '': '' @ string_of (pk_payload response))])))"
proof -
  obtain w vs where ws: "ws = w # vs"
    using assms(3) by (cases ws) simp_all
  have w: "w \<noteq> []" "list_all (\<lambda>w. w \<noteq> [] \<and> \<not> isdigit (w ! 0)) vs"
    using assms(1,2) by (auto simp: ws is_word_def list_all_iff)
  have ds: "ds \<noteq> []" "isdigit (ds ! 0)"
    using assms(1,4) by (auto simp: is_word_def list_all_length)
  have "request_words (stream_words (unwords (ws @ [ds]))) [] = request_words [ds] (unwords ws)"
    unfolding stream_words_unwords [OF assms(1)] using assms(2) request_words_append [OF w(2,1), of "[ds]"] by (simp add: ws)
  also have "\<dots> = (if INT_MAX < int (decimal ds) then Inl OutOfRange else Inr (unwords ws, int (decimal ds)))"
    using ds stoi_digits(1) [OF assms(4) ds(1), of "[]"] by simp
  finally have words: "request_words (stream_words (unwords (ws @ [ds]))) [] =
      (if INT_MAX < int (decimal ds) then Inl OutOfRange else Inr (unwords ws, int (decimal ds)))" .
  have "unwords ws \<noteq> []"
    using w(1) by (cases vs) (simp_all add: ws)
  moreover have "ClientConsole_command e (''request '' @ unwords (ws @ [ds])) (now, c) = ClientConsole_request e (unwords (ws @ [ds])) (now, c)"
    by (simp add: ClientConsole_command_def Let_def)
  ultimately show ?thesis
    by (simp add: ClientConsole_request_def words)
qed

definition sample_client_env :: client_env where
  "sample_client_env = \<lparr>ce_tcp = \<lparr>te_host = LittleEndian, te_pad1 = 0, te_pad2 = 0\<rparr>, ce_callback = 1, ce_wait = \<lambda>c. (None, c, [])\<rparr>"

theorem client_request_parsed_witness:
  "ClientConsole_command sample_client_env ''request call me 3000000000'' (0, TcpClient_new ''C'')
     = (ConThrow OutOfRange, (0, TcpClient_new ''C''), [])
   \<and> ClientConsole_command sample_client_env ''request call me 250'' (0, TcpClient_new ''C'')
     = (ConContinue, (0, TcpClient_new ''C''),
        [ConPrint ''Sending request with timeout 250ms: call me'', ConPrint ''Request error: Failed to send request: not connected''])"
proof -
  have 1: "list_all is_word [''call'', ''me'', ''3000000000'']" "list_all is_word [''call'', ''me'', ''250'']"
      "list_all (\<lambda>w. \<not> isdigit (w ! 0)) [''call'', ''me'']" "list_all isdigit ''3000000000''" "list_all isdigit ''250''"
      "decimal ''3000000000'' = 3000000000" "decimal ''250'' = 250" "to_string 250 = ''250''"
    by (simp_all add: is_word_def isspace_def isdigit_def decimal_def digit_val_def to_string_def nat_string.simps digit_char_def
        char_of_def bit_0)
  show ?thesis
    using client_request_parsed [of "[''call'', ''me'']" "''3000000000''" sample_client_env 0 "TcpClient_new ''C''"]
      client_request_parsed [of "[''call'', ''me'']" "''250''" sample_client_env 0 "TcpClient_new ''C''"] 1
    by (simp add: INT_MAX_def TcpClient_sendRequestSync_def TcpClient_sendRequest_def TcpClient_new_def)
qed

section \<open>At the end of the input\<close>

lemma loop_last_line:
  assumes "newline \<notin> set l"
  shows "console_loop react net (Suc n) \<lparr>in_rest = l, in_good = True\<rparr> cmd s
    = console_loop react net (Suc n) \<lparr>in_rest = [], in_good = False\<rparr> l s"
proof -
  have "takeWhile (\<lambda>c. c \<noteq> newline) l = l" "dropWhile (\<lambda>c. c \<noteq> newline) l = []"
    using assms by (auto simp: takeWhile_eq_all_conv)
  then show ?thesis by (simp add: getline_def del: takeWhile_eq_all_conv dropWhile_eq_Nil_conv)
qed

lemma broadcast_next_sequence: "ts_nextSequence (fst (TcpServer_broadcast e pid st msg s)) = ts_nextSequence s + 1"
proof -
  have "ts_nextSequence (fst (on_connection i p s)) = ts_nextSequence s" for i p and s :: tcp_server
    by (simp add: on_connection_def case_prod_beta Let_def split: option.splits)
  then have "ts_nextSequence (fst (seqs (map (\<lambda>i. on_connection i (q i)) is) s)) = ts_nextSequence s" for q "is" and s :: tcp_server
    by (induction "is" arbitrary: s) simp_all
  then show ?thesis
    by (simp add: TcpServer_broadcast_def TcpServer_broadcastPacket_def TcpServer_getNextSequence_def Let_def)
qed

lemma server_broadcast_line:
  assumes "parse_packet_type t = Some pid" and "msg \<noteq> []" and "\<not> isspace (msg ! 0)" and "newline \<notin> set msg"
  shows "fst (ServerConsole_command e (''broadcast '' @ t @ '' '' @ msg) s) = ConContinue"
    and "fst (snd (ServerConsole_command e (''broadcast '' @ t @ '' '' @ msg) s)) = fst (TcpServer_broadcast e pid 0 msg s)"
proof -
  have 1: "extract_word (t @ '' '' @ msg) = Some (t, '' '' @ msg)"
    using parse_packet_type_word [OF assms(1)] by (intro extract_word_word) simp_all
  have cmd: "ServerConsole_command e (''broadcast '' @ t @ '' '' @ msg) s = (ConContinue, ServerConsole_broadcast e (t @ '' '' @ msg) s)"
    by (simp add: ServerConsole_command_def)
  have "fst (ServerConsole_broadcast e (t @ '' '' @ msg) s) = fst (TcpServer_broadcast e pid 0 msg s)"
    unfolding ServerConsole_broadcast_def 1 option.case prod.case Let_def rest_of_line_blank [OF assms(2-4)] assms(1)
    using assms(2) by (simp add: case_prod_beta)
  with cmd show "fst (ServerConsole_command e (''broadcast '' @ t @ '' '' @ msg) s) = ConContinue"
    "fst (snd (ServerConsole_command e (''broadcast '' @ t @ '' '' @ msg) s)) = fst (TcpServer_broadcast e pid 0 msg s)"
    by simp_all
qed

text \<open>
  At the end of its input \<open>std::getline\<close> leaves the line as it was. A \<open>broadcast\<close> command on a last
  line without a newline is therefore carried out again in every turn of the loop.
\<close>

theorem server_console_repeats:
  assumes "parse_packet_type t = Some pid" and "msg \<noteq> []" and "\<not> isspace (msg ! 0)" and "newline \<notin> set msg"
  shows "ts_nextSequence (fst (snd (console_loop (ServerConsole_command e) (\<lambda>_ s. s) n
      \<lparr>in_rest = ''broadcast '' @ t @ '' '' @ msg, in_good = True\<rparr> cmd s))) = ts_nextSequence s + of_nat n"
proof (cases n)
  case 0
  then show ?thesis by simp
next
  case (Suc k)
  let ?l = "''broadcast '' @ t @ '' '' @ msg"
  have loop: "ts_nextSequence (fst (snd (console_loop (ServerConsole_command e) (\<lambda>_ s. s) m \<lparr>in_rest = [], in_good = False\<rparr> ?l s)))
      = ts_nextSequence s + of_nat m" for m
  proof (induction m arbitrary: s)
    case 0
    show ?case by simp
  next
    case (Suc m)
    note line = server_broadcast_line [OF assms, of e s]
    show ?case
      using Suc.IH [of "fst (TcpServer_broadcast e pid 0 msg s)"] line
      by (simp add: getline_bad case_prod_beta Let_def broadcast_next_sequence del: append.simps)
  qed
  have "newline \<notin> set ?l"
    using assms(1,4) by (auto simp: parse_packet_type_def newline_def split: if_splits)
  then show ?thesis
    using loop [of n] by (simp add: Suc loop_last_line del: console_loop.simps append.simps)
qed

theorem server_console_repeats_witness:
  "ts_nextSequence (fst (snd (console_loop (ServerConsole_command sample_env) (\<lambda>_ s. s) 1000
      \<lparr>in_rest = ''broadcast req hi'', in_good = True\<rparr> [] (TcpServer_new ''S'')))) = 1001"
  using server_console_repeats [of "''req''" REQUEST "''hi''" sample_env 1000 "[]" "TcpServer_new ''S''"]
  by (simp add: parse_packet_type_def isspace_def newline_def TcpServer_new_def del: console_loop.simps)

end
