(* ===== verification/Programs.thy ===== *)
theory Programs
  imports ConsoleProps Apps SmppProps Qwen
begin

text \<open>
  What the programs do around their event loops: the destructors of the TurboNet library, the
  thread of \<open>TcpClient\<close>, the set-up and the example request of the Asio server's \<open>main\<close>, and the
  \<open>main\<close> functions of the SMPP example, the length-prefixed server and the epoll server.
\<close>

section \<open>Destructors of the TurboNet library\<close>

text \<open>
  A destructor joins the threads of its object, numbered from 0. \<open>here\<close> is the thread that runs
  it, if it is one of them: \<open>join\<close> on the calling thread throws, and an exception that leaves a
  destructor ends the program.
\<close>

datatype 'e life = LfEffect 'e | LfResetWork | LfStopContext | LfJoin nat | LfTerminate

fun join_threads :: "nat option \<Rightarrow> nat list \<Rightarrow> 'e life list" where
  "join_threads here [] = []"
| "join_threads here (t # ts) = (if here = Some t then [LfTerminate] else LfJoin t # join_threads here ts)"

definition Client_destroy :: "nat \<Rightarrow> nat option \<Rightarrow> client \<Rightarrow> client \<times> client_effect life list" where
  "Client_destroy ioThreads here c =
     (let (c', os) = Client_close c
      in (c', map LfEffect os @ [LfResetWork, LfStopContext] @ join_threads here [0 ..< ioThreads]))"

definition Server_destroy :: "nat \<Rightarrow> nat option \<Rightarrow> server \<Rightarrow> server \<times> server_effect life list" where
  "Server_destroy ioThreads here sv =
     (let (sv', os) = Server_stop sv
      in (sv', map LfEffect os @ [LfResetWork, LfStopContext] @ join_threads here [0 ..< ioThreads]))"

text \<open>The end of \<open>main\<close> in \<open>client.cpp\<close>, when the user has pressed Enter.\<close>

definition client_app_exit :: client_proc where
  "client_app_exit = Client_close"

lemma join_threads_terminate: "LfTerminate \<in> set (join_threads here ts) \<longleftrightarrow> (\<exists>k \<in> set ts. here = Some k)"
  by (induction ts) auto

lemma join_threads_all: "\<forall>k \<in> set ts. here \<noteq> Some k \<Longrightarrow> join_threads here ts = map LfJoin ts"
  by (induction ts) auto



section \<open>The thread of the Asio client\<close>

text \<open>
  \<open>start\<close> assigns a new thread to \<open>io_thread_\<close>, which ends the program if the old one has not been
  joined; the thread runs the context. \<open>stop\<close> releases the work guard and joins the thread, which
  returns when the context has run out of work. A context that has run out of work is stopped: a
  later \<open>run\<close> returns at once, as \<open>restart\<close> is never called.
\<close>

record io_life =
  io_joinable :: bool
  io_guard :: bool
  io_stopped :: bool

definition io_new :: io_life where
  "io_new = \<lparr>io_joinable = False, io_guard = True, io_stopped = False\<rparr>"

definition TcpClient_start_io :: "io_life \<Rightarrow> io_life option" where
  "TcpClient_start_io l = (if io_joinable l then None else Some (l\<lparr>io_joinable := True\<rparr>))"

definition TcpClient_stop_io :: "io_life \<Rightarrow> io_life" where
  "TcpClient_stop_io l =
     (let l = l\<lparr>io_guard := False\<rparr> in if io_joinable l then l\<lparr>io_joinable := False, io_stopped := True\<rparr> else l)"

text \<open>Whether completion handlers run.\<close>

definition io_runs :: "io_life \<Rightarrow> bool" where
  "io_runs l \<longleftrightarrow> io_joinable l \<and> \<not> io_stopped l"

datatype io_command = IoConnect | IoDisconnect | IoOther

fun console_io :: "string \<Rightarrow> io_command" where
  "console_io cmd = (if cmd = ''connect'' then IoConnect else if cmd = ''disconnect'' then IoDisconnect else IoOther)"

fun io_commands :: "io_life \<Rightarrow> string list \<Rightarrow> io_life option" where
  "io_commands l [] = Some l"
| "io_commands l (cmd # cmds) =
     (case console_io cmd of
        IoConnect \<Rightarrow> (case TcpClient_start_io l of None \<Rightarrow> None | Some l' \<Rightarrow> io_commands l' cmds)
      | IoDisconnect \<Rightarrow> io_commands (TcpClient_stop_io l) cmds
      | IoOther \<Rightarrow> io_commands l cmds)"

lemma io_stopped_step:
  "TcpClient_start_io l = Some l' \<Longrightarrow> io_stopped l' = io_stopped l"
  "io_stopped l \<Longrightarrow> io_stopped (TcpClient_stop_io l)"
  by (auto simp: TcpClient_start_io_def TcpClient_stop_io_def Let_def split: if_splits)

lemma io_stopped_for_ever: "io_stopped l \<Longrightarrow> io_commands l cmds = Some l' \<Longrightarrow> io_stopped l'"
proof (induction cmds arbitrary: l)
  case (Cons cmd cmds)
  then show ?case
    by (cases "console_io cmd") (auto simp: io_stopped_step(2) simp del: console_io.simps
        split: option.splits dest: io_stopped_step(1) elim!: Cons.IH [rotated])
qed simp

lemma io_unchanged: "\<forall>cmd \<in> set cmds. console_io cmd = IoOther \<Longrightarrow> io_commands l cmds = Some l"
  by (induction cmds) (simp_all del: console_io.simps)



section \<open>The set-up and the example request of the Asio server\<close>

text \<open>
  \<open>main\<close> calls members of \<open>server\<close> through \<open>->\<close>, the object is meant. The example request goes to a
  connection \<open>clientId\<close> with the text \<open>requestData\<close>, names that are declared nowhere: they are
  arguments. \<open>cb\<close> names the closure that receives the response.
\<close>

definition ServerConsole_setup :: "tcp_server \<times> server_out list" where
  "ServerConsole_setup =
     (let s = TcpServer_new ''SERVER_MAIN_001'';
          s = TcpServer_setTimeoutCallback True s;
          s = TcpServer_setCallbacks UserCallback True s
      in TcpServer_start s)"

definition ServerConsole_example :: "conn_env \<Rightarrow> int \<Rightarrow> string \<Rightarrow> nat \<Rightarrow> time \<Rightarrow> tcp_server \<Rightarrow> tcp_server \<times> con_out list" where
  "ServerConsole_example e clientId requestData cb now s =
     (let (sq, s1, os) = TcpServer_sendRequest e clientId requestData (milliseconds 5000) (Some cb) False now s;
          sent = (if sq > 0 then ''Request sent with sequence '' @ to_string (uint sq)
                  else ''Failed to send request - client not found'');
          (cancelled, s2) = TcpServer_cancelRequest sq s1
      in (s2, map ConServer os @ [ConPrint sent] @
            (if cancelled then [ConPrint (''Cancelled request with sequence '' @ to_string (uint sq))] else [])))"

definition ServerConsole_onResponse :: "int \<Rightarrow> packet \<Rightarrow> string list" where
  "ServerConsole_onResponse connectionId p =
     (''Received response from client '' @ to_string connectionId @ '' for sequence ''
        @ to_string (uint (ph_sequence (pk_header p)))) #
     (if pk_payload p \<noteq> [] then [''Response content: '' @ string_of (pk_payload p)] else [])"

text \<open>
  The example request of the Asio server's \<open>main\<close>, on a server with any connections and pending
  requests, as long as the request number is not in use (and not 0, which means failure). If the
  client is connected, the request is sent and taken back at once: both lines are printed, the
  pending requests are what they were before, so that its response can never reach the closure, and
  the timer has been armed for nothing. Otherwise nothing is sent and the failure is printed; only
  the number is used up.
\<close>

theorem console_example_cancels:
  assumes "ts_nextSequence s = sq" and "sq \<noteq> 0" and "map_of (ts_pendingRequests s) sq = None"
    and "map_of (ts_pendingRequests s) 0 = None" and "omap_inv (ts_pendingRequests s)"
    and "ServerConsole_example e i d cb now s = (s', os)"
  shows "map_of (ts_pendingRequests s') = map_of (ts_pendingRequests s) \<and> ts_nextSequence s' = sq + 1 \<and>
    (if i \<in> set (ts_connections s)
     then {ConPrint (''Request sent with sequence '' @ to_string (uint sq)),
           ConPrint (''Cancelled request with sequence '' @ to_string (uint sq))} \<subseteq> set os
          \<and> ts_timeoutTimerRunning s'
     else os = [ConPrint ''Failed to send request - client not found''])"
proof -
  let ?r = "TcpServer_sendRequest e i d (milliseconds 5000) (Some cb) False now s"
  let ?q = "\<lparr>pr_expiryTime = now + milliseconds 5000, pr_connectionId = i, pr_callback = Some cb\<rparr>"
  have run: "s' = snd (TcpServer_cancelRequest (fst ?r) (fst (snd ?r)))"
    "os = map ConServer (snd (snd ?r)) @ [ConPrint (if fst ?r > 0 then ''Request sent with sequence '' @ to_string (uint (fst ?r))
          else ''Failed to send request - client not found'')] @
        (if fst (TcpServer_cancelRequest (fst ?r) (fst (snd ?r)))
         then [ConPrint (''Cancelled request with sequence '' @ to_string (uint (fst ?r)))] else [])"
    using assms(6) by (simp_all add: ServerConsole_example_def case_prod_beta Let_def)
  note cases = TcpServer_sendRequest_cases [of e i d "milliseconds 5000" "Some cb" False now s] assms(1)
  show ?thesis
  proof (cases "i \<in> set (ts_connections s)")
    case True
    have "map_of (AList.delete sq (omap_put sq ?q (ts_pendingRequests s))) = map_of (ts_pendingRequests s)"
      using omap.put_then_del [OF assms(5,3)] .
    with True cases assms(2) show ?thesis
      unfolding run by (simp add: TcpServer_cancelRequest_def map_of_omap_put word_neq_0_conv)
  next
    case False
    then have "snd (snd ?r) = []"
      by (simp add: TcpServer_sendRequest_def TcpServer_getNextSequence_def TcpServer_sendPacketTo_def Let_def)
    moreover have "map_of (AList.delete 0 (ts_pendingRequests s)) = map_of (ts_pendingRequests s)"
      using assms(4) by (simp add: delete_conv' fun_upd_idem)
    ultimately show ?thesis
      using False cases assms(4) unfolding run by (simp add: TcpServer_cancelRequest_def)
  qed
qed

theorem console_example_cancels_witness:
  "ConPrint (''Cancelled request with sequence '' @ to_string (uint (1 :: u32)))
     \<in> set (snd (ServerConsole_example sample_env 1 ''x'' 0 0 sample_tcp_server))"
  using console_example_cancels [OF sample_tcp_server_fields(4) _ _ _ _ prod.collapse [symmetric], of sample_env 1 "''x''" 0 0]
  by (simp add: sample_tcp_server_fields omap_inv_def)

section \<open>The SMPP example\<close>

text \<open>
  \<open>SmppClient::connect\<close> calls \<open>SmppSession::connect\<close>, which the sources do not have: \<open>conn\<close> stands for
  it. What is asked of it is that it sends no PDU and leaves the numbering of requests alone.
\<close>

definition SmppClient_connect :: "(string \<Rightarrow> u16 \<Rightarrow> smpp_proc) \<Rightarrow> string \<Rightarrow> u16 \<Rightarrow> smpp_proc" where
  "SmppClient_connect conn host port = seqs [conn host port, emit SmThreadStart]"

definition SmppClient_send_pdu :: "smpp_env \<Rightarrow> smpp_pdu \<Rightarrow> smpp_proc" where
  "SmppClient_send_pdu e pdu = SmppSession_send_pdu e pdu"

text \<open>\<open>main\<close> up to the point where it sleeps, and after that; the thread with the server beside it.\<close>

definition smpp_main :: "(string \<Rightarrow> u16 \<Rightarrow> smpp_proc) \<Rightarrow> smpp_env \<Rightarrow> smpp_session \<times> smpp_effect list" where
  "smpp_main conn e =
     seqs [SmppClient_connect conn ''127.0.0.1'' 2775,
           SmppClient_bind_transceiver e ''sys'' ''pwd'',
           SmppClient_send_pdu e (SmppPdu_new e)] SmppClient_new"

definition smpp_main_end :: smpp_proc where
  "smpp_main_end = SmppClient_close True"

text \<open>The thread of the server constructs it and reaches the end of its scope.\<close>

definition smpp_main_server :: "nat \<Rightarrow> smpp_session list \<times> smpp_effect list" where
  "smpp_main_server threads = (SmppServer_new, replicate threads SmThreadStart @ SmppServer_destroy threads)"

definition connects_only :: "(string \<Rightarrow> u16 \<Rightarrow> smpp_proc) \<Rightarrow> bool" where
  "connects_only conn \<longleftrightarrow> (\<forall>host port s. ss_seq (fst (conn host port s)) = ss_seq s
     \<and> ss_pending_timers (fst (conn host port s)) = ss_pending_timers s \<and> ss_writing (fst (conn host port s)) = ss_writing s)"

text \<open>
  What the SMPP example sends: two requests under the numbers 1 and 2, both pending with a
  timer. The first is a bind request with the body of \<open>BindTransceiver\<close>, the second the PDU that
  was to be filled: sixteen bytes, whose fields, like the length of the first, are what the memory
  held.
\<close>

theorem smpp_main_sends:
  assumes "connects_only conn"
  shows "let s = fst (smpp_main conn e); h = sm_host e; junk = mem_u32 h (htonl h (sm_junk e)) in
    ss_seq s = 3 \<and> dom (map_of (ss_pending_timers s)) = {1, 2} \<and>
    ss_writing s =
      [junk @ mem_u32 h (htonl h 9) @ mem_u32 h (htonl h 0) @ mem_u32 h (htonl h 1)
         @ bytes_of ''sys'' @ [0] @ bytes_of ''pwd'' @ [0, 0, 0x34, 0, 0, 0],
       junk @ junk @ junk @ mem_u32 h (htonl h 2)]"
proof -
  define s1 where "s1 = fst (conn ''127.0.0.1'' 2775 SmppClient_new)"
  have s1: "ss_seq s1 = 1" "ss_pending_timers s1 = []" "ss_writing s1 = []"
    using assms by (simp_all add: connects_only_def s1_def SmppClient_new_def SmppSession_new_def)
  have "fst (smpp_main conn e) = fst (SmppClient_send_pdu e (SmppPdu_new e) (fst (SmppClient_bind_transceiver e ''sys'' ''pwd'' s1)))"
    by (simp add: smpp_main_def SmppClient_connect_def s1_def)
  then show ?thesis
    by (auto simp: Let_def SmppClient_send_pdu_def SmppClient_bind_transceiver_def SmppSession_send_pdu_def
        SmppSession_write_def s1 dom_emplace to_buffers_def BindTransceiver_def SmppPdu_new_def)
qed

theorem smpp_main_sends_witness:
  "connects_only (\<lambda>host port. modify (\<lambda>s. s\<lparr>ss_open := True\<rparr>)) \<and>
   ss_seq (fst (smpp_main (\<lambda>host port. modify (\<lambda>s. s\<lparr>ss_open := True\<rparr>)) smpp_sample)) = 3"
proof -
  have "connects_only (\<lambda>host port. modify (\<lambda>s. s\<lparr>ss_open := True\<rparr>))" by (simp add: connects_only_def)
  with smpp_main_sends [OF this, of smpp_sample] show ?thesis by (simp add: Let_def)
qed

section \<open>The length-prefixed server\<close>

text \<open>
  \<open>std::atoi\<close>: 0 if there is no number, undefined (\<open>None\<close>) if the number does not fit an \<open>int\<close>. The
  constructor takes the port as a \<open>short\<close>, the endpoint as an \<open>unsigned short\<close>; both conversions are
  modulo \<open>2 ^ 16\<close>.
\<close>

definition atoi :: "string \<Rightarrow> int option" where
  "atoi s = (case stoi s of Inr v \<Rightarrow> Some v | Inl InvalidArgument \<Rightarrow> Some 0 | Inl OutOfRange \<Rightarrow> None)"

definition short_of_int :: "int \<Rightarrow> int" where
  "short_of_int v = sint (word_of_int v :: u16)"

definition endpoint_port :: "int \<Rightarrow> u16" where
  "endpoint_port port = word_of_int port"

text \<open>\<open>main\<close> up to its loop: the usage message, or the port, the server and what it has started.\<close>

definition qwen_main :: "endian \<Rightarrow> string list \<Rightarrow> (string + u16 \<times> qw_server \<times> qw_effect list) option" where
  "qwen_main h args =
     (if length args \<noteq> 1 then Some (Inl ''Usage: server <port>'')
      else (case atoi (args ! 0) of
          None \<Rightarrow> None
        | Some v \<Rightarrow> Some (Inr (endpoint_port (short_of_int v), server_init (server_new h 300)))))"

text \<open>One turn of the loop: the numbers that it prints, the average as a fraction.\<close>

datatype report_item = RpText string | RpInt int | RpFraction int int

definition qwen_report :: "qw_server \<Rightarrow> report_item list" where
  "qwen_report sv =
     (let (active, (num, den)) = server_get_statistics sv
      in [RpText ''Active Sessions: '', RpInt active, RpText ''Avg Session Time: '', RpFraction num den, RpText ''s''])"

lemma endpoint_port_short: "endpoint_port (short_of_int v) = word_of_int v"
  by (simp add: endpoint_port_def short_of_int_def)

text \<open>
  The port of the length-prefixed server. A number in the range of \<open>int\<close>, written as usual, makes
  the server listen on that number modulo \<open>65536\<close>, without any message; every port from 0 to 65535
  is reached by its own number, although the constructor takes a \<open>short\<close>. A text that is no number
  means port 0, and any other number of arguments the usage message.
\<close>

theorem qwen_port_wraps:
  assumes "- INT_MAX - 1 \<le> v" and "v \<le> INT_MAX"
  shows "(\<exists>port. qwen_main h [to_string v] = Some (Inr (port, server_init (server_new h 300))) \<and> uint port = v mod 65536)
    \<and> (\<forall>args. length args \<noteq> 1 \<longrightarrow> qwen_main h args = Some (Inl ''Usage: server <port>''))"
proof -
  have "stoi (to_string v) = Inr v" using stoi_to_string [OF assms, of "[]"] by simp
  then have "qwen_main h [to_string v] = Some (Inr (word_of_int v, server_init (server_new h 300)))"
    by (simp add: qwen_main_def atoi_def endpoint_port_short)
  moreover have "uint (word_of_int v :: u16) = v mod 65536" by (simp add: uint_word_of_int)
  ultimately show ?thesis by (auto simp: qwen_main_def)
qed

theorem qwen_port_wraps_witness:
  "\<exists>port. qwen_main LittleEndian [to_string 70000] = Some (Inr (port, server_init (server_new LittleEndian 300))) \<and> uint port = 4464"
  using qwen_port_wraps [of 70000 LittleEndian] by (simp add: INT_MAX_def)

section \<open>The epoll server\<close>

text \<open>
  \<open>main\<close> up to the loop of \<open>start\<close>: an exception, of \<open>std::stoi\<close> or of the constructor, or the port,
  which \<open>htons\<close> takes modulo \<open>2 ^ 16\<close>, and the running server.
\<close>

definition EpMain_main :: "string list \<Rightarrow> ep_syscalls \<Rightarrow> ((stoi_error + string) + u16 \<times> ep_server) \<times> ep_effect list" where
  "EpMain_main args sc =
     (case EpMain_port args of
        Inl x \<Rightarrow> (Inl (Inl x), [])
      | Inr port \<Rightarrow>
          (case EpServer_new sc 4 of
             (Inl msg, os) \<Rightarrow> (Inl (Inr msg), os)
           | (Inr s, os) \<Rightarrow> (Inr (word_of_int port, EpServer_start s), os)))"

text \<open>
  When \<open>main\<close> fails, no descriptor that it has opened is left open; when it does not, the loop runs
  and no connection exists yet.
\<close>

theorem epoll_main_clean:
  assumes "EpMain_main args sc = (r, os)"
  shows "case r of
      Inl (Inl x) \<Rightarrow> os = []
    | Inl (Inr msg) \<Rightarrow> (sc_epoll_create sc \<noteq> -1 \<longrightarrow> EpClose (sc_epoll_create sc) \<in> set os)
        \<and> (sc_epoll_create sc \<noteq> -1 \<and> sc_socket sc \<noteq> -1 \<longrightarrow> EpClose (sc_socket sc) \<in> set os)
    | Inr (port, s) \<Rightarrow> os = [] \<and> es_running s \<and> es_connections s = [] \<and> length (tp_workers (es_pool s)) = 4"
  using assms
  by (auto simp: EpMain_main_def EpServer_new_def EpServer_start_def ThreadPool_new_def Let_def split: sum.splits if_splits)

theorem epoll_main_clean_witness:
  "let sc = \<lparr>sc_epoll_create = 3, sc_socket = 4, sc_setsockopt = 0, sc_fcntl = 0, sc_bind = -1, sc_listen = 0, sc_epoll_ctl = 0\<rparr>
   in fst (EpMain_main [] sc) = Inl (Inr ''Failed to bind socket'') \<and> EpClose 4 \<in> set (snd (EpMain_main [] sc))"
proof -
  let ?sc = "\<lparr>sc_epoll_create = 3, sc_socket = 4, sc_setsockopt = 0, sc_fcntl = 0, sc_bind = -1, sc_listen = 0, sc_epoll_ctl = 0\<rparr>"
  have "fst (EpMain_main [] ?sc) = Inl (Inr ''Failed to bind socket'')"
    by (simp add: EpMain_main_def EpMain_port_def EpServer_new_def)
  with epoll_main_clean [OF prod.collapse [symmetric], of "[]" ?sc] show ?thesis by (simp add: Let_def)
qed

end
