(* ===== verification/Spec2Isabelle.thy ===== *)
theory Spec2Isabelle
  imports TurboNetwork AsioNetwork TurboClientTimers GatewayProgram AsioServer EpollProps SmppStream QwenTables ConsoleProps Programs
begin

text \<open>
  \<^bold>\<open>Verification of TurboNet\<close>

  TurboNet is a small messaging system on TCP, written on Boost.Asio. Its packets have a header (length,
  packet id, status, sequence number) and a body. A client binds with a bind request (0x01), which
  the server answers (0x81) if an authentication callback accepts the client id; requests (0x02)
  are answered by responses (0x82) under the same sequence number. Beside it the repository holds five
  programs of the same kind that do not use it: an Asio server and an Asio client with consoles, a
  server on \<open>epoll\<close>, an SMPP library, and a length-prefixed server.

  \<^bold>\<open>Parts of the program and where they are modelled\<close>

  \<^item> \<open>turbonet_client.h/.cpp\<close>, class \<open>TurboNetClient\<close>. \<open>TurboFrame\<close> has the packets as the client builds
    and reads them, \<open>ResponseTimers\<close> the map and the priority queue of unanswered requests
    (\<open>responseMap_\<close>, \<open>responseQueue_\<close>) with the loop of \<open>checkAndFireResponseTimers\<close>, \<open>TurboClient\<close> the
    members (\<open>record client\<close>) and every method (\<open>Client_<method>\<close>).
  \<^item> \<open>turbonet_server.h/.cpp\<close>, classes \<open>TurboNetServer\<close> and \<open>Session\<close>: \<open>TurboServer\<close>
    (\<open>Server_<method>\<close>, \<open>Session_<method>\<close>).
  \<^item> \<open>server.cpp\<close>, \<open>client.cpp\<close>: the echo server and the demo client on top of the library, in \<open>Apps\<close>.
  \<^item> \<open>gateway.cpp\<close>: a server for producers that forwards their requests through one client to a
    server downstream and routes the replies back: \<open>Gateway\<close> has its two callbacks, \<open>GatewayProgram\<close>
    its \<open>main\<close> and the whole program, with its server and its client as components.
  \<^item> \<open>claude/asio_server.cpp\<close>: \<open>AsioPacket\<close> has the packet structs, which are copied to the wire with
    their padding, \<open>AsioTransport\<close> the reader and the write queue of a connection, \<open>AsioConnection\<close>
    the class \<open>Connection\<close>, \<open>AsioRequests\<close> the scan for expired requests and \<open>AsioServer\<close> the class
    \<open>TcpServer\<close>.
  \<^item> \<open>claude/asio_client.cpp\<close>, class \<open>TcpClient\<close>: \<open>AsioClient\<close>, on the reader, the write queue and the
    packets of the server, whose code it repeats.
  \<^item> The \<open>main\<close> functions of these two files: \<open>Text\<close> has what they use of the standard library for text
    (words of a stream, \<open>getline\<close>, \<open>stoi\<close>, \<open>to_string\<close>), \<open>Console\<close> the command loops
    (\<open>ServerConsole_<command>\<close>, \<open>ClientConsole_<command>\<close>), the heartbeat and the callbacks that print.
  \<^item> \<open>claude/server.cpp\<close>: \<open>ThreadPool\<close> has the class of that name as an inductive step relation on its
    workers, queue and notifications, \<open>EpollServer\<close> the classes \<open>Connection\<close> and \<open>TcpServer\<close>
    (\<open>EpConnection_<method>\<close>, \<open>EpServer_<method>\<close>) with the lifetime of connection objects.
  \<^item> \<open>new_chatgpt/main.cpp\<close>, SMPP: \<open>Smpp\<close> has the PDUs, the session that clients and servers share
    (\<open>SmppSession_<method>\<close>), the client and the server on top of it.
  \<^item> \<open>qwen/server.cpp\<close>: \<open>Qwen\<close> has the classes \<open>session\<close> and \<open>server\<close> (\<open>session_<method>\<close>,
    \<open>server_<method>\<close>), which share the packet format of \<open>TurboFrame\<close>, with strands, weak pointers and
    the statistics.
  \<^item> What the programs do around these classes is in \<open>Programs\<close>: the destructors of the TurboNet client
    and server with their threads, the io thread of \<open>TcpClient\<close> under the console's commands, and the
    \<open>main\<close> functions of the Asio server (set-up and example request), of \<open>claude/server.cpp\<close>, of
    \<open>new_chatgpt/main.cpp\<close> and of \<open>qwen/server.cpp\<close>.

  What is proved of a part is in the same theory or, for the larger ones, in \<open>TurboClientSend\<close>,
  \<open>TurboClientReceive\<close>, \<open>TurboClientTimers\<close>, \<open>TurboServerProps\<close>, \<open>EpollProps\<close>, \<open>SmppProps\<close>, \<open>QwenProps\<close>,
  \<open>QwenTables\<close> and \<open>ConsoleProps\<close>. \<open>TurboClientStream\<close>, \<open>TurboServerStream\<close>, \<open>AsioStream\<close> and \<open>SmppStream\<close> have the
  readers in arbitrary runs, \<open>TurboNetwork\<close> and \<open>AsioNetwork\<close> a client and a server joined by TCP.

  \<open>Prelude\<close> holds the types, the models of the standard containers and of statements with effects, and
  the locales for machines and simulations; \<open>ByteOrder\<close> the integers in memory, \<open>htonl\<close> and \<open>ntohl\<close>
  on hosts of either byte order; \<open>Framing\<close> and \<open>Reader\<close> streams of packets and components that read
  them.

  \<^bold>\<open>How the code is rendered\<close>

  A class is a record of its members. What Boost.Asio holds for an object (posted closures,
  outstanding reads, writes, waits and accepts) is kept in further fields, so that the model knows
  which completion handlers can run. A statement is a function from the state to the new state and
  the list of its effects (operations started, callbacks invoked, sockets closed), in order. Each
  component has a type of events, calls of its methods and completions of its operations, a
  step function that runs the handler of an event, and a predicate that says which events Boost.Asio
  allows in a state: a completion only for an operation that is outstanding, with the number of
  bytes it asked for. A run is a list of events; the threads that run the \<open>io_context\<close> are the
  arbitrary interleaving of events. Where the code's critical sections are shorter than a handler and
  that matters (\<open>gw_forward\<close> and \<open>gw_stash\<close>, \<open>TcpServer_scan\<close> and \<open>TcpServer_rearm\<close>), the handler is
  composed of the parts, and the parts can be interleaved.

  User callbacks are parameters: in \<open>TurboClient\<close> a callback is the list of calls that it makes back
  into the client, in \<open>TurboServer\<close> the authentication callback is a predicate and the request
  callback the list of replies it sends before it returns (later replies are events); in the Asio
  server and client their invocations are effects. Integers of 8 and 32 bits are words and wrap
  around; \<open>size_t\<close> is \<open>nat\<close>; time is an integer of nanoseconds (in \<open>Qwen\<close>, which uses
  \<open>std::time\<close>, of seconds). \<open>std::map\<close> is a sorted
  association list, \<open>std::unordered_map\<close> an association list without duplicate keys, whose order no
  statement depends on.

  \<^bold>\<open>What is proved\<close>

  \<^item> Packets: encoding followed by decoding is the identity, also between hosts of different byte
    order and with arbitrary padding, and streams are cut back into packets (locale \<open>framing\<close>,
    interpreted for the three formats). The commands of the consoles are read back as they are
    written out.
  \<^item> Receiving: the readers of the client, the session, the connection, the Asio client, the SMPP session
    and the length-prefixed session, given any
    stream of packets, have the effects of a specification that handles one packet at a time, and take
    exactly the bytes of the packets (locale \<open>framed_reader\<close>, and \<open>packet_host\<close> for the two classes
    that share the reader of \<open>AsioTransport\<close>). The number of
    reads is given in each statement, so the fuel of \<open>feed\<close> is exact.
  \<^item> Receiving among other events: for the client, the session, the connection and the Asio client the
    same holds in every run, where reads complete between writes, timers, calls and the events of
    other sessions, and may fail: exactly the packets that have arrived completely are handled, in
    order (locale \<open>interleaved_reader\<close>, and \<open>packet_run\<close> for the two classes of \<open>AsioTransport\<close>).
    For the SMPP session the specification has the other events as well, requests, timers, writes and
    closing, and a run of the session is one of the specification on an interleaving of the PDUs and the
    events (locale \<open>event_reader\<close>, of which \<open>interleaved_reader\<close> is the case without such events).
  \<^item> End to end: a TurboNet client and its session, and an Asio client and its connection, in every
    joint run and in both directions. Of TCP it is assumed that what one side has read is a
    beginning of what the other side's socket has taken.
  \<^item> Types: whatever a client sends, a connection writes nothing but well-formed packets.
  \<^item> Sending: the client's and the connections' bytes on the wire are whole packets in the order of
    sending; connections lose nothing; the client loses nothing if each write completes before the next
    packet is enqueued. The failures beyond that are stated as properties of their own.
  \<^item> Requests: the client's sweep reports exactly the requests that are due, and every request that is
    not cancelled is reported by the first sweep after its deadline; the Asio server's requests
    refine a finite map with deadlines.
  \<^item> Authentication and capacity: nothing reaches the application and nothing is written to a session
    before a client id of that session was accepted, and the set of sessions is bounded, in every run.
  \<^item> Threads: the pool loses, repeats and overtakes no task and misses no wake-up, and its destructor
    returns (a measure bounds every run); the epoll server makes steps of the pool only, closes every
    descriptor once and prints what it received.
  \<^item> Tables: in every run of the length-prefixed server the three tables of sessions agree, expiry is
    exact, and callbacks are called at most once; an SMPP session reports no number more often than it
    sent it.
  \<^item> Applications: the echo server answers any client, in any run, with the echoes of its requests; in every
    run of its server and its client the gateway writes to its sessions what a routing table says, as
    long as producers use distinct numbers; and what happens if they do not.
  \<^item> Errors: where the code does not do what it means to, the behaviour is stated and proved as it is.

  \<^bold>\<open>Bounds and termination\<close>

  All loops are structural recursion or recursion on a size (\<open>rt_loop\<close>, \<open>unframe\<close>, \<open>stream_words\<close>).
  \<open>TcpServer_handleIncomingPacket\<close> is a \<open>partial_function\<close>, since it calls itself through the callback
  that \<open>start\<close> installs; that it does not return is a theorem. \<open>console_loop\<close> runs for a given number
  of turns; when the consoles end at all is a theorem about all numbers. \<open>feed\<close> takes the number of reads,
  which is exact in each statement. Bodies are below \<open>2 ^ 32\<close> bytes in the first format, at most
  16372 bytes in the second and 8176 in the third, as the code's length fields and checks require.

  \<^bold>\<open>Not modelled\<close>

  Log output, except where it shows what a component received or what a console prints. What the
  sources call without declaring it, \<open>SmppSession::connect\<close> and the names that the example request in
  \<open>main\<close> of \<open>claude/asio_server.cpp\<close> uses, is a parameter. \<open>claude/asio_client.cpp\<close> repeats the packet
  structs of \<open>claude/asio_server.cpp\<close> word for word; \<open>AsioPacket\<close> stands for both. Buffers and objects are
  values: their lifetime is modelled in \<open>EpollServer\<close> and \<open>Qwen\<close>, where handlers can outlive an object,
  and in \<open>Programs\<close> for the threads of a client and a server; data races on members that the code leaves
  unprotected are outside the model.
\<close>

end
